(* ===== verification/FS_Prelude.thy ===== *)
theory FS_Prelude
  imports Main "HOL-Library.Word"
begin

text \<open>
  Shared vocabulary of the development: the result type that carries the ways in which a
  run of the C code can stop (a failed \<open>assert\<close>, an access outside an object, a loop that
  never ends), byte memories with their slices, little-endian codecs for the machine
  integers that the file system stores, linked chains, and generic list lemmas.
\<close>

named_theorems res_simps \<open>evaluation of the result monad\<close>
named_theorems mem_simps \<open>slices and splices of byte memories\<close>
named_theorems chain_simps \<open>linked chains\<close>

section \<open>Types\<close>

type_synonym byte = "8 word"
type_synonym u16 = "16 word"
type_synonym u32 = "32 word"
type_synonym u64 = "64 word"

text \<open>A C string is the list of its bytes without the terminating NUL.\<close>

type_synonym cstring = "byte list"

section \<open>Results\<close>

datatype fault =
    Assert_failed   \<comment> \<open>an \<open>assert\<close> of the source aborts the process\<close>
  | Out_of_bounds   \<comment> \<open>an access outside the object: undefined behaviour in C\<close>
  | Diverges        \<comment> \<open>a loop of the source that never ends\<close>
  | Div_by_zero     \<comment> \<open>an integer division by zero: undefined behaviour in C\<close>
  | Bad_free        \<comment> \<open>\<open>free\<close> of memory that was not allocated: undefined behaviour in C\<close>

type_synonym 'a res = "fault + 'a"

definition bind_res :: "'a res \<Rightarrow> ('a \<Rightarrow> 'b res) \<Rightarrow> 'b res" where
  "bind_res r f = (case r of Inl e \<Rightarrow> Inl e | Inr x \<Rightarrow> f x)"

definition assert_res :: "bool \<Rightarrow> 'b res \<Rightarrow> 'b res" where
  "assert_res b r = (if b then r else Inl Assert_failed)"

lemma bind_res_Inr [simp, res_simps]: "bind_res (Inr x) f = f x"
  by (simp add: bind_res_def)

lemma bind_res_Inl [simp, res_simps]: "bind_res (Inl e) f = Inl e"
  by (simp add: bind_res_def)

lemma bind_res_eq_Inr: "bind_res r f = Inr y \<longleftrightarrow> (\<exists>x. r = Inr x \<and> f x = Inr y)"
  by (cases r) auto

lemma bind_res_assoc: "bind_res (bind_res r f) g = bind_res r (\<lambda>x. bind_res (f x) g)"
  by (cases r) auto

lemma assert_res_True [simp, res_simps]: "assert_res True r = r"
  by (simp add: assert_res_def)

lemma assert_res_False [simp, res_simps]: "assert_res False r = Inl Assert_failed"
  by (simp add: assert_res_def)

lemma assert_res_eq_Inr: "assert_res b r = Inr y \<longleftrightarrow> b \<and> r = Inr y"
  by (simp add: assert_res_def)

lemma bind_res_cong [fundef_cong]:
  "r = r' \<Longrightarrow> (\<And>x. r' = Inr x \<Longrightarrow> f x = f' x) \<Longrightarrow> bind_res r f = bind_res r' f'"
  by (cases r') auto

section \<open>Arithmetic\<close>

lemma block_index_less:
  assumes "i * b + k \<le> n * (b :: nat)" and "0 < k"
  shows "i < n"
proof (rule ccontr)
  assume "\<not> i < n"
  then have "n * b \<le> i * b" by (intro mult_le_mono1) simp
  with assms show False by linarith
qed

lemma mod_0_between: "(a :: nat) mod m = 0 \<Longrightarrow> 0 < a \<Longrightarrow> a < 2 * m \<Longrightarrow> a = m"
  using mod_if [of a m] mod_if [of "a - m" m] by (auto split: if_splits)

section \<open>Byte memories\<close>

definition slice :: "nat \<Rightarrow> nat \<Rightarrow> 'a list \<Rightarrow> 'a list" where
  "slice off n m = take n (drop off m)"

definition splice :: "'a list \<Rightarrow> nat \<Rightarrow> 'a list \<Rightarrow> 'a list" where
  "splice m off bs = take off m @ bs @ drop (off + length bs) m"

text \<open>\<open>memcpy\<close> out of and into an object: outside the object there is no value.\<close>

definition peek :: "'a list \<Rightarrow> nat \<Rightarrow> nat \<Rightarrow> 'a list res" where
  "peek m off n = (if off + n \<le> length m then Inr (slice off n m) else Inl Out_of_bounds)"

definition poke :: "'a list \<Rightarrow> nat \<Rightarrow> 'a list \<Rightarrow> 'a list res" where
  "poke m off bs =
     (if off + length bs \<le> length m then Inr (splice m off bs) else Inl Out_of_bounds)"

lemma length_slice [simp, mem_simps]: "length (slice off n m) = min n (length m - off)"
  by (simp add: slice_def)

lemma length_splice [simp, mem_simps]:
  "off + length bs \<le> length m \<Longrightarrow> length (splice m off bs) = length m"
  by (simp add: splice_def)

lemma nth_slice: "i < n \<Longrightarrow> off + n \<le> length m \<Longrightarrow> slice off n m ! i = m ! (off + i)"
  by (simp add: slice_def)

lemma nth_splice:
  assumes "off + length bs \<le> length m" and "i < length m"
  shows "splice m off bs ! i =
    (if off \<le> i \<and> i < off + length bs then bs ! (i - off) else m ! i)"
  using assms by (auto simp: splice_def nth_append)

lemma slice_eqI:
  assumes "off + n \<le> length m" and "off' + n \<le> length m'"
    and "\<And>i. i < n \<Longrightarrow> m ! (off + i) = m' ! (off' + i)"
  shows "slice off n m = slice off' n m'"
  using assms by (intro nth_equalityI) (auto simp: nth_slice)

lemma slice_splice_same [mem_simps]:
  assumes "off + length bs \<le> length m"
  shows "slice off (length bs) (splice m off bs) = bs"
  using assms by (intro nth_equalityI) (auto simp: nth_slice nth_splice)

lemma slice_splice_disjoint [mem_simps]:
  assumes "off + length bs \<le> length m" and "off' + n \<le> length m"
    and "off' + n \<le> off \<or> off + length bs \<le> off'"
  shows "slice off' n (splice m off bs) = slice off' n m"
  using assms by (intro slice_eqI) (auto simp: nth_splice)

lemma slice_splice_inside [mem_simps]:
  assumes "off + length bs \<le> length m" and "off \<le> off'" and "off' + n \<le> off + length bs"
  shows "slice off' n (splice m off bs) = slice (off' - off) n bs"
  using assms by (intro slice_eqI) (auto simp: nth_splice)

lemma slice_splice_within [mem_simps]:
  assumes "o2 + n \<le> length m" and "o2 \<le> off" and "off + length bs \<le> o2 + n"
  shows "slice o2 n (splice m off bs) = splice (slice o2 n m) (off - o2) bs"
  using assms by (intro nth_equalityI) (auto simp: nth_slice nth_splice add.commute)

lemma slice_slice [mem_simps]: "i + k \<le> n \<Longrightarrow> slice i k (slice off n m) = slice (off + i) k m"
  by (simp add: slice_def drop_take add.commute)

lemma slice_all [simp]: "n = length m \<Longrightarrow> slice 0 n m = m"
  by (simp add: slice_def)

lemma slice_0_append [mem_simps]: "n = length xs \<Longrightarrow> slice 0 n (xs @ ys) = xs"
  by (simp add: slice_def)

lemma slice_append_right [mem_simps]:
  "length xs \<le> off \<Longrightarrow> slice off n (xs @ ys) = slice (off - length xs) n ys"
  by (simp add: slice_def)

lemma slice_append_left [mem_simps]:
  "off + n \<le> length xs \<Longrightarrow> slice off n (xs @ ys) = slice off n xs"
  by (simp add: slice_def)

lemma slice_replicate [simp]: "slice off n (replicate k x) = replicate (min n (k - off)) x"
  by (simp add: slice_def)

lemma splice_slice_id [simp]:
  "off + n \<le> length m \<Longrightarrow> splice m off (slice off n m) = m"
  by (intro nth_equalityI) (auto simp: nth_splice nth_slice)

lemma splice_nested [mem_simps]:
  assumes "k \<le> i" and "i + length bs \<le> k + n" and "k + n \<le> length m"
  shows "splice m k (splice (slice k n m) (i - k) bs) = splice m i bs"
  using assms by (intro nth_equalityI) (auto simp: nth_splice nth_slice)

lemma peek_ok [simp, res_simps]: "off + n \<le> length m \<Longrightarrow> peek m off n = Inr (slice off n m)"
  by (simp add: peek_def)

lemma poke_ok [simp, res_simps]:
  "off + length bs \<le> length m \<Longrightarrow> poke m off bs = Inr (splice m off bs)"
  by (simp add: poke_def)

section \<open>Little-endian integers\<close>

fun le_bytes :: "nat \<Rightarrow> nat \<Rightarrow> byte list" where
  "le_bytes 0 v = []"
| "le_bytes (Suc n) v = word_of_nat v # le_bytes n (v div 256)"

fun le_nat :: "byte list \<Rightarrow> nat" where
  "le_nat [] = 0"
| "le_nat (b # bs) = unat b + 256 * le_nat bs"

lemma length_le_bytes [simp]: "length (le_bytes n v) = n"
  by (induction n arbitrary: v) auto

lemma unat_byte_bound: "unat (b :: byte) < 256"
proof -
  have "unat b < 2 ^ LENGTH(8)" by (rule unsigned_less)
  then show ?thesis by simp
qed

lemma unat_byte_of_nat: "unat (word_of_nat v :: byte) = v mod 256"
  by (simp add: unat_of_nat)

lemma le_nat_le_bytes: "le_nat (le_bytes n v) = v mod 256 ^ n"
proof (induction n arbitrary: v)
  case 0
  then show ?case by simp
next
  case (Suc n)
  have "v mod 256 + 256 * (v div 256 mod 256 ^ n) = v mod (256 * 256 ^ n)"
    by (simp add: mod_mult2_eq)
  with Suc show ?case by (simp add: unat_byte_of_nat)
qed

lemma le_nat_bound: "le_nat bs < 256 ^ length bs"
proof (induction bs)
  case Nil
  then show ?case by simp
next
  case (Cons b bs)
  have "unat b < 256" by (rule unat_byte_bound)
  with Cons show ?case by simp
qed

lemma le_bytes_le_nat: "le_bytes (length bs) (le_nat bs) = bs"
proof (induction bs)
  case Nil
  then show ?case by simp
next
  case (Cons b bs)
  have b: "unat b < 256" by (rule unat_byte_bound)
  have "(unat b + 256 * le_nat bs) div 256 = le_nat bs"
    using b by simp
  moreover have "(word_of_nat (unat b + 256 * le_nat bs) :: byte) = b"
  proof -
    have "unat (word_of_nat (unat b + 256 * le_nat bs) :: byte) = unat b"
      unfolding unat_byte_of_nat using b by simp
    then show ?thesis by (simp only: word_unat_eq_iff)
  qed
  ultimately show ?case using Cons by simp
qed

text \<open>The integers of the on-disk structures, at their width.\<close>

definition le16 :: "u16 \<Rightarrow> byte list" where "le16 w = le_bytes 2 (unat w)"
definition le32 :: "u32 \<Rightarrow> byte list" where "le32 w = le_bytes 4 (unat w)"
definition le64 :: "u64 \<Rightarrow> byte list" where "le64 w = le_bytes 8 (unat w)"

definition un_le16 :: "byte list \<Rightarrow> u16" where "un_le16 bs = word_of_nat (le_nat bs)"
definition un_le32 :: "byte list \<Rightarrow> u32" where "un_le32 bs = word_of_nat (le_nat bs)"
definition un_le64 :: "byte list \<Rightarrow> u64" where "un_le64 bs = word_of_nat (le_nat bs)"

lemma unat_u16_bound: "unat (w :: u16) < 65536"
proof -
  have "unat w < 2 ^ LENGTH(16)" by (rule unsigned_less)
  then show ?thesis by simp
qed

lemma unat_u32_bound: "unat (w :: u32) < 4294967296"
proof -
  have "unat w < 2 ^ LENGTH(32)" by (rule unsigned_less)
  then show ?thesis by simp
qed

lemma unat_u64_bound: "unat (w :: u64) < 18446744073709551616"
proof -
  have "unat w < 2 ^ LENGTH(64)" by (rule unsigned_less)
  then show ?thesis by simp
qed

lemma sint_u64:
  fixes w :: u64
  assumes "unat w < 2 ^ 63"
  shows "sint w = int (unat w)"
proof -
  define k where "k = unat w"
  have u: "uint w = int k" by (simp add: k_def)
  have "sint w = signed_take_bit 63 (uint w)" by (simp add: sint_uint)
  also have "\<dots> = int k"
    unfolding u by (rule signed_take_bit_int_eq_self) (use assms [folded k_def] in simp_all)
  finally show ?thesis by (simp add: k_def)
qed

lemma sint_u32:
  fixes w :: u32
  assumes "unat w < 2 ^ 31"
  shows "sint w = int (unat w)"
proof -
  define k where "k = unat w"
  have u: "uint w = int k" by (simp add: k_def)
  have "sint w = signed_take_bit 31 (uint w)" by (simp add: sint_uint)
  also have "\<dots> = int k"
    unfolding u by (rule signed_take_bit_int_eq_self) (use assms [folded k_def] in simp_all)
  finally show ?thesis by (simp add: k_def)
qed

lemma length_le16 [simp]: "length (le16 w) = 2" by (simp add: le16_def)
lemma length_le32 [simp]: "length (le32 w) = 4" by (simp add: le32_def)
lemma length_le64 [simp]: "length (le64 w) = 8" by (simp add: le64_def)

text \<open>
  A fixed-width codec: the interface behind every structure that is copied between memory
  and disk with \<open>memcpy\<close>. The values that fit the layout are given by \<open>fits\<close>. From the two
  laws of the provider follow injectivity and that a structure read back from the place where
  it was stored is the structure stored.
\<close>

locale record_codec =
  fixes enc :: "'a \<Rightarrow> byte list" and dec :: "byte list \<Rightarrow> 'a" and width :: nat
    and fits :: "'a \<Rightarrow> bool"
  assumes enc_len: "fits x \<Longrightarrow> length (enc x) = width"
    and dec_inv: "fits x \<Longrightarrow> dec (enc x) = x"
begin

lemma enc_inj: "fits x \<Longrightarrow> fits y \<Longrightarrow> enc x = enc y \<longleftrightarrow> x = y"
  by (metis dec_inv)

lemma put_get:
  assumes "fits x" and "off + width \<le> length m"
  shows "dec (slice off width (splice m off (enc x))) = x"
  using assms slice_splice_same [of off "enc x" m] by (simp add: enc_len dec_inv)

lemma put_get_other:
  assumes "fits x" and "off + width \<le> length m" and "off' + width \<le> length m"
    and "off' + width \<le> off \<or> off + width \<le> off'"
  shows "dec (slice off' width (splice m off (enc x))) = dec (slice off' width m)"
  using assms by (simp add: slice_splice_disjoint enc_len)

end

text \<open>A codec without a side condition, as the integers have.\<close>

locale fixed_codec =
  fixes enc :: "'a \<Rightarrow> byte list" and dec :: "byte list \<Rightarrow> 'a" and width :: nat
  assumes enc_width: "length (enc x) = width"
    and dec_enc: "dec (enc x) = x"

sublocale fixed_codec \<subseteq> record_codec enc dec width "\<lambda>_. True"
  by unfold_locales (auto simp: enc_width dec_enc)

context fixed_codec
begin

lemmas stored_read = put_get [OF TrueI] and stored_elsewhere = put_get_other [OF TrueI]

end

interpretation u16_codec: fixed_codec le16 un_le16 2
  by unfold_locales (simp_all add: le16_def un_le16_def le_nat_le_bytes word_unat_eq_iff
    unat_of_nat take_bit_eq_mod unat_u16_bound)

interpretation u32_codec: fixed_codec le32 un_le32 4
  by unfold_locales (simp_all add: le32_def un_le32_def le_nat_le_bytes word_unat_eq_iff
    unat_of_nat take_bit_eq_mod unat_u32_bound)

interpretation u64_codec: fixed_codec le64 un_le64 8
  by unfold_locales (simp_all add: le64_def un_le64_def le_nat_le_bytes word_unat_eq_iff
    unat_of_nat take_bit_eq_mod unat_u64_bound)

section \<open>Searching lists\<close>

lemma find_map_option: "List.find P (map f xs) = map_option f (List.find (P \<circ> f) xs)"
  by (induction xs) auto

lemma find_append: "List.find P (xs @ ys) = (case List.find P xs of None \<Rightarrow> List.find P ys | r \<Rightarrow> r)"
  by (induction xs) auto

lemma find_update_other:
  "i < length xs \<Longrightarrow> \<not> P (xs ! i) \<Longrightarrow> \<not> P y \<Longrightarrow> List.find P (xs[i := y]) = List.find P xs"
proof (induction xs arbitrary: i)
  case (Cons x xs)
  then show ?case by (cases i) auto
qed simp

lemma find_update_first:
  "i < length xs \<Longrightarrow> \<forall>j < i. \<not> P (xs ! j) \<Longrightarrow> P y \<Longrightarrow> List.find P (xs[i := y]) = Some y"
proof (induction xs arbitrary: i)
  case (Cons x xs)
  then show ?case by (cases i) (force simp: All_less_Suc2)+
qed simp

text \<open>Removing the only hit of a search.\<close>

lemma find_update_none:
  "i < length xs \<Longrightarrow> \<forall>j < length xs. j \<noteq> i \<longrightarrow> \<not> P (xs ! j) \<Longrightarrow> \<not> P y \<Longrightarrow>
    List.find P (xs[i := y]) = None"
  by (auto simp: find_None_iff in_set_conv_nth nth_list_update split: if_splits)

text \<open>An update inside one of several lists of equal length.\<close>

lemma concat_update:
  assumes "\<forall>xs \<in> set xss. length xs = n" and "j < length xss" and "k < n"
  shows "concat (xss[j := (xss ! j)[k := y]]) = (concat xss)[j * n + k := y]"
  using assms
proof (induction xss arbitrary: j)
  case (Cons xs xss)
  show ?case
  proof (cases j)
    case 0
    with Cons.prems show ?thesis by (simp add: list_update_append)
  next
    case (Suc i)
    with Cons show ?thesis by (simp add: list_update_append)
  qed
qed simp

lemma concat_splice:
  assumes "\<forall>xs \<in> set xss. length xs = n" and "j < length xss" and "w + length ys \<le> n"
  shows "concat (xss[j := splice (xss ! j) w ys]) = splice (concat xss) (j * n + w) ys"
proof -
  have len: "length (concat (take j xss)) = j * n"
    using assms(1,2) by (induction j) (auto simp: take_Suc_conv_app_nth)
  have j: "length (xss ! j) = n" using assms(1,2) by simp
  have "concat xss = concat (take j xss) @ xss ! j @ concat (drop (Suc j) xss)"
    using id_take_nth_drop [OF assms(2)] by (metis concat.simps(2) concat_append)
  moreover have "concat (xss[j := splice (xss ! j) w ys]) =
      concat (take j xss) @ splice (xss ! j) w ys @ concat (drop (Suc j) xss)"
    using assms(2) by (simp add: upd_conv_take_nth_drop)
  ultimately show ?thesis
    using len j assms(3) by (simp add: splice_def)
qed

lemma slice_concat:
  assumes "\<forall>xs \<in> set xss. length xs = n" and "j < length xss" and "k \<le> n"
  shows "slice (j * n) k (concat xss) = take k (xss ! j)"
proof -
  have len: "length (concat (take j xss)) = j * n"
    using assms(1,2) by (induction j) (auto simp: take_Suc_conv_app_nth)
  have "concat xss = concat (take j xss) @ xss ! j @ concat (drop (Suc j) xss)"
    using id_take_nth_drop [OF assms(2)] by (metis concat.simps(2) concat_append)
  then show ?thesis using len assms by (simp add: slice_def)
qed

lemma splice_append:
  assumes "off + length xs + length ys \<le> length m"
  shows "splice m off (xs @ ys) = splice (splice m off xs) (off + length xs) ys"
proof -
  have "min (length m) off = off" using assms by simp
  then show ?thesis by (simp add: splice_def ac_simps)
qed

lemma slice_adjacent: "slice a n m @ slice (a + n) k m = slice a (n + k) m"
  by (simp add: slice_def take_add) (simp add: add.commute)

text \<open>Two adjacent pieces of a buffer written one behind the other are one piece.\<close>

lemma splice_slices:
  assumes "m1 = splice m off (slice a n buf)" and "m2 = splice m1 (off + n) (slice (a + n) k buf)"
    and "a + n + k \<le> length buf" and "off + n + k \<le> length m"
  shows "m2 = splice m off (slice a (n + k) buf)"
proof -
  have "length (slice a n buf) = n" "length (slice (a + n) k buf) = k" using assms(3) by simp_all
  then have "m2 = splice m off (slice a n buf @ slice (a + n) k buf)"
    using splice_append [of off "slice a n buf" "slice (a + n) k buf" m] assms(1,2,4) by simp
  then show ?thesis by (simp add: slice_adjacent)
qed

lemma nth_concat_equal:
  assumes "\<forall>xs \<in> set xss. length xs = n" and "j < length xss" and "k < n"
  shows "concat xss ! (j * n + k) = xss ! j ! k" and "j * n + k < length (concat xss)"
proof -
  have "concat xss ! (j * n + k) = xss ! j ! k \<and> j * n + k < length (concat xss)"
    using assms
  proof (induction xss arbitrary: j)
    case (Cons xs xss)
    show ?case
    proof (cases j)
      case 0
      with Cons.prems show ?thesis by (simp add: nth_append)
    next
      case (Suc i)
      with Cons.prems have "concat xss ! (i * n + k) = xss ! i ! k \<and> i * n + k < length (concat xss)"
        by (intro Cons.IH) auto
      with Suc Cons.prems show ?thesis by (simp add: nth_append)
    qed
  qed simp
  then show "concat xss ! (j * n + k) = xss ! j ! k" "j * n + k < length (concat xss)" by auto
qed

section \<open>Linked chains\<close>

text \<open>
  \<open>linked nx z c cs\<close>: following \<open>nx\<close> from \<open>c\<close> visits exactly the elements of \<open>cs\<close> and then
  reaches the end mark \<open>z\<close>.
\<close>

primrec linked :: "('a \<Rightarrow> 'a) \<Rightarrow> 'a \<Rightarrow> 'a \<Rightarrow> 'a list \<Rightarrow> bool" where
  "linked nx z c [] \<longleftrightarrow> c = z"
| "linked nx z c (x # xs) \<longleftrightarrow> c = x \<and> x \<noteq> z \<and> linked nx z (nx x) xs"

lemma linked_end [simp, chain_simps]: "linked nx z z cs \<longleftrightarrow> cs = []"
  by (cases cs) auto

lemma linked_unique: "linked nx z c xs \<Longrightarrow> linked nx z c ys \<Longrightarrow> xs = ys"
proof (induction xs arbitrary: c ys)
  case Nil
  then show ?case by simp
next
  case (Cons x xs)
  then show ?case by (cases ys) auto
qed

lemma linked_start: "linked nx z c cs \<Longrightarrow> c \<noteq> z \<Longrightarrow> cs \<noteq> [] \<and> hd cs = c"
  by (cases cs) auto

lemma linked_suffix:
  "linked nx z c (xs @ y # ys) \<Longrightarrow> linked nx z y (y # ys)"
  by (induction xs arbitrary: c) auto

lemma linked_distinct: "linked nx z c cs \<Longrightarrow> distinct cs"
proof (induction cs arbitrary: c)
  case Nil
  then show ?case by simp
next
  case (Cons x xs)
  have "x \<notin> set xs"
  proof
    assume "x \<in> set xs"
    then obtain ys zs where xs: "xs = ys @ x # zs" by (meson split_list)
    from Cons.prems have all: "linked nx z x (x # xs)" by simp
    moreover from Cons.prems have "linked nx z (nx x) (ys @ x # zs)" by (simp add: xs)
    then have "linked nx z x (x # zs)" by (rule linked_suffix)
    ultimately have "x # xs = x # zs" by (rule linked_unique)
    with xs show False by simp
  qed
  with Cons show ?case by auto
qed

lemma linked_not_end: "linked nx z c cs \<Longrightarrow> z \<notin> set cs"
  by (induction cs arbitrary: c) auto

lemma linked_cong:
  "(\<And>x. x \<in> set cs \<Longrightarrow> nx x = nx' x) \<Longrightarrow> linked nx z c cs = linked nx' z c cs"
  by (induction cs arbitrary: c) auto

lemma linked_upd_other [chain_simps]:
  "u \<notin> set cs \<Longrightarrow> linked (nx(u := v)) z c cs = linked nx z c cs"
  by (rule linked_cong) auto

lemma linked_last: "linked nx z c cs \<Longrightarrow> cs \<noteq> [] \<Longrightarrow> nx (last cs) = z"
  by (induction cs arbitrary: c) (auto split: if_splits)

text \<open>Redirecting the last element of a chain to the head of another appends that chain.\<close>

lemma linked_append:
  assumes "linked nx z c xs" and "xs \<noteq> []" and "linked nx z d ys"
    and "set xs \<inter> set ys = {}"
  shows "linked (nx(last xs := d)) z c (xs @ ys)"
  using assms
proof (induction xs arbitrary: c)
  case Nil
  then show ?case by simp
next
  case (Cons x xs)
  show ?case
  proof (cases "xs = []")
    case True
    with Cons.prems have "x \<notin> set ys" and d: "linked nx z d ys" by auto
    then have "linked (nx(x := d)) z d ys" by (simp add: linked_upd_other del: fun_upd_apply)
    with True Cons.prems show ?thesis by (simp add: fun_upd_def)
  next
    case False
    from Cons.prems(1) have "x \<notin> set xs" using linked_distinct by fastforce
    moreover from False have "last xs \<in> set xs" by simp
    ultimately have "last xs \<noteq> x" by auto
    with Cons False show ?thesis by auto
  qed
qed

text \<open>Redirecting an inner element to the end mark cuts the chain there.\<close>

lemma linked_cut_front:
  assumes "linked nx z c (xs @ ys)" and "xs \<noteq> []"
  shows "linked (nx(last xs := z)) z c xs"
  using assms
proof (induction xs arbitrary: c)
  case Nil
  then show ?case by simp
next
  case (Cons x xs)
  show ?case
  proof (cases "xs = []")
    case True
    with Cons.prems show ?thesis by simp
  next
    case False
    from Cons.prems(1) have "distinct ((x # xs) @ ys)" by (rule linked_distinct)
    with False have "last xs \<noteq> x" by (metis last_in_set distinct.simps(2) append_Cons Un_iff set_append)
    with Cons False show ?thesis by auto
  qed
qed

lemma linked_cut_back:
  "linked nx z c (xs @ ys) \<Longrightarrow> xs \<noteq> [] \<Longrightarrow> linked nx z (nx (last xs)) ys"
proof (induction xs arbitrary: c)
  case Nil
  then show ?case by simp
next
  case (Cons x xs)
  then show ?case by (cases "xs = []") auto
qed

lemma linked_drop: "linked nx z c cs \<Longrightarrow> n \<le> length cs \<Longrightarrow> linked nx z ((nx ^^ n) c) (drop n cs)"
proof (induction n arbitrary: c cs)
  case 0
  then show ?case by simp
next
  case (Suc n)
  then obtain x xs where cs: "cs = x # xs" by (cases cs) auto
  with Suc have "linked nx z ((nx ^^ n) (nx x)) (drop n xs)" by auto
  with Suc.prems cs show ?case by (simp add: funpow_swap1)
qed

lemma linked_nth: "linked nx z c cs \<Longrightarrow> n < length cs \<Longrightarrow> (nx ^^ n) c = cs ! n"
  using linked_drop [of nx z c cs n] by (simp add: Cons_nth_drop_Suc [symmetric])

end
