(* ===== verification/Fat_Disk.thy ===== *)
theory Fat_Disk
  imports FS_Prelude
begin

text \<open>
  The superblock and the cluster-level access to the disk file (\<open>src/FAT/fat.c\<close>, lines
  29 to 164 and 634 to 649): the global variables of the program as a record, the functions
  that read and write whole clusters, and the superblock's image on disk.

  The disk file is a regular file, modelled as its bytes; \<open>pread\<close> returns fewer bytes than
  asked for only at the end of the file, and \<open>pwrite\<close> past the end extends the file with
  zeros. Errors of the device itself are not modelled, except for the expression that turns
  the return value of \<open>pread\<close> into a status (\<open>cluster_read_status\<close>).
\<close>

section \<open>Constants and global state\<close>

definition FAT_DISK_SIZE :: nat where "FAT_DISK_SIZE = 10485760"
definition DIR_ENTRY_MAX_NAME_LEN :: nat where "DIR_ENTRY_MAX_NAME_LEN = 21"
definition DIR_ENTRY_TYPE_FILE :: u16 where "DIR_ENTRY_TYPE_FILE = 0"
definition DIR_ENTRY_TYPE_SUBDIR :: u16 where "DIR_ENTRY_TYPE_SUBDIR = 1"
definition DIR_ENTRY_TYPE_SYMLINK :: u16 where "DIR_ENTRY_TYPE_SYMLINK = 2"
definition BYTE_PER_CLUSTER :: u32 where "BYTE_PER_CLUSTER = 4096"
definition CLUSTER_COUNT :: u32 where "CLUSTER_COUNT = 2560"
definition CLUSTER_PER_FAT :: u32 where "CLUSTER_PER_FAT = 3"
definition FAT_TYPE :: u32 where "FAT_TYPE = 32"
definition ROOT_CLUSTER_START :: u32 where "ROOT_CLUSTER_START = 4"
definition FREE_CLUSTER_START :: u32 where "FREE_CLUSTER_START = 5"
definition END_OF_CHAIN :: u32 where "END_OF_CHAIN = 0"

record fat_superblock =
  byte_per_cluster :: u32
  cluster_count :: u32
  cluster_per_fat :: u32
  fat_type :: u32
  root_cluster_start :: u32
  free_cluster_start :: u32

text \<open>
  The globals \<open>superblock\<close> (a union of the struct with 512 bytes; \<open>sb_pad\<close> is the part
  behind the struct), \<open>fat_table\<close> and the file behind \<open>fat_disk\<close>; and what the functions
  take from their environment: \<open>heap_tail\<close>, the bytes that happen to lie behind a cluster
  buffer on the heap, and \<open>clock\<close>, the value \<open>time(NULL)\<close> returns.
\<close>

record fs =
  superblock :: fat_superblock
  sb_pad :: "byte list"
  fat_table :: "byte list"
  disk :: "byte list"
  heap_tail :: "nat \<Rightarrow> byte"
  clock :: u64

abbreviation sb_bpc :: "fs \<Rightarrow> nat" where
  "sb_bpc s \<equiv> unat (byte_per_cluster (superblock s))"

abbreviation sb_count :: "fs \<Rightarrow> nat" where
  "sb_count s \<equiv> unat (cluster_count (superblock s))"

abbreviation sb_fatlen :: "fs \<Rightarrow> nat" where
  "sb_fatlen s \<equiv> unat (cluster_per_fat (superblock s))"

definition min_u32 :: "u32 \<Rightarrow> u32 \<Rightarrow> u32" where
  "min_u32 a b = (if a < b then a else b)"

section \<open>The disk file\<close>

definition pread :: "byte list \<Rightarrow> nat \<Rightarrow> nat \<Rightarrow> byte list" where
  "pread d n off = slice off n d"

definition pwrite :: "byte list \<Rightarrow> byte list \<Rightarrow> nat \<Rightarrow> byte list" where
  "pwrite d bs off = take off d @ replicate (off - length d) 0 @ bs @ drop (off + length bs) d"

section \<open>Cluster access\<close>

definition get_disk_offset :: "fs \<Rightarrow> u32 \<Rightarrow> u32 res" where
  "get_disk_offset s cluster_num =
     assert_res (cluster_num < cluster_count (superblock s))
       (Inr (cluster_num * byte_per_cluster (superblock s)))"

definition get_new_cluster :: "fs \<Rightarrow> byte list" where
  "get_new_cluster s = replicate (sb_bpc s) 0"

text \<open>The cast to \<open>unsigned int\<close> and the comparison that make the status of a read.\<close>

definition cluster_read_status :: "int \<Rightarrow> u32 \<Rightarrow> int" where
  "cluster_read_status ret sz = (if (word_of_int ret :: u32) < sz then -1 else 0)"

definition read_cluster_from_disk ::
  "fs \<Rightarrow> u32 \<Rightarrow> u32 \<Rightarrow> u32 \<Rightarrow> (int \<times> byte list) res" where
  "read_cluster_from_disk s cluster_num offset sz =
     assert_res (cluster_num < cluster_count (superblock s) \<and>
                 offset + sz \<le> byte_per_cluster (superblock s))
       (bind_res (get_disk_offset s cluster_num) (\<lambda>base.
          let bs = pread (disk s) (unat sz) (unat (base + offset))
          in Inr (cluster_read_status (int (length bs)) sz, bs)))"

definition read_entire_cluster_from_disk :: "fs \<Rightarrow> u32 \<Rightarrow> (int \<times> byte list) res" where
  "read_entire_cluster_from_disk s cluster_num =
     read_cluster_from_disk s cluster_num 0 (byte_per_cluster (superblock s))"

definition write_cluster_to_disk :: "byte list \<Rightarrow> u32 \<Rightarrow> fs \<Rightarrow> (int \<times> fs) res" where
  "write_cluster_to_disk buf cluster_num s =
     assert_res (cluster_num < cluster_count (superblock s))
       (bind_res (get_disk_offset s cluster_num) (\<lambda>off.
        bind_res (peek buf 0 (sb_bpc s)) (\<lambda>bs.
          Inr (if int (length bs) < int (sb_bpc s) then -1 else 0,
               s\<lparr>disk := pwrite (disk s) bs (unat off)\<rparr>))))"

section \<open>The superblock on disk\<close>

definition sizeof_superblock :: nat where "sizeof_superblock = 512"

definition enc_superblock :: "fat_superblock \<Rightarrow> byte list" where
  "enc_superblock b =
     le32 (byte_per_cluster b) @ le32 (cluster_count b) @ le32 (cluster_per_fat b) @
     le32 (fat_type b) @ le32 (root_cluster_start b) @ le32 (free_cluster_start b)"

definition dec_superblock :: "byte list \<Rightarrow> fat_superblock" where
  "dec_superblock bs =
     \<lparr>byte_per_cluster = un_le32 (slice 0 4 bs), cluster_count = un_le32 (slice 4 4 bs),
      cluster_per_fat = un_le32 (slice 8 4 bs), fat_type = un_le32 (slice 12 4 bs),
      root_cluster_start = un_le32 (slice 16 4 bs), free_cluster_start = un_le32 (slice 20 4 bs)\<rparr>"

text \<open>The 512 bytes of the union.\<close>

definition sb_image :: "fs \<Rightarrow> byte list" where
  "sb_image s = enc_superblock (superblock s) @ sb_pad s"

definition write_superblock_to_disk :: "fs \<Rightarrow> (int \<times> fs) res" where
  "write_superblock_to_disk s =
     bind_res (poke (get_new_cluster s) 0 (sb_image s)) (\<lambda>tmp_cluster.
       write_cluster_to_disk tmp_cluster 0 s)"

definition default_superblock :: fat_superblock where
  "default_superblock =
     \<lparr>byte_per_cluster = BYTE_PER_CLUSTER, cluster_count = CLUSTER_COUNT,
      cluster_per_fat = CLUSTER_PER_FAT, fat_type = FAT_TYPE,
      root_cluster_start = ROOT_CLUSTER_START, free_cluster_start = FREE_CLUSTER_START\<rparr>"

definition init_superblock :: "bool \<Rightarrow> fs \<Rightarrow> (int \<times> fs) res" where
  "init_superblock first_time s =
     (if \<not> first_time then
        (let bs = pread (disk s) sizeof_superblock 0;
             mem = splice (sb_image s) 0 bs
         in Inr (if length bs < sizeof_superblock then -1 else 0,
                 s\<lparr>superblock := dec_superblock mem, sb_pad := drop 24 mem\<rparr>))
      else write_superblock_to_disk (s\<lparr>superblock := default_superblock\<rparr>))"

section \<open>Well-formed geometry\<close>

text \<open>
  What the code relies on of the superblock: 32-bit FAT entries that do not straddle
  clusters, a cluster that holds the superblock, a FAT with an entry for every data cluster,
  a root directory right behind the FAT, and a disk small enough for all offsets to fit in
  32 bits.
\<close>

definition geometry :: "fs \<Rightarrow> bool" where
  "geometry s \<longleftrightarrow>
     fat_type (superblock s) = 32 \<and>
     512 \<le> sb_bpc s \<and> 4 dvd sb_bpc s \<and>
     unat (root_cluster_start (superblock s)) = 1 + sb_fatlen s \<and>
     1 + sb_fatlen s < sb_count s \<and>
     sb_count s * (sb_bpc s + 4) < 2 ^ 32 \<and>
     4 * (sb_count s - 1 - sb_fatlen s) \<le> sb_fatlen s * sb_bpc s \<and>
     length (sb_pad s) = 488 \<and>
     length (fat_table s) = sb_fatlen s * sb_bpc s \<and>
     length (disk s) = sb_count s * sb_bpc s"

text \<open>The contents of a cluster, and the state with new contents in a cluster.\<close>

definition cluster_data :: "fs \<Rightarrow> u32 \<Rightarrow> byte list" where
  "cluster_data s c = slice (unat c * sb_bpc s) (sb_bpc s) (disk s)"

definition put_cluster :: "fs \<Rightarrow> u32 \<Rightarrow> byte list \<Rightarrow> fs" where
  "put_cluster s c bs = s\<lparr>disk := splice (disk s) (unat c * sb_bpc s) bs\<rparr>"

definition on_disk :: "fs \<Rightarrow> u32 \<Rightarrow> bool" where
  "on_disk s c \<longleftrightarrow> unat c < sb_count s"

lemma geometryD:
  assumes "geometry s"
  shows "fat_type (superblock s) = 32" and "512 \<le> sb_bpc s" and "4 dvd sb_bpc s"
    and "unat (root_cluster_start (superblock s)) = 1 + sb_fatlen s"
    and "1 + sb_fatlen s < sb_count s"
    and "sb_count s * (sb_bpc s + 4) < 2 ^ 32"
    and "4 * (sb_count s - 1 - sb_fatlen s) \<le> sb_fatlen s * sb_bpc s"
    and "length (sb_pad s) = 488" and "length (fat_table s) = sb_fatlen s * sb_bpc s"
    and "length (disk s) = sb_count s * sb_bpc s"
  using assms by (auto simp: geometry_def)

lemma bpc_not_0: "geometry s \<Longrightarrow> byte_per_cluster (superblock s) \<noteq> 0"
  using geometryD(2) [of s] by auto

lemma disk_offsets: "geometry s \<Longrightarrow> sb_count s * sb_bpc s < 2 ^ 32"
  using geometryD(6) [of s] by (simp add: algebra_simps)

lemma length_enc_superblock [simp]: "length (enc_superblock b) = 24"
  by (simp add: enc_superblock_def)

lemma dec_superblock_append:
  "dec_superblock (enc_superblock b @ rest) = b"
  by (simp add: dec_superblock_def enc_superblock_def slice_def u32_codec.dec_enc)

interpretation superblock_codec: fixed_codec enc_superblock dec_superblock 24
  by unfold_locales (use dec_superblock_append [where rest = "[]"] in auto)

lemma length_sb_image [simp]: "length (sb_pad s) = 488 \<Longrightarrow> length (sb_image s) = 512"
  by (simp add: sb_image_def)

lemma cluster_end: "unat c < sb_count s \<Longrightarrow> unat c * sb_bpc s + sb_bpc s \<le> sb_count s * sb_bpc s"
  by (metis Suc_leI add.commute mult_Suc mult_le_mono1)

lemma cluster_inside:
  "geometry s \<Longrightarrow> on_disk s c \<Longrightarrow> unat c * sb_bpc s + sb_bpc s \<le> length (disk s)"
  by (simp add: geometryD on_disk_def cluster_end)

lemma on_disk_less: "on_disk s c \<longleftrightarrow> c < cluster_count (superblock s)"
  by (simp add: on_disk_def word_less_nat_alt)

lemma unat_cluster_offset:
  assumes "geometry s" and "on_disk s c"
  shows "unat (c * byte_per_cluster (superblock s)) = unat c * sb_bpc s"
proof -
  have "unat c * sb_bpc s < 2 ^ 32"
    using assms disk_offsets [OF assms(1)] cluster_end [of c s] by (auto simp: on_disk_def)
  then show ?thesis by (simp add: unat_word_ariths)
qed

lemma length_cluster_data [simp]:
  "geometry s \<Longrightarrow> on_disk s c \<Longrightarrow> length (cluster_data s c) = sb_bpc s"
  using cluster_inside [of s c] by (auto simp: cluster_data_def)

lemma disjoint_clusters:
  fixes c d :: u32
  assumes "c \<noteq> d"
  shows "unat d * b + b \<le> unat c * b \<or> unat c * b + b \<le> unat d * b"
proof -
  from assms have "unat c \<noteq> unat d" by (simp add: word_unat_eq_iff)
  then have "Suc (unat d) \<le> unat c \<or> Suc (unat c) \<le> unat d" by auto
  then show ?thesis by (metis add.commute mult_Suc mult_le_mono1)
qed

section \<open>What the access functions do on a well-formed disk\<close>

lemma read_entire_cluster_ok:
  assumes "geometry s" and "on_disk s c"
  shows "read_entire_cluster_from_disk s c = Inr (0, cluster_data s c)"
proof -
  have len: "length (cluster_data s c) = sb_bpc s" using assms by simp
  have "\<not> (word_of_int (int (sb_bpc s)) :: u32) < byte_per_cluster (superblock s)"
    by simp
  with len show ?thesis
    using assms by (simp add: read_entire_cluster_from_disk_def read_cluster_from_disk_def
      get_disk_offset_def pread_def on_disk_less cluster_read_status_def cluster_data_def
      unat_cluster_offset Let_def)
qed

lemma read_cluster_start_ok:
  fixes num :: u32
  assumes "geometry s" and "on_disk s c" and "unat num \<le> sb_bpc s"
  shows "read_cluster_from_disk s c 0 num = Inr (0, take (unat num) (cluster_data s c))"
proof -
  have "slice (unat c * sb_bpc s) (unat num) (disk s) = take (unat num) (cluster_data s c)"
    using assms(3) by (simp add: cluster_data_def slice_def min_def)
  moreover have "min (unat num) (length (disk s) - unat c * sb_bpc s) = unat num"
    using cluster_inside [OF assms(1,2)] assms(3) by simp
  ultimately show ?thesis
    using assms by (simp add: read_cluster_from_disk_def get_disk_offset_def pread_def on_disk_less
      cluster_read_status_def unat_cluster_offset Let_def word_le_nat_alt)
qed

lemma pwrite_inside: "off + length bs \<le> length d \<Longrightarrow> pwrite d bs off = splice d off bs"
  by (simp add: pwrite_def splice_def)

lemma write_cluster_ok:
  assumes "geometry s" and "on_disk s c" and "sb_bpc s \<le> length buf"
  shows "write_cluster_to_disk buf c s = Inr (0, put_cluster s c (take (sb_bpc s) buf))"
  using assms cluster_inside [OF assms(1,2)]
  by (simp add: write_cluster_to_disk_def get_disk_offset_def on_disk_less unat_cluster_offset
      put_cluster_def pwrite_inside slice_def)

lemma put_cluster_simps [simp]:
  "superblock (put_cluster s c bs) = superblock s"
  "sb_pad (put_cluster s c bs) = sb_pad s"
  "fat_table (put_cluster s c bs) = fat_table s"
  "heap_tail (put_cluster s c bs) = heap_tail s"
  "clock (put_cluster s c bs) = clock s"
  "on_disk (put_cluster s c bs) = on_disk s"
  by (auto simp: put_cluster_def on_disk_def)

lemma geometry_put_cluster [simp]:
  assumes "geometry s" and "on_disk s c" and "length bs = sb_bpc s"
  shows "geometry (put_cluster s c bs)"
  using assms cluster_inside [OF assms(1,2)] by (simp add: geometry_def put_cluster_def)

section \<open>The clusters as a store\<close>

text \<open>
  The contract between the cluster layer and everything above it: a well-formed state has
  blocks of a fixed length that are read back as written, and a write to one block leaves
  the others alone. The clients' lemmas about lists of blocks (files and directories span
  several clusters) are proved from the contract once.
\<close>

locale block_store =
  fixes get :: "'st \<Rightarrow> 'k \<Rightarrow> 'b list" and put :: "'st \<Rightarrow> 'k \<Rightarrow> 'b list \<Rightarrow> 'st"
    and ok :: "'st \<Rightarrow> bool" and at :: "'st \<Rightarrow> 'k \<Rightarrow> bool" and blen :: "'st \<Rightarrow> nat"
  assumes get_len: "ok s \<Longrightarrow> at s k \<Longrightarrow> length (get s k) = blen s"
    and get_put_same: "ok s \<Longrightarrow> at s k \<Longrightarrow> length b = blen s \<Longrightarrow> get (put s k b) k = b"
    and get_put_other:
      "ok s \<Longrightarrow> at s k \<Longrightarrow> at s k' \<Longrightarrow> length b = blen s \<Longrightarrow> k' \<noteq> k \<Longrightarrow>
       get (put s k b) k' = get s k'"
    and ok_put: "ok s \<Longrightarrow> at s k \<Longrightarrow> length b = blen s \<Longrightarrow> ok (put s k b)"
    and at_put: "at (put s k b) = at s"
    and blen_put: "blen (put s k b) = blen s"
begin

lemma map_get_put_notin:
  assumes "ok s" and "at s k" and "length b = blen s" and "\<forall>c \<in> set cs. at s c"
    and "k \<notin> set cs"
  shows "map (get (put s k b)) cs = map (get s) cs"
  using assms by (auto intro!: get_put_other)

lemma map_get_put_nth:
  assumes "ok s" and "length b = blen s" and "\<forall>c \<in> set cs. at s c"
    and "distinct cs" and "i < length cs"
  shows "map (get (put s (cs ! i) b)) cs = (map (get s) cs)[i := b]"
proof (rule nth_equalityI)
  show "length (map (get (put s (cs ! i) b)) cs) = length ((map (get s) cs)[i := b])" by simp
next
  fix j assume "j < length (map (get (put s (cs ! i) b)) cs)"
  then have j: "j < length cs" by simp
  from assms j have "at s (cs ! i)" "at s (cs ! j)" by auto
  with assms j show "map (get (put s (cs ! i) b)) cs ! j = (map (get s) cs)[i := b] ! j"
    by (cases "i = j") (auto simp: get_put_same get_put_other nth_eq_iff_index_eq)
qed

lemma length_concat_get:
  "ok s \<Longrightarrow> \<forall>c \<in> set cs. at s c \<Longrightarrow> length (concat (map (get s) cs)) = length cs * blen s"
  by (induction cs) (auto simp: get_len)

end

interpretation clusters: block_store cluster_data put_cluster geometry on_disk sb_bpc
proof unfold_locales
  fix s k and b :: "byte list" assume *: "geometry s" "on_disk s k" "length b = sb_bpc s"
  show "cluster_data (put_cluster s k b) k = b"
    using * cluster_inside [OF *(1,2)] slice_splice_same [of "unat k * sb_bpc s" b "disk s"]
    by (simp add: cluster_data_def put_cluster_def)
next
  fix s k k' and b :: "byte list"
  assume *: "geometry s" "on_disk s k" "on_disk s k'" "length b = sb_bpc s" "k' \<noteq> k"
  show "cluster_data (put_cluster s k b) k' = cluster_data s k'"
    using * cluster_inside [OF *(1,2)] cluster_inside [OF *(1,3)] disjoint_clusters [of k k' "sb_bpc s"]
    by (simp add: cluster_data_def put_cluster_def slice_splice_disjoint)
qed (simp_all)

section \<open>Disk and memory in step\<close>

text \<open>
  The superblock and the FAT are kept twice, in memory and on disk. They agree when a new
  mount of the disk would find what is in memory.
\<close>

definition synced :: "fs \<Rightarrow> bool" where
  "synced s \<longleftrightarrow>
     slice 0 512 (disk s) = sb_image s \<and>
     slice (sb_bpc s) (sb_fatlen s * sb_bpc s) (disk s) = fat_table s"

lemma sb_image_put_cluster [simp]: "sb_image (put_cluster s c bs) = sb_image s"
  by (simp add: sb_image_def)

definition data_cluster :: "fs \<Rightarrow> u32 \<Rightarrow> bool" where
  "data_cluster s c \<longleftrightarrow> 1 + sb_fatlen s \<le> unat c \<and> unat c < sb_count s"

lemma data_on_disk [simp]: "data_cluster s c \<Longrightarrow> on_disk s c"
  by (simp add: data_cluster_def on_disk_def)

lemma data_cluster_put_cluster [simp]: "data_cluster (put_cluster s c bs) = data_cluster s"
  by (auto simp: data_cluster_def)

lemma data_cluster_not_0: "data_cluster s c \<Longrightarrow> c \<noteq> 0"
  by (auto simp: data_cluster_def)

lemma synced_put_data:
  assumes "geometry s" and "synced s" and "data_cluster s c" and "length bs = sb_bpc s"
  shows "synced (put_cluster s c bs)"
proof -
  let ?off = "unat c * sb_bpc s"
  have c: "(1 + sb_fatlen s) * sb_bpc s \<le> ?off"
    using assms(3) unfolding data_cluster_def by (intro mult_le_mono1) simp
  have inside: "?off + sb_bpc s \<le> length (disk s)"
    using assms by (intro cluster_inside) auto
  have b: "512 \<le> sb_bpc s" by (rule geometryD(2) [OF assms(1)])
  have "slice 0 512 (splice (disk s) ?off bs) = slice 0 512 (disk s)"
    using c inside b assms(4) by (intro slice_splice_disjoint) auto
  moreover have "slice (sb_bpc s) (sb_fatlen s * sb_bpc s) (splice (disk s) ?off bs) =
      slice (sb_bpc s) (sb_fatlen s * sb_bpc s) (disk s)"
    using c inside assms(4) by (intro slice_splice_disjoint) auto
  ultimately show ?thesis
    using assms(2) by (simp add: synced_def put_cluster_def sb_image_def)
qed

definition set_free_start :: "fs \<Rightarrow> u32 \<Rightarrow> fs" where
  "set_free_start s c = s\<lparr>superblock := (superblock s)\<lparr>free_cluster_start := c\<rparr>\<rparr>"

text \<open>The state after the superblock was written: cluster 0 holds its image.\<close>

definition flush_superblock :: "fs \<Rightarrow> fs" where
  "flush_superblock s =
     put_cluster s 0 (sb_image s @ replicate (sb_bpc s - 512) 0)"

lemma on_disk_0: "geometry s \<Longrightarrow> on_disk s 0"
  using geometryD(5) [of s] by (simp add: on_disk_def)

lemma write_superblock_direct:
  assumes "length (sb_pad s) = 488" and "512 \<le> sb_bpc s"
    and "0 < cluster_count (superblock s)" and "sb_bpc s \<le> length (disk s)"
  shows "write_superblock_to_disk s = Inr (0, flush_superblock s)"
  using assms
  by (simp add: write_superblock_to_disk_def get_new_cluster_def splice_def
      write_cluster_to_disk_def get_disk_offset_def pwrite_def put_cluster_def
      flush_superblock_def slice_def)

lemma length_sb_image_geometry [simp]: "geometry s \<Longrightarrow> length (sb_image s) = 512"
  by (simp add: geometryD(8))

lemma write_superblock_ok:
  assumes "geometry s"
  shows "write_superblock_to_disk s = Inr (0, flush_superblock s)"
proof (rule write_superblock_direct)
  show "sb_bpc s \<le> length (disk s)"
    using cluster_inside [OF assms on_disk_0 [OF assms]] by simp
  show "0 < cluster_count (superblock s)"
    using on_disk_0 [OF assms] by (simp add: on_disk_less)
qed (use assms in \<open>auto simp: geometryD\<close>)

text \<open>Changing the head of the free list, in memory and on disk.\<close>

definition store_free_start :: "fs \<Rightarrow> u32 \<Rightarrow> fs" where
  "store_free_start s c = flush_superblock (set_free_start s c)"

lemma set_free_start_simps [simp]:
  "byte_per_cluster (superblock (set_free_start s c)) = byte_per_cluster (superblock s)"
  "cluster_count (superblock (set_free_start s c)) = cluster_count (superblock s)"
  "cluster_per_fat (superblock (set_free_start s c)) = cluster_per_fat (superblock s)"
  "fat_type (superblock (set_free_start s c)) = fat_type (superblock s)"
  "root_cluster_start (superblock (set_free_start s c)) = root_cluster_start (superblock s)"
  "free_cluster_start (superblock (set_free_start s c)) = c"
  "sb_pad (set_free_start s c) = sb_pad s"
  "fat_table (set_free_start s c) = fat_table s"
  "disk (set_free_start s c) = disk s"
  "heap_tail (set_free_start s c) = heap_tail s"
  "clock (set_free_start s c) = clock s"
  by (simp_all add: set_free_start_def)

lemma set_free_start_preds [simp]:
  "geometry (set_free_start s c) = geometry s"
  "on_disk (set_free_start s c) = on_disk s"
  "data_cluster (set_free_start s c) = data_cluster s"
  by (auto simp: geometry_def on_disk_def data_cluster_def)

lemma flush_superblock_simps [simp]:
  "superblock (flush_superblock s) = superblock s"
  "sb_pad (flush_superblock s) = sb_pad s"
  "fat_table (flush_superblock s) = fat_table s"
  "heap_tail (flush_superblock s) = heap_tail s"
  "clock (flush_superblock s) = clock s"
  "on_disk (flush_superblock s) = on_disk s"
  "data_cluster (flush_superblock s) = data_cluster s"
  by (simp_all add: flush_superblock_def)

lemma flush_block_length:
  "geometry s \<Longrightarrow> length (sb_image s @ replicate (sb_bpc s - 512) 0) = sb_bpc s"
  using geometryD(2) [of s] by simp

lemma geometry_flush [simp]: "geometry s \<Longrightarrow> geometry (flush_superblock s)"
  unfolding flush_superblock_def
  by (rule geometry_put_cluster) (auto simp only: on_disk_0 flush_block_length)

lemma cluster_data_flush:
  assumes "geometry s" and "data_cluster s c"
  shows "cluster_data (flush_superblock s) c = cluster_data s c"
  unfolding flush_superblock_def
  using assms data_cluster_not_0 [OF assms(2)] flush_block_length [OF assms(1)]
  by (intro clusters.get_put_other) (auto simp: on_disk_0)

lemma synced_flush:
  assumes "geometry s"
    and "slice (sb_bpc s) (sb_fatlen s * sb_bpc s) (disk s) = fat_table s"
  shows "synced (flush_superblock s)"
proof -
  let ?b = "sb_image s @ replicate (sb_bpc s - 512) 0"
  have len: "length ?b = sb_bpc s" using assms(1) by (rule flush_block_length)
  have bpc: "512 \<le> sb_bpc s" using assms(1) by (rule geometryD)
  have all: "(1 + sb_fatlen s) * sb_bpc s \<le> length (disk s)"
    unfolding geometryD(10) [OF assms(1)] using geometryD(5) [OF assms(1)]
    by (intro mult_le_mono1) simp
  have "slice 0 512 (splice (disk s) 0 ?b) = slice 0 512 ?b"
    using len bpc all by (subst slice_splice_inside) auto
  also have "\<dots> = sb_image s"
    using assms(1) by (intro slice_0_append) (simp add: geometryD)
  finally have "slice 0 512 (splice (disk s) 0 ?b) = sb_image s" .
  moreover have "slice (sb_bpc s) (sb_fatlen s * sb_bpc s) (splice (disk s) 0 ?b) =
      slice (sb_bpc s) (sb_fatlen s * sb_bpc s) (disk s)"
    using len all by (intro slice_splice_disjoint) auto
  ultimately show ?thesis
    using assms(2) by (simp add: synced_def flush_superblock_def put_cluster_def sb_image_def)
qed

lemma store_free_start_simps [simp]:
  "byte_per_cluster (superblock (store_free_start s c)) = byte_per_cluster (superblock s)"
  "cluster_count (superblock (store_free_start s c)) = cluster_count (superblock s)"
  "cluster_per_fat (superblock (store_free_start s c)) = cluster_per_fat (superblock s)"
  "fat_type (superblock (store_free_start s c)) = fat_type (superblock s)"
  "root_cluster_start (superblock (store_free_start s c)) = root_cluster_start (superblock s)"
  "free_cluster_start (superblock (store_free_start s c)) = c"
  "sb_pad (store_free_start s c) = sb_pad s"
  "fat_table (store_free_start s c) = fat_table s"
  "heap_tail (store_free_start s c) = heap_tail s"
  "clock (store_free_start s c) = clock s"
  "on_disk (store_free_start s c) = on_disk s"
  "data_cluster (store_free_start s c) = data_cluster s"
  by (simp_all add: store_free_start_def)

lemma geometry_store_free_start [simp]: "geometry s \<Longrightarrow> geometry (store_free_start s c)"
  by (simp add: store_free_start_def)

lemma cluster_data_store_free_start [simp]:
  "geometry s \<Longrightarrow> data_cluster s d \<Longrightarrow> cluster_data (store_free_start s c) d = cluster_data s d"
  by (simp add: store_free_start_def cluster_data_flush) (simp add: cluster_data_def)

lemma synced_store_free_start:
  "geometry s \<Longrightarrow> synced s \<Longrightarrow> synced (store_free_start s c)"
  unfolding store_free_start_def by (rule synced_flush) (auto simp: synced_def)

text \<open>What no operation on a mounted disk changes.\<close>

definition same_layout :: "fs \<Rightarrow> fs \<Rightarrow> bool" where
  "same_layout s t \<longleftrightarrow>
     superblock t = (superblock s)\<lparr>free_cluster_start := free_cluster_start (superblock t)\<rparr> \<and>
     sb_pad t = sb_pad s \<and> heap_tail t = heap_tail s \<and> clock t = clock s"

lemma same_layout_iff:
  "same_layout s t \<longleftrightarrow>
     byte_per_cluster (superblock t) = byte_per_cluster (superblock s) \<and>
     cluster_count (superblock t) = cluster_count (superblock s) \<and>
     cluster_per_fat (superblock t) = cluster_per_fat (superblock s) \<and>
     fat_type (superblock t) = fat_type (superblock s) \<and>
     root_cluster_start (superblock t) = root_cluster_start (superblock s) \<and>
     sb_pad t = sb_pad s \<and> heap_tail t = heap_tail s \<and> clock t = clock s"
  by (cases "superblock s"; cases "superblock t") (auto simp: same_layout_def)

lemma same_layoutD:
  assumes "same_layout s t"
  shows "byte_per_cluster (superblock t) = byte_per_cluster (superblock s)"
    and "cluster_count (superblock t) = cluster_count (superblock s)"
    and "cluster_per_fat (superblock t) = cluster_per_fat (superblock s)"
    and "root_cluster_start (superblock t) = root_cluster_start (superblock s)"
    and "heap_tail t = heap_tail s" and "clock t = clock s"
  using assms by (auto simp: same_layout_iff)

lemma same_layout_trans: "same_layout s t \<Longrightarrow> same_layout t u \<Longrightarrow> same_layout s u"
  by (simp add: same_layout_iff)

section \<open>Mounting an existing disk\<close>

lemma init_superblock_reload:
  assumes "geometry s" and "synced s" and "disk t = disk s" and "length (sb_pad t) = 488"
  shows "init_superblock False t =
    Inr (0, t\<lparr>superblock := superblock s, sb_pad := sb_pad s\<rparr>)"
proof -
  have bs: "pread (disk t) sizeof_superblock 0 = sb_image s"
    using assms(2,3) by (simp add: pread_def sizeof_superblock_def synced_def)
  have len: "length (sb_image s) = 512" "length (sb_image t) = 512"
    using assms(1,4) by (auto simp: geometryD)
  then have "splice (sb_image t) 0 (sb_image s) = sb_image s"
    by (simp add: splice_def)
  with bs len show ?thesis
    by (simp add: init_superblock_def Let_def sizeof_superblock_def sb_image_def
        dec_superblock_append)
qed

lemma init_superblock_fresh:
  assumes "length (disk s) = FAT_DISK_SIZE" and "length (sb_pad s) = 488"
  shows "init_superblock True s =
    Inr (0, flush_superblock (s\<lparr>superblock := default_superblock\<rparr>))"
proof -
  have "write_superblock_to_disk (s\<lparr>superblock := default_superblock\<rparr>) =
      Inr (0, flush_superblock (s\<lparr>superblock := default_superblock\<rparr>))"
    using assms by (intro write_superblock_direct)
      (auto simp: default_superblock_def BYTE_PER_CLUSTER_def CLUSTER_COUNT_def FAT_DISK_SIZE_def)
  then show ?thesis by (simp add: init_superblock_def)
qed

end
