(* ===== verification/Fat_Table.thy ===== *)
theory Fat_Table
  imports Fat_Disk
begin

text \<open>
  The file allocation table (\<open>src/FAT/fat.c\<close>, lines 166 to 217): reading and updating an
  entry of the in-memory table, with the write-through of the FAT cluster that holds the
  entry, and the two functions that walk a chain. The table is the byte array the code has;
  an abstract next-pointer function and the chains it links are read off it.

  The loops that follow a chain may run forever on a cyclic table. Their models carry fuel,
  \<open>chain_fuel\<close>, which is one more than the number of clusters an entry can be read for; a
  walk that uses it up visits some cluster twice and so never ends, and the model says
  \<open>Diverges\<close> in exactly that case (\<open>last_loop_diverges\<close>).
\<close>

section \<open>Entries\<close>

definition read_fat_entry :: "fs \<Rightarrow> u32 \<Rightarrow> u32 res" where
  "read_fat_entry s cluster_num =
     (let byte_to_copy = fat_type (superblock s) div 8;
          offset = (cluster_num - 1 - cluster_per_fat (superblock s)) * byte_to_copy
      in if 4 < byte_to_copy then Inl Out_of_bounds
         else bind_res (peek (fat_table s) (unat offset) (unat byte_to_copy)) (\<lambda>bs.
           Inr (un_le32 bs)))"

definition update_fat_entry :: "u32 \<Rightarrow> u32 \<Rightarrow> bool \<Rightarrow> fs \<Rightarrow> (int \<times> fs) res" where
  "update_fat_entry cluster_num v write_to_disk s =
     assert_res (1 + cluster_per_fat (superblock s) \<le> cluster_num \<and>
                 cluster_num < cluster_count (superblock s))
      (let byte_to_copy = fat_type (superblock s) div 8;
           offset = (cluster_num - 1 - cluster_per_fat (superblock s)) * byte_to_copy
       in if 4 < byte_to_copy then Inl Out_of_bounds
          else bind_res (poke (fat_table s) (unat offset) (take (unat byte_to_copy) (le32 v))) (\<lambda>tbl.
            let s = s\<lparr>fat_table := tbl\<rparr> in
            if write_to_disk then
              if byte_per_cluster (superblock s) = 0 then Inl Div_by_zero else
              (let fat_cluster_num = offset div byte_per_cluster (superblock s)
               in write_cluster_to_disk
                    (drop (unat (fat_cluster_num * byte_per_cluster (superblock s))) (fat_table s))
                    (fat_cluster_num + 1) s)
            else Inr (0, s)))"

section \<open>Walks along a chain\<close>

definition chain_fuel :: "fs \<Rightarrow> nat" where
  "chain_fuel s = Suc (length (fat_table s))"

text \<open>The loop \<open>while ((next = read_fat_entry(c)) != END_OF_CHAIN) c = next\<close>.\<close>

fun last_loop :: "nat \<Rightarrow> fs \<Rightarrow> u32 \<Rightarrow> u32 res" where
  "last_loop 0 s c = Inl Diverges"
| "last_loop (Suc n) s c =
     bind_res (read_fat_entry s c) (\<lambda>next_cluster.
       if next_cluster = END_OF_CHAIN then Inr c else last_loop n s next_cluster)"

definition get_last_cluster_in_chain :: "fs \<Rightarrow> u32 \<Rightarrow> u32 res" where
  "get_last_cluster_in_chain s start_cluster =
     (if start_cluster = END_OF_CHAIN then Inr END_OF_CHAIN
      else last_loop (chain_fuel s) s start_cluster)"

fun count_loop :: "nat \<Rightarrow> fs \<Rightarrow> u32 \<Rightarrow> u32 res" where
  "count_loop 0 s c = Inl Diverges"
| "count_loop (Suc n) s c =
     assert_res (root_cluster_start (superblock s) \<le> c \<or> c = 0)
       (if c = END_OF_CHAIN then Inr 0
        else bind_res (read_fat_entry s c) (\<lambda>next_cluster.
          bind_res (count_loop n s next_cluster) (\<lambda>k. Inr (1 + k))))"

definition count_cluster_in_chain :: "fs \<Rightarrow> u32 \<Rightarrow> u32 res" where
  "count_cluster_in_chain s cluster_num = count_loop (chain_fuel s) s cluster_num"

text \<open>The loop \<open>for (i = n; i > 0; i--) c = read_fat_entry(c)\<close> of the file operations.\<close>

fun walk_chain :: "nat \<Rightarrow> fs \<Rightarrow> u32 \<Rightarrow> u32 res" where
  "walk_chain 0 s c = Inr c"
| "walk_chain (Suc i) s c = bind_res (read_fat_entry s c) (\<lambda>c'. walk_chain i s c')"

section \<open>The next-pointer function of a table\<close>

definition fat_index :: "fs \<Rightarrow> u32 \<Rightarrow> nat" where
  "fat_index s c = 4 * (unat c - 1 - sb_fatlen s)"

definition fat_next :: "fs \<Rightarrow> u32 \<Rightarrow> u32" where
  "fat_next s c =
     (if data_cluster s c then un_le32 (slice (fat_index s c) 4 (fat_table s)) else 0)"

definition chain :: "fs \<Rightarrow> u32 \<Rightarrow> u32 list \<Rightarrow> bool" where
  "chain s c cs \<longleftrightarrow> linked (fat_next s) 0 c cs \<and> (\<forall>x \<in> set cs. data_cluster s x)"

definition set_fat :: "fs \<Rightarrow> u32 \<Rightarrow> u32 \<Rightarrow> fs" where
  "set_fat s c v = s\<lparr>fat_table := splice (fat_table s) (fat_index s c) (le32 v)\<rparr>"

text \<open>The update with write-through: the FAT cluster of the entry is copied to disk.\<close>

definition fat_home :: "fs \<Rightarrow> u32 \<Rightarrow> u32" where
  "fat_home s c = word_of_nat (fat_index s c div sb_bpc s) + 1"

definition store_fat :: "fs \<Rightarrow> u32 \<Rightarrow> u32 \<Rightarrow> fs" where
  "store_fat s c v =
     put_cluster (set_fat s c v) (fat_home s c)
       (slice (fat_index s c div sb_bpc s * sb_bpc s) (sb_bpc s) (fat_table (set_fat s c v)))"

lemma fat_index_bound:
  assumes "geometry s" and "data_cluster s c"
  shows "fat_index s c + 4 \<le> length (fat_table s)"
proof -
  have "Suc (unat c - 1 - sb_fatlen s) \<le> sb_count s - 1 - sb_fatlen s"
    using assms(2) by (auto simp: data_cluster_def)
  then have "4 * Suc (unat c - 1 - sb_fatlen s) \<le> 4 * (sb_count s - 1 - sb_fatlen s)"
    by (rule mult_le_mono2)
  also have "\<dots> \<le> sb_fatlen s * sb_bpc s" by (rule geometryD(7) [OF assms(1)])
  finally have "4 * Suc (unat c - 1 - sb_fatlen s) \<le> sb_fatlen s * sb_bpc s" .
  then show ?thesis by (simp add: fat_index_def geometryD(9) [OF assms(1)])
qed

lemma fat_table_small: "geometry s \<Longrightarrow> length (fat_table s) < 2 ^ 32"
proof -
  assume g: "geometry s"
  have "sb_fatlen s * sb_bpc s \<le> sb_count s * sb_bpc s"
    using geometryD(5) [OF g] by (intro mult_le_mono1) simp
  also have "\<dots> < 2 ^ 32" by (rule disk_offsets [OF g])
  finally show ?thesis by (simp add: geometryD(9) [OF g])
qed

lemma fat_offset:
  assumes "geometry s" and "data_cluster s c"
  shows "unat ((c - 1 - cluster_per_fat (superblock s)) * 4) = fat_index s c"
proof -
  have c: "1 + sb_fatlen s \<le> unat c" using assms(2) by (simp add: data_cluster_def)
  then have "1 \<le> c" by (simp add: word_le_nat_alt)
  then have 1: "unat (c - 1) = unat c - 1" by (simp add: unat_sub)
  then have "cluster_per_fat (superblock s) \<le> c - 1" using c by (simp add: word_le_nat_alt)
  then have 2: "unat (c - 1 - cluster_per_fat (superblock s)) = unat c - 1 - sb_fatlen s"
    by (simp add: unat_sub 1)
  have "4 * (unat c - 1 - sb_fatlen s) < 2 ^ 32"
    using fat_index_bound [OF assms] fat_table_small [OF assms(1)] by (simp add: fat_index_def)
  then show ?thesis by (subst unat_word_ariths(2)) (simp add: 2 fat_index_def)
qed

lemma fat_type_bytes: "geometry s \<Longrightarrow> fat_type (superblock s) div 8 = 4"
  by (simp add: geometryD(1))

lemma read_fat_entry_ok:
  assumes "geometry s" and "data_cluster s c"
  shows "read_fat_entry s c = Inr (fat_next s c)"
proof -
  have "peek (fat_table s) (fat_index s c) 4 = Inr (slice (fat_index s c) 4 (fat_table s))"
    using fat_index_bound [OF assms] by simp
  then show ?thesis
    unfolding read_fat_entry_def Let_def fat_type_bytes [OF assms(1)] fat_offset [OF assms]
    using assms(2) by (simp add: fat_next_def)
qed

text \<open>Entries of distinct data clusters do not overlap.\<close>

lemma fat_index_disjoint:
  assumes "data_cluster s c" and "data_cluster s d" and "c \<noteq> d"
  shows "fat_index s c + 4 \<le> fat_index s d \<or> fat_index s d + 4 \<le> fat_index s c"
proof -
  have "unat c \<noteq> unat d" using assms(3) by (simp add: word_unat_eq_iff)
  then show ?thesis using assms(1,2) by (auto simp: fat_index_def data_cluster_def)
qed

lemma set_fat_simps [simp]:
  "superblock (set_fat s c v) = superblock s" "sb_pad (set_fat s c v) = sb_pad s"
  "disk (set_fat s c v) = disk s" "heap_tail (set_fat s c v) = heap_tail s"
  "clock (set_fat s c v) = clock s" "on_disk (set_fat s c v) = on_disk s"
  "data_cluster (set_fat s c v) = data_cluster s" "fat_index (set_fat s c v) = fat_index s"
  "cluster_data (set_fat s c v) = cluster_data s" "sb_image (set_fat s c v) = sb_image s"
  by (auto simp: set_fat_def on_disk_def data_cluster_def fat_index_def cluster_data_def
      sb_image_def fun_eq_iff)

lemma geometry_set_fat [simp]:
  "geometry s \<Longrightarrow> data_cluster s c \<Longrightarrow> geometry (set_fat s c v)"
  using fat_index_bound [of s c] by (simp add: geometry_def set_fat_def)

lemma fat_next_set_fat:
  assumes "geometry s" and "data_cluster s c"
  shows "fat_next (set_fat s c v) = (fat_next s)(c := v)"
proof
  fix d
  note b = fat_index_bound [OF assms]
  show "fat_next (set_fat s c v) d = ((fat_next s)(c := v)) d"
  proof (cases "d = c")
    case True
    then show ?thesis
      using assms(2) u32_codec.stored_read [OF b] by (simp add: fat_next_def) (simp add: set_fat_def)
  next
    case False
    show ?thesis
    proof (cases "data_cluster s d")
      case True
      then have "un_le32 (slice (fat_index s d) 4 (splice (fat_table s) (fat_index s c) (le32 v))) =
          un_le32 (slice (fat_index s d) 4 (fat_table s))"
        using assms b fat_index_bound [OF assms(1) True] fat_index_disjoint [OF assms(2) True] False
        by (intro u32_codec.stored_elsewhere) auto
      with False True show ?thesis by (simp add: fat_next_def) (simp add: set_fat_def)
    next
      case False': False
      with False show ?thesis by (simp add: fat_next_def)
    qed
  qed
qed

lemma fat_next_cong: "superblock t = superblock s \<Longrightarrow> fat_table t = fat_table s \<Longrightarrow> fat_next t = fat_next s"
  by (auto simp: fat_next_def data_cluster_def fat_index_def fun_eq_iff)

lemma fat_next_frame [simp]:
  "fat_next (put_cluster s c bs) = fat_next s"
  "fat_next (store_free_start s c) = fat_next s"
  by (auto simp: fat_next_def fat_index_def fun_eq_iff)

lemma chain_frame [simp]:
  "chain (put_cluster s c bs) = chain s"
  "chain (store_free_start s c) = chain s"
  by (auto simp: chain_def fun_eq_iff)

section \<open>Write-through of an update\<close>

lemma fat_home_less:
  assumes "geometry s" and "data_cluster s c"
  shows "fat_index s c div sb_bpc s < sb_fatlen s"
proof -
  have "0 < sb_bpc s" using geometryD(2) [OF assms(1)] by simp
  moreover have "fat_index s c < sb_fatlen s * sb_bpc s"
    using fat_index_bound [OF assms] by (simp add: geometryD(9) [OF assms(1)])
  ultimately show ?thesis by (simp add: less_mult_imp_div_less)
qed

lemma unat_fat_home:
  assumes "geometry s" and "data_cluster s c"
  shows "unat (fat_home s c) = fat_index s c div sb_bpc s + 1"
proof -
  have "fat_index s c div sb_bpc s + 1 < 2 ^ 32"
    using fat_home_less [OF assms] unat_u32_bound [of "cluster_per_fat (superblock s)"] by simp
  then show ?thesis
    by (simp add: fat_home_def unat_word_ariths unat_of_nat take_bit_eq_mod)
qed

lemma fat_home_on_disk: "geometry s \<Longrightarrow> data_cluster s c \<Longrightarrow> on_disk s (fat_home s c)"
  using unat_fat_home [of s c] fat_home_less [of s c] geometryD(5) [of s]
  by (simp add: on_disk_def)

lemma fat_home_block:
  assumes "geometry s" and "data_cluster s c"
  shows "fat_index s c div sb_bpc s * sb_bpc s + sb_bpc s \<le> length (fat_table s)"
proof -
  have "Suc (fat_index s c div sb_bpc s) * sb_bpc s \<le> sb_fatlen s * sb_bpc s"
    using fat_home_less [OF assms] by (intro mult_le_mono1) simp
  then show ?thesis by (simp add: geometryD(9) [OF assms(1)])
qed

text \<open>The entry lies within one cluster of the table.\<close>

lemma fat_entry_within:
  assumes "geometry s"
  shows "fat_index s c div sb_bpc s * sb_bpc s \<le> fat_index s c"
    and "fat_index s c + 4 \<le> fat_index s c div sb_bpc s * sb_bpc s + sb_bpc s"
proof -
  let ?b = "sb_bpc s" and ?i = "fat_index s c"
  have b: "0 < ?b" "4 dvd ?b" using geometryD(2,3) [OF assms] by auto
  have i: "4 dvd ?i" by (simp add: fat_index_def)
  show "?i div ?b * ?b \<le> ?i" by simp
  have "4 dvd ?i mod ?b" using b i by (simp add: dvd_mod)
  moreover have "?i mod ?b < ?b" using b by simp
  ultimately have "?i mod ?b + 4 \<le> ?b" using b(2) by (auto simp: dvd_def)
  moreover have "?i = ?i div ?b * ?b + ?i mod ?b" by simp
  ultimately show "?i + 4 \<le> ?i div ?b * ?b + ?b" by linarith
qed

lemma update_fat_entry_memory:
  assumes "geometry s" and "data_cluster s c"
  shows "update_fat_entry c v False s = Inr (0, set_fat s c v)"
proof -
  have "1 + cluster_per_fat (superblock s) \<le> c \<and> c < cluster_count (superblock s)"
    using assms(2) geometryD(5) [OF assms(1)] unat_u32_bound [of "cluster_count (superblock s)"]
    by (simp add: data_cluster_def word_le_nat_alt word_less_nat_alt unat_word_ariths)
  then show ?thesis
    unfolding update_fat_entry_def Let_def fat_type_bytes [OF assms(1)] fat_offset [OF assms]
    using fat_index_bound [OF assms] by (simp add: set_fat_def)
qed

lemma update_fat_entry_through:
  assumes "geometry s" and "data_cluster s c"
  shows "update_fat_entry c v True s = Inr (0, store_fat s c v)"
proof -
  define off where "off = (c - 1 - cluster_per_fat (superblock s)) * 4"
  have off: "unat off = fat_index s c" unfolding off_def by (rule fat_offset [OF assms])
  let ?fcn = "off div byte_per_cluster (superblock s)"
  let ?k = "fat_index s c div sb_bpc s"
  have guard: "1 + cluster_per_fat (superblock s) \<le> c \<and> c < cluster_count (superblock s)"
    using assms(2) geometryD(5) [OF assms(1)] unat_u32_bound [of "cluster_count (superblock s)"]
    by (simp add: data_cluster_def word_le_nat_alt word_less_nat_alt unat_word_ariths)
  have fcn: "unat ?fcn = ?k"
    by (simp only: unat_div_distrib off)
  then have home: "?fcn + 1 = fat_home s c"
    unfolding fat_home_def fcn [symmetric] by simp
  have "?k * sb_bpc s < 2 ^ 32"
    using fat_home_block [OF assms] fat_table_small [OF assms(1)] by linarith
  then have base: "unat (?fcn * byte_per_cluster (superblock s)) = ?k * sb_bpc s"
    by (subst unat_word_ariths(2)) (simp add: fcn)
  have pk: "poke (fat_table s) (fat_index s c) (take (unat (4 :: u32)) (le32 v)) =
      Inr (splice (fat_table s) (fat_index s c) (le32 v))"
    using fat_index_bound [OF assms] by simp
  let ?t = "set_fat s c v"
  have t: "s\<lparr>fat_table := splice (fat_table s) (fat_index s c) (le32 v)\<rparr> = ?t"
    by (simp add: set_fat_def)
  have g: "geometry ?t" and h: "on_disk ?t (fat_home s c)"
    using assms fat_home_on_disk [OF assms] by auto
  have len: "?k * sb_bpc s + sb_bpc s \<le> length (fat_table ?t)"
    using fat_home_block [OF assms] geometryD(9) [OF g] geometryD(9) [OF assms(1)] by simp
  have "write_cluster_to_disk (drop (?k * sb_bpc s) (fat_table ?t)) (fat_home s c) ?t =
      Inr (0, put_cluster ?t (fat_home s c) (take (sb_bpc ?t) (drop (?k * sb_bpc s) (fat_table ?t))))"
    using g h len by (intro write_cluster_ok) auto
  then show ?thesis
    unfolding update_fat_entry_def Let_def fat_type_bytes [OF assms(1)] off_def [symmetric] off
    using guard bpc_not_0 [OF assms(1)]
    by (simp only: pk bind_res_Inr t set_fat_simps home base assert_res_True
      store_fat_def slice_def) simp
qed

lemma store_fat_simps [simp]:
  "superblock (store_fat s c v) = superblock s" "sb_pad (store_fat s c v) = sb_pad s"
  "fat_table (store_fat s c v) = fat_table (set_fat s c v)"
  "heap_tail (store_fat s c v) = heap_tail s" "clock (store_fat s c v) = clock s"
  "on_disk (store_fat s c v) = on_disk s" "data_cluster (store_fat s c v) = data_cluster s"
  by (auto simp: store_fat_def)

lemma length_home_block:
  assumes "geometry s" and "data_cluster s c"
  shows "length (slice (fat_index s c div sb_bpc s * sb_bpc s) (sb_bpc s)
    (fat_table (set_fat s c v))) = sb_bpc s"
proof -
  have "length (fat_table (set_fat s c v)) = length (fat_table s)"
    using geometryD(9) [OF geometry_set_fat [OF assms]] geometryD(9) [OF assms(1)] by simp
  then show ?thesis using fat_home_block [OF assms] by simp
qed

lemma geometry_store_fat [simp]:
  assumes "geometry s" and "data_cluster s c"
  shows "geometry (store_fat s c v)"
  unfolding store_fat_def
  using assms length_home_block [OF assms] fat_home_on_disk [OF assms]
  by (intro geometry_put_cluster) auto

lemma fat_next_store_fat:
  assumes "geometry s" and "data_cluster s c"
  shows "fat_next (store_fat s c v) = (fat_next s)(c := v)"
  unfolding store_fat_def by (simp add: fat_next_set_fat [OF assms] del: fun_upd_apply)

lemma cluster_data_store_fat [simp]:
  assumes "geometry s" and "data_cluster s c" and "data_cluster s d"
  shows "cluster_data (store_fat s c v) d = cluster_data s d"
proof -
  have "d \<noteq> fat_home s c"
    using unat_fat_home [OF assms(1,2)] fat_home_less [OF assms(1,2)] assms(3)
    by (auto simp: data_cluster_def)
  then show ?thesis
    unfolding store_fat_def
    using assms length_home_block [OF assms(1,2)] fat_home_on_disk [OF assms(1,2)]
    by (subst clusters.get_put_other) auto
qed

lemma synced_store_fat:
  assumes "geometry s" and "synced s" and "data_cluster s c"
  shows "synced (store_fat s c v)"
proof -
  let ?b = "sb_bpc s" and ?i = "fat_index s c" and ?n = "sb_fatlen s * sb_bpc s"
  let ?k = "?i div ?b" and ?T = "fat_table s" and ?T' = "splice (fat_table s) ?i (le32 v)"
  let ?D' = "splice (disk s) ((?k + 1) * ?b) (slice (?k * ?b) ?b ?T')"
  note home = fat_home_block [OF assms(1,3)] and ib = fat_index_bound [OF assms(1,3)]
  have lenT: "length ?T = ?n" "length ?T' = ?n"
    using geometryD(9) [OF assms(1)] ib by auto
  have blk: "length (slice (?k * ?b) ?b ?T') = ?b" using home lenT by simp
  have "(1 + sb_fatlen s) * ?b \<le> sb_count s * ?b"
    using geometryD(5) [OF assms(1)] by (intro mult_le_mono1) simp
  then have lenD: "?b + ?n \<le> length (disk s)" by (simp add: geometryD(10) [OF assms(1)])
  have kb: "(?k + 1) * ?b + ?b \<le> ?b + ?n" using home lenT by simp
  have b512: "512 \<le> ?b" by (rule geometryD(2) [OF assms(1)])
  have sb: "slice 0 512 ?D' = slice 0 512 (disk s)"
    using blk kb lenD b512 by (intro slice_splice_disjoint) auto
  have "slice ?b ?n ?D' = splice (slice ?b ?n (disk s)) ((?k + 1) * ?b - ?b) (slice (?k * ?b) ?b ?T')"
    using blk kb lenD by (intro slice_splice_within) auto
  also have "\<dots> = splice ?T (?k * ?b) (slice (?k * ?b) ?b ?T')"
    using assms(2) by (simp add: synced_def)
  also have "\<dots> = splice ?T (?k * ?b) (splice (slice (?k * ?b) ?b ?T) (?i - ?k * ?b) (le32 v))"
    using fat_entry_within [OF assms(1), of c] home by (subst slice_splice_within) auto
  also have "\<dots> = ?T'"
    using fat_entry_within [OF assms(1), of c] home by (intro splice_nested) auto
  finally have fat: "slice ?b ?n ?D' = ?T'" .
  have "disk (store_fat s c v) = ?D'"
    using unat_fat_home [OF assms(1,3)] by (simp add: store_fat_def put_cluster_def set_fat_def)
  with sb fat show ?thesis
    using assms(2) by (simp add: synced_def sb_image_def) (simp add: set_fat_def)
qed

section \<open>The table as a store of links\<close>

text \<open>
  The contract of the table: an update changes the successor of one cluster. From it the
  effect on whole chains follows: chains that do not contain the cluster stay, the last
  cluster of a chain can be redirected to the head of a disjoint one, a chain can be cut.
  Both ways to update the table (in memory only, as the formatting does, and with
  write-through) provide it.
\<close>

locale link_table =
  fixes nxt :: "'st \<Rightarrow> 'a \<Rightarrow> 'a" and upd :: "'st \<Rightarrow> 'a \<Rightarrow> 'a \<Rightarrow> 'st"
    and ok :: "'st \<Rightarrow> bool" and node :: "'st \<Rightarrow> 'a \<Rightarrow> bool"
  assumes nxt_upd: "ok s \<Longrightarrow> node s c \<Longrightarrow> nxt (upd s c v) = (nxt s)(c := v)"
    and ok_upd: "ok s \<Longrightarrow> node s c \<Longrightarrow> ok (upd s c v)"
    and node_upd: "node (upd s c v) = node s"
begin

lemma link_frame:
  "ok s \<Longrightarrow> node s u \<Longrightarrow> u \<notin> set cs \<Longrightarrow> linked (nxt (upd s u v)) z c cs = linked (nxt s) z c cs"
  by (simp only: nxt_upd) (rule linked_upd_other)

lemma link_join:
  assumes "ok s" and "linked (nxt s) z c xs" and "xs \<noteq> []" and "linked (nxt s) z d ys"
    and "set xs \<inter> set ys = {}" and "\<forall>x \<in> set xs. node s x"
  shows "linked (nxt (upd s (last xs) d)) z c (xs @ ys)"
  using assms linked_append [OF assms(2-5)] by (simp add: nxt_upd del: fun_upd_apply)

lemma link_cut:
  assumes "ok s" and "linked (nxt s) z c (xs @ ys)" and "xs \<noteq> []" and "\<forall>x \<in> set xs. node s x"
  shows "linked (nxt (upd s (last xs) z)) z c xs"
    and "linked (nxt (upd s (last xs) z)) z (nxt s (last xs)) ys"
proof -
  have n: "nxt (upd s (last xs) z) = (nxt s)(last xs := z)"
    using assms by (intro nxt_upd) auto
  show "linked (nxt (upd s (last xs) z)) z c xs"
    unfolding n using assms(2,3) by (rule linked_cut_front)
  have "last xs \<notin> set ys"
    using linked_distinct [OF assms(2)] assms(3) by (auto simp: disjoint_iff)
  then show "linked (nxt (upd s (last xs) z)) z (nxt s (last xs)) ys"
    unfolding n using linked_cut_back [OF assms(2,3)] by (rule linked_upd_other [THEN iffD2])
qed

end

interpretation mem_links: link_table fat_next set_fat geometry data_cluster
  by unfold_locales (auto simp: fat_next_set_fat fun_eq_iff)

interpretation disk_links: link_table fat_next store_fat geometry data_cluster
  by unfold_locales (auto simp: fat_next_store_fat fun_eq_iff)

section \<open>Chains\<close>

lemma chain_unique: "chain s c xs \<Longrightarrow> chain s c ys \<Longrightarrow> xs = ys"
  by (auto simp: chain_def intro: linked_unique)

lemma chain_distinct: "chain s c cs \<Longrightarrow> distinct cs"
  by (auto simp: chain_def intro: linked_distinct)

lemma chain_nonempty: "chain s c cs \<Longrightarrow> c \<noteq> 0 \<Longrightarrow> cs \<noteq> [] \<and> hd cs = c"
  by (auto simp: chain_def dest: linked_start)

lemma chain_Nil [simp]: "chain s c [] \<longleftrightarrow> c = 0"
  by (simp add: chain_def)

lemma chain_0 [simp]: "chain s 0 cs \<longleftrightarrow> cs = []"
  by (auto simp: chain_def)

lemma chain_Cons:
  "chain s c (x # xs) \<longleftrightarrow> c = x \<and> data_cluster s x \<and> chain s (fat_next s x) xs"
  by (auto simp: chain_def dest: data_cluster_not_0)

lemma chain_data: "chain s c cs \<Longrightarrow> x \<in> set cs \<Longrightarrow> data_cluster s x"
  by (simp add: chain_def)

lemma chain_last: "chain s c cs \<Longrightarrow> c \<noteq> 0 \<Longrightarrow> data_cluster s (last cs)"
  using chain_nonempty chain_data last_in_set by metis

text \<open>The length of a chain is bounded by the table, so the fuel of the walks suffices.\<close>

lemma chain_length:
  assumes "geometry s" and "chain s c cs"
  shows "length cs \<le> sb_count s" and "length cs < chain_fuel s"
proof -
  let ?f = "\<lambda>x. unat x - 1 - sb_fatlen s"
  have inj: "inj_on ?f (set cs)"
  proof (rule inj_onI)
    fix x y assume "x \<in> set cs" "y \<in> set cs" "?f x = ?f y"
    moreover from this have "data_cluster s x" "data_cluster s y"
      using chain_data [OF assms(2)] by auto
    then have "1 + sb_fatlen s \<le> unat x" "1 + sb_fatlen s \<le> unat y"
      by (simp_all add: data_cluster_def)
    ultimately have "unat x = unat y" by linarith
    then show "x = y" by (simp add: word_unat_eq_iff)
  qed
  have sub: "?f ` set cs \<subseteq> {..< sb_count s - 1 - sb_fatlen s}"
    using assms(2) by (auto simp: chain_def data_cluster_def dest!: bspec)
  have "length cs = card (set cs)"
    using chain_distinct [OF assms(2)] by (simp add: distinct_card)
  also have "\<dots> = card (?f ` set cs)" using inj by (simp add: card_image)
  also have "\<dots> \<le> sb_count s - 1 - sb_fatlen s"
    using card_mono [OF _ sub] by simp
  finally have len: "length cs \<le> sb_count s - 1 - sb_fatlen s" .
  then show "length cs \<le> sb_count s" by simp
  have "4 * length cs \<le> length (fat_table s)"
    using len geometryD(7) [OF assms(1)] geometryD(9) [OF assms(1)] by linarith
  then show "length cs < chain_fuel s" by (simp add: chain_fuel_def)
qed

section \<open>The walks on a well-formed chain\<close>

lemma last_loop_ok:
  assumes "geometry s" and "chain s c cs" and "c \<noteq> 0" and "length cs \<le> n"
  shows "last_loop n s c = Inr (last cs)"
  using assms(2-4)
proof (induction n arbitrary: c cs)
  case 0
  then show ?case using chain_nonempty by fastforce
next
  case (Suc n)
  then obtain xs where cs: "cs = c # xs" using chain_nonempty by (metis list.collapse)
  with Suc.prems have c: "data_cluster s c" and xs: "chain s (fat_next s c) xs"
    by (auto simp: chain_Cons)
  have rd: "read_fat_entry s c = Inr (fat_next s c)"
    using assms(1) c by (rule read_fat_entry_ok)
  show ?case
  proof (cases "fat_next s c = 0")
    case True
    with xs cs rd show ?thesis by (simp add: END_OF_CHAIN_def)
  next
    case False
    then have "xs \<noteq> []" using xs by auto
    with False Suc.IH [OF xs False] Suc.prems(3) cs rd show ?thesis
      by (simp add: END_OF_CHAIN_def)
  qed
qed

lemma get_last_cluster_ok:
  assumes "geometry s" and "chain s c cs" and "c \<noteq> 0"
  shows "get_last_cluster_in_chain s c = Inr (last cs)"
  using assms chain_length(2) [OF assms(1,2)]
  by (simp add: get_last_cluster_in_chain_def END_OF_CHAIN_def last_loop_ok)

lemma last_loop_fuel_ok:
  "geometry s \<Longrightarrow> chain s c cs \<Longrightarrow> c \<noteq> 0 \<Longrightarrow> last_loop (chain_fuel s) s c = Inr (last cs)"
  using chain_length(2) [of s c cs] by (intro last_loop_ok) auto

lemma root_le_data: "geometry s \<Longrightarrow> data_cluster s c \<Longrightarrow> root_cluster_start (superblock s) \<le> c"
  by (simp add: geometryD(4) data_cluster_def word_le_nat_alt)

lemma count_loop_ok:
  assumes "geometry s" and "chain s c cs" and "length cs < n"
  shows "count_loop n s c = Inr (word_of_nat (length cs))"
  using assms(2,3)
proof (induction n arbitrary: c cs)
  case 0
  then show ?case by simp
next
  case (Suc n)
  show ?case
  proof (cases "c = 0")
    case True
    with Suc.prems show ?thesis by (simp add: END_OF_CHAIN_def)
  next
    case False
    then obtain xs where cs: "cs = c # xs" using chain_nonempty Suc.prems by (metis list.collapse)
    with Suc.prems have c: "data_cluster s c" and xs: "chain s (fat_next s c) xs"
      by (auto simp: chain_Cons)
    with Suc cs False show ?thesis
      using read_fat_entry_ok [OF assms(1) c] root_le_data [OF assms(1) c]
      by (simp add: END_OF_CHAIN_def)
  qed
qed

lemma count_cluster_ok:
  assumes "geometry s" and "chain s c cs"
  shows "count_cluster_in_chain s c = Inr (word_of_nat (length cs))"
  unfolding count_cluster_in_chain_def
  by (intro count_loop_ok assms chain_length(2) [OF assms])

lemma unat_count:
  assumes "geometry s" and "chain s c cs"
  shows "unat (word_of_nat (length cs) :: u32) = length cs"
  using chain_length(1) [OF assms] unat_u32_bound [of "cluster_count (superblock s)"]
  by (simp add: unat_of_nat take_bit_eq_mod)

lemma walk_chain_ok:
  assumes "geometry s" and "chain s c cs" and "i < length cs"
  shows "walk_chain i s c = Inr (cs ! i)"
  using assms(2,3)
proof (induction i arbitrary: c cs)
  case 0
  then show ?case by (cases cs) (auto simp: chain_Cons)
next
  case (Suc i)
  then obtain xs where cs: "cs = c # xs" by (cases cs) (auto simp: chain_Cons)
  with Suc have "data_cluster s c" "chain s (fat_next s c) xs" "i < length xs"
    by (auto simp: chain_Cons)
  with Suc.IH [of "fat_next s c" xs] cs show ?case
    using read_fat_entry_ok [OF assms(1)] by simp
qed

lemma chain_next_nth:
  assumes "geometry s" and "chain s c cs" and "Suc i < length cs"
  shows "read_fat_entry s (cs ! i) = Inr (cs ! Suc i)"
proof -
  have "data_cluster s (cs ! i)" using assms by (intro chain_data [OF assms(2)]) simp
  moreover have "linked (fat_next s) 0 c cs" using assms(2) by (simp add: chain_def)
  then have "fat_next s (cs ! i) = cs ! Suc i"
    using linked_nth [of "fat_next s" 0 c cs i] linked_nth [of "fat_next s" 0 c cs "Suc i"] assms(3)
    by simp
  ultimately show ?thesis using assms(1) by (simp add: read_fat_entry_ok)
qed

section \<open>The fuel is exact\<close>

definition readable :: "fs \<Rightarrow> u32 set" where
  "readable s = {c. \<exists>d. read_fat_entry s c = Inr d}"

lemma unat_times_4: "unat ((x :: u32) * 4) = 4 * (unat x mod 2 ^ 30)"
  by (subst unat_word_ariths(2)) (simp add: mult_mod_right mult.commute)

lemma four_digits: "4 * (a :: nat) + b = 4 * a' + b' \<Longrightarrow> b < 4 \<Longrightarrow> b' < 4 \<Longrightarrow> a = a' \<and> b = b'"
  by presburger

text \<open>At most as many clusters can be read as the table has bytes.\<close>

lemma card_readable:
  assumes "geometry s"
  shows "finite (readable s)" and "card (readable s) \<le> length (fat_table s)"
proof -
  let ?x = "\<lambda>c. c - 1 - cluster_per_fat (superblock s)"
  let ?g = "\<lambda>c. 4 * (unat (?x c) mod 2 ^ 30) + unat (?x c) div 2 ^ 30"
  have q: "unat (?x c) div 2 ^ 30 < 4" for c
    using unat_u32_bound [of "?x c"] by (simp add: less_mult_imp_div_less)
  have sub: "?g ` readable s \<subseteq> {..< length (fat_table s)}"
  proof (intro subsetI, elim imageE)
    fix y c assume y: "y = ?g c" and "c \<in> readable s"
    then obtain d where "read_fat_entry s c = Inr d" by (auto simp: readable_def)
    then have "unat (?x c * 4) + 4 \<le> length (fat_table s)"
      unfolding read_fat_entry_def Let_def fat_type_bytes [OF assms]
      by (simp add: bind_res_eq_Inr peek_def split: if_splits del: left_diff_distrib_numeral)
    then have "4 * (unat (?x c) mod 2 ^ 30) + 4 \<le> length (fat_table s)"
      by (simp only: unat_times_4)
    with q [of c] y show "y \<in> {..< length (fat_table s)}" by simp
  qed
  have inj: "inj_on ?g (readable s)"
  proof (rule inj_onI)
    fix c d assume "?g c = ?g d"
    from four_digits [OF this q q]
    have "unat (?x c) = unat (?x d)" by (metis div_mod_decomp)
    then have "?x c = ?x d" by (simp only: word_unat_eq_iff)
    then show "c = d" by simp
  qed
  show "finite (readable s)" using inj finite_subset [OF sub] by (simp add: finite_image_iff)
  show "card (readable s) \<le> length (fat_table s)"
    using card_mono [OF _ sub] card_image [OF inj] by simp
qed

lemma walk_chain_add:
  "walk_chain (a + b) s c = bind_res (walk_chain a s c) (walk_chain b s)"
  by (induction a arbitrary: c) (auto simp: bind_res_assoc intro!: arg_cong2 [where f = bind_res])

lemma walk_chain_Suc_right:
  "walk_chain (Suc n) s c = bind_res (walk_chain n s c) (read_fat_entry s)"
proof -
  have "walk_chain 1 s = read_fat_entry s"
    by (auto simp: fun_eq_iff bind_res_def split: sum.splits)
  then show ?thesis using walk_chain_add [of n 1 s c] by simp
qed

definition runs_on :: "fs \<Rightarrow> u32 \<Rightarrow> nat \<Rightarrow> bool" where
  "runs_on s c n \<longleftrightarrow> (\<exists>d. walk_chain (Suc n) s c = Inr d \<and> d \<noteq> 0)"

lemma last_loop_out_of_fuel:
  "last_loop n s c = Inl Diverges \<longleftrightarrow> (\<forall>k < n. runs_on s c k)"
proof (induction n arbitrary: c)
  case 0
  then show ?case by simp
next
  case (Suc n)
  show ?case
  proof (cases "read_fat_entry s c")
    case (Inl e)
    then have "\<not> runs_on s c 0" by (simp add: runs_on_def)
    moreover from Inl have "e \<noteq> Diverges"
      by (auto simp: read_fat_entry_def Let_def peek_def bind_res_def split: if_splits sum.splits)
    ultimately show ?thesis using Inl by auto
  next
    case (Inr d)
    then have "runs_on s c (Suc k) = runs_on s d k" for k by (simp add: runs_on_def)
    moreover have "runs_on s c 0 = (d \<noteq> 0)" using Inr by (simp add: runs_on_def)
    ultimately have "(\<forall>k < Suc n. runs_on s c k) = (d \<noteq> 0 \<and> (\<forall>k < n. runs_on s d k))"
      by (simp add: All_less_Suc2)
    with Inr Suc show ?thesis by (simp add: END_OF_CHAIN_def)
  qed
qed

lemma walk_repeats:
  assumes "walk_chain i s c = walk_chain j s c" and "i < j" and "\<forall>k < j. runs_on s c k"
  shows "runs_on s c n"
proof (induction n rule: less_induct)
  case (less n)
  show ?case
  proof (cases "n < j")
    case True
    with assms(3) show ?thesis by simp
  next
    case False
    define m where "m = Suc n - j"
    have n: "Suc n = j + m" and n': "Suc (i + m - 1) = i + m" and "i + m - 1 < n"
      using False assms(2) by (auto simp: m_def)
    have "walk_chain (Suc n) s c = walk_chain (Suc (i + m - 1)) s c"
      unfolding n n' walk_chain_add using assms(1) by simp
    with less [OF \<open>i + m - 1 < n\<close>] show ?thesis by (simp add: runs_on_def)
  qed
qed

lemma last_loop_diverges:
  assumes "geometry s"
  shows "last_loop (chain_fuel s) s c = Inl Diverges \<longleftrightarrow> (\<forall>n. runs_on s c n)"
proof
  assume "\<forall>n. runs_on s c n"
  then show "last_loop (chain_fuel s) s c = Inl Diverges" by (simp add: last_loop_out_of_fuel)
next
  assume "last_loop (chain_fuel s) s c = Inl Diverges"
  then have run: "\<forall>k < chain_fuel s. runs_on s c k" by (simp only: last_loop_out_of_fuel)
  define w where "w = (\<lambda>k. projr (walk_chain k s c))"
  have w: "walk_chain k s c = Inr (w k) \<and> w k \<in> readable s" if "k < chain_fuel s" for k
  proof -
    from run that obtain d where "walk_chain (Suc k) s c = Inr d" by (auto simp: runs_on_def)
    then obtain e where "walk_chain k s c = Inr e" "read_fat_entry s e = Inr d"
      by (auto simp: walk_chain_Suc_right bind_res_eq_Inr simp del: walk_chain.simps)
    then show ?thesis by (auto simp: w_def readable_def)
  qed
  have "\<not> inj_on w {..< chain_fuel s}"
  proof
    assume "inj_on w {..< chain_fuel s}"
    then have "chain_fuel s = card (w ` {..< chain_fuel s})" by (simp add: card_image)
    also have "\<dots> \<le> card (readable s)"
      using w card_readable(1) [OF assms] by (intro card_mono) auto
    also have "\<dots> \<le> length (fat_table s)" by (rule card_readable(2) [OF assms])
    finally show False by (simp add: chain_fuel_def)
  qed
  then obtain i j where "i < j" "j < chain_fuel s" "w i = w j"
    by (auto simp: inj_on_def) (metis linorder_neqE_nat)
  with w have "walk_chain i s c = walk_chain j s c" by simp
  with \<open>i < j\<close> run \<open>j < chain_fuel s\<close> show "\<forall>n. runs_on s c n"
    by (meson less_trans walk_repeats)
qed

end
