(* ===== verification/Fat_Alloc.thy ===== *)
theory Fat_Alloc
  imports Fat_Table "HOL-Library.Multiset"
begin

text \<open>
  The free list and the allocator (\<open>src/FAT/fat.c\<close>, lines 219 to 292). Free clusters form a
  chain of the table that starts at \<open>free_cluster_start\<close> of the superblock; clusters are
  taken from its front and given back to its front.
\<close>

section \<open>The functions\<close>

definition has_free_cluster :: "fs \<Rightarrow> bool" where
  "has_free_cluster s \<longleftrightarrow>
     root_cluster_start (superblock s) < free_cluster_start (superblock s)"

text \<open>The loop \<open>while (--length > 0 && last_cluster != END_OF_CHAIN)\<close>, entered with a positive length.\<close>

fun pop_walk :: "nat \<Rightarrow> fs \<Rightarrow> u32 \<Rightarrow> (nat \<times> u32) res" where
  "pop_walk 0 s last_cluster = Inr (0, last_cluster)"
| "pop_walk (Suc len) s last_cluster =
     (if 0 < len \<and> last_cluster \<noteq> END_OF_CHAIN
      then bind_res (read_fat_entry s last_cluster) (\<lambda>c. pop_walk len s c)
      else Inr (len, last_cluster))"

text \<open>The \<open>do ... while\<close> loop that zeroes the clusters of a chain.\<close>

fun zero_loop :: "nat \<Rightarrow> u32 \<Rightarrow> fs \<Rightarrow> fs res" where
  "zero_loop 0 c s = Inl Diverges"
| "zero_loop (Suc n) c s =
     bind_res (write_cluster_to_disk (get_new_cluster s) c s) (\<lambda>(_, s).
     bind_res (read_fat_entry s c) (\<lambda>next_cluster.
       if next_cluster = END_OF_CHAIN then Inr s else zero_loop n next_cluster s))"

definition pop_free_clusters :: "u32 \<Rightarrow> fs \<Rightarrow> (u32 \<times> fs) res" where
  "pop_free_clusters len s =
     assert_res (0 < len)
      (let first_cluster = free_cluster_start (superblock s) in
       bind_res (pop_walk (unat len) s first_cluster) (\<lambda>(len, last_cluster).
         if 0 < len then Inr (END_OF_CHAIN, s)
         else
           bind_res (read_fat_entry s last_cluster) (\<lambda>new_head.
           bind_res (write_superblock_to_disk (set_free_start s new_head)) (\<lambda>(_, s).
           bind_res (update_fat_entry last_cluster END_OF_CHAIN True s) (\<lambda>(_, s).
           bind_res (zero_loop (chain_fuel s) first_cluster s) (\<lambda>s.
             Inr (first_cluster, s)))))))"

definition add_free_cluster :: "u32 \<Rightarrow> fs \<Rightarrow> (u32 \<times> fs) res" where
  "add_free_cluster cluster_num s =
     bind_res (pop_free_clusters 1 s) (\<lambda>(free_cluster, s).
     bind_res (last_loop (chain_fuel s) s cluster_num) (\<lambda>cluster_num.
     bind_res (update_fat_entry cluster_num free_cluster True s) (\<lambda>(_, s).
       Inr (free_cluster, s))))"

definition free_cluster_chain :: "u32 \<Rightarrow> fs \<Rightarrow> fs res" where
  "free_cluster_chain start_cluster_num s =
     bind_res (last_loop (chain_fuel s) s start_cluster_num) (\<lambda>end_cluster_num.
     bind_res (update_fat_entry end_cluster_num (free_cluster_start (superblock s)) True s) (\<lambda>(_, s).
     bind_res (write_superblock_to_disk (set_free_start s start_cluster_num)) (\<lambda>(_, s).
       Inr s)))"

section \<open>The free list\<close>

definition free_list :: "fs \<Rightarrow> u32 list \<Rightarrow> bool" where
  "free_list s fl \<longleftrightarrow> chain s (free_cluster_start (superblock s)) fl"

lemma free_list_unique: "free_list s xs \<Longrightarrow> free_list s ys \<Longrightarrow> xs = ys"
  unfolding free_list_def by (rule chain_unique)

text \<open>Every cluster of the free list lies above the root cluster, so the test is exact.\<close>

lemma has_free_cluster_iff:
  assumes "geometry s" and "free_list s fl"
    and "root_cluster_start (superblock s) \<notin> set fl"
  shows "has_free_cluster s \<longleftrightarrow> fl \<noteq> []"
proof (cases fl)
  case Nil
  with assms(2) show ?thesis by (simp add: has_free_cluster_def free_list_def)
next
  case (Cons x xs)
  with assms(2) have x: "free_cluster_start (superblock s) = x" "data_cluster s x"
    by (auto simp: free_list_def chain_Cons)
  with assms(1,3) Cons have "root_cluster_start (superblock s) < x"
    using root_le_data [OF assms(1) x(2)] by (simp add: order_neq_le_trans)
  with x Cons show ?thesis by (simp add: has_free_cluster_def)
qed

subsection \<open>Finding the last cluster to take\<close>

lemma pop_walk_enough:
  assumes "geometry s" and "chain s c cs" and "0 < n" and "n \<le> length cs"
  shows "pop_walk n s c = Inr (0, cs ! (n - 1))"
  using assms(2-4)
proof (induction n arbitrary: c cs)
  case 0
  then show ?case by simp
next
  case (Suc n)
  then obtain xs where cs: "cs = c # xs" by (cases cs) (auto simp: chain_Cons)
  with Suc.prems have c: "data_cluster s c" "chain s (fat_next s c) xs" by (auto simp: chain_Cons)
  show ?case
  proof (cases "n = 0")
    case True
    with cs show ?thesis by simp
  next
    case False
    with Suc cs c have "pop_walk n s (fat_next s c) = Inr (0, xs ! (n - 1))" by auto
    with False c cs show ?thesis
      using read_fat_entry_ok [OF assms(1) c(1)] data_cluster_not_0 [OF c(1)]
      by (simp add: END_OF_CHAIN_def nth_Cons')
  qed
qed

lemma pop_walk_short:
  assumes "geometry s" and "chain s c cs" and "length cs < n"
  shows "pop_walk n s c = Inr (n - length cs - 1, 0)"
  using assms(2,3)
proof (induction n arbitrary: c cs)
  case 0
  then show ?case by simp
next
  case (Suc n)
  show ?case
  proof (cases "c = 0")
    case True
    with Suc.prems show ?thesis by (simp add: END_OF_CHAIN_def)
  next
    case False
    then obtain xs where cs: "cs = c # xs" using chain_nonempty Suc.prems by (metis list.collapse)
    with Suc.prems have c: "data_cluster s c" "chain s (fat_next s c) xs" "0 < n"
      by (auto simp: chain_Cons)
    with Suc cs False show ?thesis
      using read_fat_entry_ok [OF assms(1) c(1)] by (simp add: END_OF_CHAIN_def)
  qed
qed

subsection \<open>Zeroing a chain\<close>

definition zero_clusters :: "u32 list \<Rightarrow> fs \<Rightarrow> fs" where
  "zero_clusters cs s = foldl (\<lambda>s c. put_cluster s c (get_new_cluster s)) s cs"

lemma zero_clusters_simps [simp]:
  "superblock (zero_clusters cs s) = superblock s" "sb_pad (zero_clusters cs s) = sb_pad s"
  "fat_table (zero_clusters cs s) = fat_table s" "heap_tail (zero_clusters cs s) = heap_tail s"
  "clock (zero_clusters cs s) = clock s" "on_disk (zero_clusters cs s) = on_disk s"
  "data_cluster (zero_clusters cs s) = data_cluster s" "fat_next (zero_clusters cs s) = fat_next s"
  "chain (zero_clusters cs s) = chain s"
  unfolding zero_clusters_def by (induction cs arbitrary: s) auto

lemma zero_clusters_Nil [simp]: "zero_clusters [] s = s"
  by (simp add: zero_clusters_def)

lemma zero_clusters_Cons:
  "zero_clusters (c # cs) s = zero_clusters cs (put_cluster s c (get_new_cluster s))"
  by (simp add: zero_clusters_def)

lemma length_new_cluster [simp]: "length (get_new_cluster s) = sb_bpc s"
  by (simp add: get_new_cluster_def)

lemma new_cluster_cong:
  "byte_per_cluster (superblock t) = byte_per_cluster (superblock s) \<Longrightarrow> get_new_cluster t = get_new_cluster s"
  by (simp add: get_new_cluster_def)

lemma geometry_zero_clusters [simp]:
  "geometry s \<Longrightarrow> \<forall>c \<in> set cs. data_cluster s c \<Longrightarrow> geometry (zero_clusters cs s)"
  by (induction cs arbitrary: s) (auto simp: zero_clusters_Cons)

lemma synced_zero_clusters:
  "geometry s \<Longrightarrow> synced s \<Longrightarrow> \<forall>c \<in> set cs. data_cluster s c \<Longrightarrow> synced (zero_clusters cs s)"
  by (induction cs arbitrary: s) (auto simp: zero_clusters_Cons synced_put_data)

lemma cluster_data_zero_clusters:
  assumes "geometry s" and "\<forall>c \<in> set cs. data_cluster s c" and "data_cluster s d"
  shows "cluster_data (zero_clusters cs s) d =
    (if d \<in> set cs then get_new_cluster s else cluster_data s d)"
  using assms
proof (induction cs arbitrary: s)
  case Nil
  then show ?case by simp
next
  case (Cons c cs)
  let ?t = "put_cluster s c (get_new_cluster s)"
  have "cluster_data ?t d = (if d = c then get_new_cluster s else cluster_data s d)"
    using Cons.prems by (simp add: clusters.get_put_same clusters.get_put_other)
  moreover have "get_new_cluster ?t = get_new_cluster s" by (rule new_cluster_cong) simp
  moreover have "cluster_data (zero_clusters cs ?t) d =
      (if d \<in> set cs then get_new_cluster ?t else cluster_data ?t d)"
    using Cons.prems by (intro Cons.IH) auto
  ultimately show ?case by (cases "d = c") (simp_all add: zero_clusters_Cons)
qed

lemma zero_loop_ok:
  assumes "geometry s" and "chain s c cs" and "c \<noteq> 0" and "length cs \<le> n"
  shows "zero_loop n c s = Inr (zero_clusters cs s)"
  using assms
proof (induction n arbitrary: c cs s)
  case 0
  then show ?case using chain_nonempty by fastforce
next
  case (Suc n)
  then obtain xs where cs: "cs = c # xs" using chain_nonempty by (metis list.collapse)
  with Suc.prems have c: "data_cluster s c" and xs: "chain s (fat_next s c) xs"
    by (auto simp: chain_Cons)
  let ?t = "put_cluster s c (get_new_cluster s)"
  have w: "write_cluster_to_disk (get_new_cluster s) c s = Inr (0, ?t)"
    using Suc.prems(1) c by (simp add: write_cluster_ok)
  have g: "geometry ?t" using Suc.prems(1) c by simp
  have rd: "read_fat_entry ?t c = Inr (fat_next s c)"
    using read_fat_entry_ok [OF g] c by simp
  show ?case
  proof (cases "fat_next s c = 0")
    case True
    with xs cs rd w show ?thesis by (simp add: END_OF_CHAIN_def zero_clusters_Cons)
  next
    case False
    have "zero_loop n (fat_next s c) ?t = Inr (zero_clusters xs ?t)"
      using g xs False Suc.prems cs by (intro Suc.IH) auto
    with False rd w cs show ?thesis by (simp add: END_OF_CHAIN_def zero_clusters_Cons)
  qed
qed

section \<open>Taking clusters from the free list\<close>

text \<open>The state after \<open>n\<close> clusters were taken from the free list \<open>fl\<close>.\<close>

definition popped :: "fs \<Rightarrow> u32 list \<Rightarrow> nat \<Rightarrow> fs" where
  "popped s fl n =
     zero_clusters (take n fl)
       (store_fat (store_free_start s (fat_next s (fl ! (n - 1)))) (fl ! (n - 1)) 0)"

lemma last_take: "0 < n \<Longrightarrow> n \<le> length xs \<Longrightarrow> last (take n xs) = xs ! (n - 1)"
  by (subst last_conv_nth) (auto simp: min_def)

lemma popped_simps [simp]:
  "byte_per_cluster (superblock (popped s fl n)) = byte_per_cluster (superblock s)"
  "cluster_count (superblock (popped s fl n)) = cluster_count (superblock s)"
  "cluster_per_fat (superblock (popped s fl n)) = cluster_per_fat (superblock s)"
  "fat_type (superblock (popped s fl n)) = fat_type (superblock s)"
  "root_cluster_start (superblock (popped s fl n)) = root_cluster_start (superblock s)"
  "free_cluster_start (superblock (popped s fl n)) = fat_next s (fl ! (n - 1))"
  "sb_pad (popped s fl n) = sb_pad s" "heap_tail (popped s fl n) = heap_tail s"
  "clock (popped s fl n) = clock s" "data_cluster (popped s fl n) = data_cluster s"
  "on_disk (popped s fl n) = on_disk s"
  by (simp_all add: popped_def)

lemma free_list_nth_data:
  "free_list s fl \<Longrightarrow> 0 < n \<Longrightarrow> n \<le> length fl \<Longrightarrow> data_cluster s (fl ! (n - 1))"
  unfolding free_list_def by (rule chain_data) auto

lemma free_list_take_data: "free_list s fl \<Longrightarrow> \<forall>c \<in> set (take n fl). data_cluster s c"
  unfolding free_list_def by (meson chain_data in_set_takeD)

lemma popped_geometry:
  assumes "geometry s" and "free_list s fl" and "0 < n" and "n \<le> length fl"
  shows "geometry (popped s fl n)"
  unfolding popped_def
  using assms free_list_nth_data [OF assms(2-4)] free_list_take_data [OF assms(2)]
  by (intro geometry_zero_clusters) auto

lemma popped_synced:
  assumes "geometry s" and "synced s" and "free_list s fl" and "0 < n" and "n \<le> length fl"
  shows "synced (popped s fl n)"
  unfolding popped_def
  using assms free_list_nth_data [OF assms(3-5)] free_list_take_data [OF assms(3)]
  by (intro synced_zero_clusters synced_store_fat synced_store_free_start geometry_store_fat) auto

lemma popped_fat_next:
  assumes "geometry s" and "free_list s fl" and "0 < n" and "n \<le> length fl"
  shows "fat_next (popped s fl n) = (fat_next s)(fl ! (n - 1) := 0)"
  unfolding popped_def
  using assms free_list_nth_data [OF assms(2-4)] by (simp add: fat_next_store_fat del: fun_upd_apply)

lemma popped_data:
  assumes "geometry s" and "free_list s fl" and "0 < n" and "n \<le> length fl" and "data_cluster s d"
  shows "cluster_data (popped s fl n) d =
    (if d \<in> set (take n fl) then get_new_cluster s else cluster_data s d)"
proof -
  note nth = free_list_nth_data [OF assms(2-4)] and tk = free_list_take_data [OF assms(2), of n]
  let ?t = "store_fat (store_free_start s (fat_next s (fl ! (n - 1)))) (fl ! (n - 1)) 0"
  have "geometry ?t" using assms(1) nth by simp
  then have "cluster_data (popped s fl n) d =
      (if d \<in> set (take n fl) then get_new_cluster ?t else cluster_data ?t d)"
    unfolding popped_def using tk assms(5) by (intro cluster_data_zero_clusters) auto
  moreover have "get_new_cluster ?t = get_new_cluster s" by (rule new_cluster_cong) simp
  moreover have "cluster_data ?t d = cluster_data s d" using assms(1,5) nth by simp
  ultimately show ?thesis by simp
qed

text \<open>The clusters taken form a chain of their own; the rest of the free list stays.\<close>

lemma popped_chains:
  assumes "geometry s" and "free_list s fl" and "0 < n" and "n \<le> length fl"
  shows "chain (popped s fl n) (hd fl) (take n fl)" and "free_list (popped s fl n) (drop n fl)"
proof -
  let ?xs = "take n fl" and ?ys = "drop n fl"
  have xs: "?xs \<noteq> []" "last ?xs = fl ! (n - 1)" using assms(3,4) by (auto simp: last_take)
  have lk: "linked (fat_next s) 0 (free_cluster_start (superblock s)) (?xs @ ?ys)"
    and dat: "\<forall>x \<in> set fl. data_cluster s x"
    using assms(2) by (auto simp: free_list_def chain_def)
  have hd: "free_cluster_start (superblock s) = hd fl"
    using lk xs(1) by (cases fl) auto
  have dx: "\<forall>x \<in> set ?xs. data_cluster s x" using dat by (meson in_set_takeD)
  note cut = disk_links.link_cut [OF assms(1) lk xs(1) dx]
  have n: "fat_next (popped s fl n) = fat_next (store_fat s (last ?xs) 0)"
    unfolding popped_fat_next [OF assms] xs(2) [symmetric]
    using fat_next_store_fat [OF assms(1)] dx xs(1) by simp
  show "chain (popped s fl n) (hd fl) (take n fl)"
    unfolding chain_def n using cut(1) hd dx by simp
  show "free_list (popped s fl n) (drop n fl)"
    unfolding free_list_def chain_def n using cut(2) xs(2) dat by (auto dest: in_set_dropD)
qed

text \<open>Chains that hold no cluster of the free list are not touched.\<close>

lemma popped_other_chain:
  assumes "geometry s" and "free_list s fl" and "0 < n" and "n \<le> length fl"
    and "chain s c cs" and "set cs \<inter> set fl = {}"
  shows "chain (popped s fl n) c cs"
proof -
  have "fl ! (n - 1) \<notin> set cs" using assms(3,4,6) by (auto simp: disjoint_iff)
  then have "linked ((fat_next s)(fl ! (n - 1) := 0)) 0 c cs = linked (fat_next s) 0 c cs"
    by (rule linked_upd_other)
  with assms(5) show ?thesis
    unfolding chain_def popped_fat_next [OF assms(1-4)] by simp
qed

lemma pop_free_clusters_ok:
  assumes "geometry s" and "free_list s fl" and "0 < n" and "unat n \<le> length fl"
  shows "pop_free_clusters n s = Inr (hd fl, popped s fl (unat n))"
proof -
  let ?k = "unat n" and ?last = "fl ! (unat n - 1)"
  have k: "0 < ?k" using assms(3) by (simp add: word_less_nat_alt)
  have nth: "data_cluster s ?last" using assms(2,4) k by (intro free_list_nth_data)
  have hd: "free_cluster_start (superblock s) = hd fl" "hd fl \<noteq> 0"
    using assms(2,4) k by (cases fl; auto simp: free_list_def chain_Cons dest: data_cluster_not_0)+
  have walk: "pop_walk ?k s (hd fl) = Inr (0, ?last)"
    using assms k hd by (intro pop_walk_enough) (auto simp: free_list_def)
  let ?s1 = "store_free_start s (fat_next s ?last)" and ?s2 = "store_fat (store_free_start s (fat_next s ?last)) ?last 0"
  have w: "write_superblock_to_disk (set_free_start s (fat_next s ?last)) = Inr (0, ?s1)"
    using assms(1) by (simp add: write_superblock_ok store_free_start_def)
  have u: "update_fat_entry ?last 0 True ?s1 = Inr (0, ?s2)"
    using assms(1) nth by (intro update_fat_entry_through) auto
  have g2: "geometry ?s2" using assms(1) nth by simp
  have "chain (popped s fl ?k) (hd fl) (take ?k fl)"
    using assms k by (intro popped_chains)
  then have ch: "chain ?s2 (hd fl) (take ?k fl)" by (simp add: popped_def)
  have "zero_loop (chain_fuel ?s2) (hd fl) ?s2 = Inr (popped s fl ?k)"
    unfolding popped_def using g2 ch hd(2) chain_length(2) [OF g2 ch] by (intro zero_loop_ok) auto
  then show ?thesis
    using assms(1,3) walk w u read_fat_entry_ok [OF assms(1) nth] hd
    by (simp add: pop_free_clusters_def END_OF_CHAIN_def)
qed

lemma pop_free_clusters_short:
  assumes "geometry s" and "free_list s fl" and "length fl + 1 < unat n"
  shows "pop_free_clusters n s = Inr (END_OF_CHAIN, s)"
proof -
  have "0 < n" using assms(3) by (simp add: word_less_nat_alt)
  moreover have "pop_walk (unat n) s (free_cluster_start (superblock s)) =
      Inr (unat n - length fl - 1, 0)"
    using assms by (intro pop_walk_short) (auto simp: free_list_def)
  ultimately show ?thesis using assms(3) by (simp add: pop_free_clusters_def)
qed

text \<open>Reading the entry of cluster 0 is an access in front of the table.\<close>

lemma read_fat_entry_0:
  assumes "geometry s"
  shows "read_fat_entry s 0 = Inl Out_of_bounds"
proof -
  define x where "x = 0 - 1 - cluster_per_fat (superblock s)"
  let ?f = "sb_fatlen s"
  have f: "1 + ?f < sb_count s" by (rule geometryD(5) [OF assms])
  have "(1 + ?f) * (sb_bpc s + 4) \<le> sb_count s * (sb_bpc s + 4)"
    using f by (intro mult_le_mono1) simp
  then have all: "(1 + ?f) * (sb_bpc s + 4) < 2 ^ 32" using geometryD(6) [OF assms] by linarith
  moreover have "(1 + ?f) * 516 \<le> (1 + ?f) * (sb_bpc s + 4)"
    using geometryD(2) [OF assms] by (intro mult_le_mono2) simp
  ultimately have "(1 + ?f) * 516 < 2 ^ 32" by (rule le_less_trans [rotated])
  then have small: "1 + ?f < 2 ^ 30" by simp
  have "x + (1 + cluster_per_fat (superblock s)) = 0" by (simp add: x_def)
  moreover have "unat (1 + cluster_per_fat (superblock s)) = 1 + ?f"
    using small by (simp add: unat_word_ariths)
  ultimately have "(unat x + (1 + ?f)) mod 2 ^ 32 = 0"
    using unat_word_ariths(1) [of x "1 + cluster_per_fat (superblock s)"] by simp
  then have "unat x = 2 ^ 32 - (1 + ?f)"
    using unat_u32_bound [of x] small mod_0_between [of "unat x + (1 + ?f)" "2 ^ 32"] by simp
  then have "unat x = (2 ^ 30 - (1 + ?f)) + 3 * 2 ^ 30" using small by simp
  then have "unat x mod 2 ^ 30 = (2 ^ 30 - (1 + ?f)) mod 2 ^ 30" by (simp only: mod_mult_self1)
  then have "unat x mod 2 ^ 30 = 2 ^ 30 - (1 + ?f)" by simp
  then have "unat (x * 4) = 4 * (2 ^ 30 - (1 + ?f))" by (simp only: unat_times_4)
  then have "length (fat_table s) < unat (x * 4) + 4"
    using all geometryD(9) [OF assms] by (simp add: algebra_simps)
  then show ?thesis
    unfolding read_fat_entry_def Let_def fat_type_bytes [OF assms] x_def [symmetric]
    by (simp add: peek_def)
qed

lemma pop_free_clusters_one_more:
  assumes "geometry s" and "free_list s fl" and "unat n = length fl + 1"
  shows "pop_free_clusters n s = Inl Out_of_bounds"
proof -
  have "0 < n" using assms(3) by (simp add: word_less_nat_alt)
  moreover have "pop_walk (unat n) s (free_cluster_start (superblock s)) = Inr (0, 0)"
    using pop_walk_short [of s "free_cluster_start (superblock s)" fl "unat n"] assms
    by (simp add: free_list_def)
  ultimately show ?thesis
    by (simp add: pop_free_clusters_def read_fat_entry_0 [OF assms(1)])
qed

section \<open>Giving a chain back\<close>

definition freed :: "fs \<Rightarrow> u32 list \<Rightarrow> fs" where
  "freed s cs =
     store_free_start (store_fat s (last cs) (free_cluster_start (superblock s))) (hd cs)"

lemma free_cluster_chain_ok:
  assumes "geometry s" and "chain s c cs" and "c \<noteq> 0"
  shows "free_cluster_chain c s = Inr (freed s cs)"
proof -
  have l: "data_cluster s (last cs)" using assms(2,3) by (rule chain_last)
  have h: "hd cs = c" using chain_nonempty [OF assms(2,3)] by simp
  have g: "geometry (store_fat s (last cs) v)" for v using assms(1) l by simp
  show ?thesis
    unfolding free_cluster_chain_def last_loop_fuel_ok [OF assms] bind_res_Inr
      update_fat_entry_through [OF assms(1) l]
    using g by (simp add: write_superblock_ok freed_def store_free_start_def h)
qed

lemma freed_simps [simp]:
  "byte_per_cluster (superblock (freed s cs)) = byte_per_cluster (superblock s)"
  "cluster_count (superblock (freed s cs)) = cluster_count (superblock s)"
  "cluster_per_fat (superblock (freed s cs)) = cluster_per_fat (superblock s)"
  "fat_type (superblock (freed s cs)) = fat_type (superblock s)"
  "root_cluster_start (superblock (freed s cs)) = root_cluster_start (superblock s)"
  "free_cluster_start (superblock (freed s cs)) = hd cs"
  "sb_pad (freed s cs) = sb_pad s" "heap_tail (freed s cs) = heap_tail s"
  "clock (freed s cs) = clock s" "data_cluster (freed s cs) = data_cluster s"
  "on_disk (freed s cs) = on_disk s"
  by (simp_all add: freed_def)

lemma freed_facts:
  assumes "geometry s" and "chain s c cs" and "c \<noteq> 0"
  shows "geometry (freed s cs)" and "synced s \<Longrightarrow> synced (freed s cs)"
    and "fat_next (freed s cs) = (fat_next s)(last cs := free_cluster_start (superblock s))"
    and "data_cluster s d \<Longrightarrow> cluster_data (freed s cs) d = cluster_data s d"
proof -
  have l: "data_cluster s (last cs)" using assms(2,3) by (rule chain_last)
  show "geometry (freed s cs)" using assms(1) l by (simp add: freed_def)
  show "synced s \<Longrightarrow> synced (freed s cs)"
    using assms(1) l by (simp add: freed_def synced_store_free_start synced_store_fat)
  show "fat_next (freed s cs) = (fat_next s)(last cs := free_cluster_start (superblock s))"
    using assms(1) l by (simp add: freed_def fat_next_store_fat del: fun_upd_apply)
  show "data_cluster s d \<Longrightarrow> cluster_data (freed s cs) d = cluster_data s d"
    using assms(1) l by (simp add: freed_def)
qed

lemma freed_free_list:
  assumes "geometry s" and "chain s c cs" and "c \<noteq> 0" and "free_list s fl"
    and "set cs \<inter> set fl = {}"
  shows "free_list (freed s cs) (cs @ fl)"
proof -
  have cs: "cs \<noteq> []" "hd cs = c" using chain_nonempty [OF assms(2,3)] by auto
  have "linked ((fat_next s)(last cs := free_cluster_start (superblock s))) 0 c (cs @ fl)"
    using assms(2,4,5) cs by (intro linked_append) (auto simp: chain_def free_list_def)
  then show ?thesis
    using assms(2,4) unfolding free_list_def chain_def freed_facts(3) [OF assms(1-3)]
    by (auto simp: cs)
qed

lemma freed_other_chain:
  assumes "geometry s" and "chain s c cs" and "c \<noteq> 0" and "chain s d ds"
    and "set cs \<inter> set ds = {}"
  shows "chain (freed s cs) d ds"
proof -
  have "last cs \<notin> set ds" using chain_nonempty [OF assms(2,3)] assms(5) by (auto simp: disjoint_iff)
  then have "linked ((fat_next s)(last cs := v)) 0 d ds = linked (fat_next s) 0 d ds" for v
    by (rule linked_upd_other)
  with assms(4) show ?thesis
    unfolding chain_def freed_facts(3) [OF assms(1-3)] by simp
qed

section \<open>Lengthening a chain\<close>

text \<open>The chain \<open>cs\<close> with the first \<open>n\<close> clusters of the free list \<open>fl\<close> appended.\<close>

definition extended :: "fs \<Rightarrow> u32 list \<Rightarrow> nat \<Rightarrow> u32 list \<Rightarrow> fs" where
  "extended s fl n cs = store_fat (popped s fl n) (last cs) (hd fl)"

lemma extended_simps [simp]:
  "byte_per_cluster (superblock (extended s fl n cs)) = byte_per_cluster (superblock s)"
  "cluster_count (superblock (extended s fl n cs)) = cluster_count (superblock s)"
  "cluster_per_fat (superblock (extended s fl n cs)) = cluster_per_fat (superblock s)"
  "fat_type (superblock (extended s fl n cs)) = fat_type (superblock s)"
  "root_cluster_start (superblock (extended s fl n cs)) = root_cluster_start (superblock s)"
  "sb_pad (extended s fl n cs) = sb_pad s" "heap_tail (extended s fl n cs) = heap_tail s"
  "clock (extended s fl n cs) = clock s" "data_cluster (extended s fl n cs) = data_cluster s"
  "on_disk (extended s fl n cs) = on_disk s"
  by (simp_all add: extended_def)

lemma extended_facts:
  assumes "geometry s" and "free_list s fl" and "0 < n" and "n \<le> length fl"
    and "chain s c cs" and "c \<noteq> 0" and "set cs \<inter> set fl = {}"
  shows "geometry (extended s fl n cs)" and "synced s \<Longrightarrow> synced (extended s fl n cs)"
    and "chain (extended s fl n cs) c (cs @ take n fl)"
    and "free_list (extended s fl n cs) (drop n fl)"
    and "data_cluster s d \<Longrightarrow> cluster_data (extended s fl n cs) d =
      (if d \<in> set (take n fl) then get_new_cluster s else cluster_data s d)"
    and "chain s d ds \<Longrightarrow> set ds \<inter> set fl = {} \<Longrightarrow> set ds \<inter> set cs = {} \<Longrightarrow>
      chain (extended s fl n cs) d ds"
proof -
  let ?p = "popped s fl n"
  note pop = popped_geometry [OF assms(1-4)] popped_chains [OF assms(1-4)]
  have l: "data_cluster s (last cs)" using assms(5,6) by (rule chain_last)
  have cs: "cs \<noteq> []" using chain_nonempty [OF assms(5,6)] by simp
  have cp: "chain ?p c cs" using assms by (intro popped_other_chain)
  show "geometry (extended s fl n cs)" using pop(1) l by (simp add: extended_def)
  show "synced s \<Longrightarrow> synced (extended s fl n cs)"
    using pop(1) l popped_synced [OF assms(1) _ assms(2-4)]
    by (simp add: extended_def synced_store_fat)
  have nx: "fat_next (extended s fl n cs) = (fat_next ?p)(last cs := hd fl)"
    unfolding extended_def using pop(1) l by (intro fat_next_store_fat) auto
  have tk: "set cs \<inter> set (take n fl) = {}" "set cs \<inter> set (drop n fl) = {}"
    using assms(7) by (auto dest: in_set_takeD in_set_dropD)
  have "linked ((fat_next ?p)(last cs := hd fl)) 0 c (cs @ take n fl)"
    using cp pop(2) cs tk(1) by (intro linked_append) (auto simp: chain_def)
  with cp pop(2) show "chain (extended s fl n cs) c (cs @ take n fl)"
    unfolding chain_def nx by auto
  have frame: "linked ((fat_next ?p)(last cs := hd fl)) 0 d ds = linked (fat_next ?p) 0 d ds"
    if "set ds \<inter> set cs = {}" for d ds
    using that cs by (intro linked_upd_other) auto
  from pop(3) tk(2) show "free_list (extended s fl n cs) (drop n fl)"
    unfolding free_list_def chain_def nx
    by (subst frame) (auto simp: extended_def)
  show "chain (extended s fl n cs) d ds"
    if "chain s d ds" "set ds \<inter> set fl = {}" "set ds \<inter> set cs = {}"
    using popped_other_chain [OF assms(1-4) that(1,2)] frame [OF that(3)]
    unfolding chain_def nx by simp
  show "cluster_data (extended s fl n cs) d =
      (if d \<in> set (take n fl) then get_new_cluster s else cluster_data s d)" if "data_cluster s d"
    using popped_data [OF assms(1-4) that] pop(1) l that by (simp add: extended_def)
qed

lemma add_free_cluster_ok:
  assumes "geometry s" and "free_list s fl" and "fl \<noteq> []"
    and "chain s c cs" and "c \<noteq> 0" and "set cs \<inter> set fl = {}"
  shows "add_free_cluster c s = Inr (hd fl, extended s fl 1 cs)"
proof -
  have n: "0 < (1 :: nat)" "1 \<le> length fl" using assms(3) by (cases fl; simp)+
  have p: "pop_free_clusters 1 s = Inr (hd fl, popped s fl 1)"
    using pop_free_clusters_ok [OF assms(1,2), of 1] n by simp
  have g: "geometry (popped s fl 1)" using assms n by (intro popped_geometry)
  have ch: "chain (popped s fl 1) c cs" using assms n by (intro popped_other_chain)
  have l: "data_cluster (popped s fl 1) (last cs)" using ch assms(5) by (rule chain_last)
  show ?thesis
    unfolding add_free_cluster_def p bind_res_Inr
    using last_loop_fuel_ok [OF g ch assms(5)] update_fat_entry_through [OF g l]
    by (simp add: extended_def)
qed

section \<open>Shortening a chain\<close>

text \<open>Cutting a chain after \<open>xs\<close> and giving the rest \<open>ys\<close> back, as a shrinking file does.\<close>

lemma cut_facts:
  assumes "geometry s" and "chain s c (xs @ ys)" and "xs \<noteq> []"
  defines "t \<equiv> store_fat s (last xs) 0"
  shows "geometry t" and "synced s \<Longrightarrow> synced t" and "chain t c xs"
    and "chain t (fat_next s (last xs)) ys"
    and "data_cluster s d \<Longrightarrow> cluster_data t d = cluster_data s d"
    and "chain s d ds \<Longrightarrow> set ds \<inter> set xs = {} \<Longrightarrow> chain t d ds"
proof -
  have l: "data_cluster s (last xs)" using assms(2,3) by (intro chain_data) auto
  have dat: "\<forall>x \<in> set xs. data_cluster s x" "\<forall>y \<in> set ys. data_cluster s y"
    using chain_data [OF assms(2)] by auto
  have lk: "linked (fat_next s) 0 c (xs @ ys)" using assms(2) by (simp add: chain_def)
  note cut = disk_links.link_cut [OF assms(1) lk assms(3) dat(1)]
  show "geometry t" "synced s \<Longrightarrow> synced t"
    using assms(1) l by (auto simp: t_def synced_store_fat)
  show "chain t c xs" "chain t (fat_next s (last xs)) ys"
    using cut dat by (auto simp: chain_def t_def)
  show "data_cluster s d \<Longrightarrow> cluster_data t d = cluster_data s d"
    using assms(1) l by (simp add: t_def)
  show "chain t d ds" if "chain s d ds" "set ds \<inter> set xs = {}"
  proof -
    have "last xs \<notin> set ds" using that(2) assms(3) by auto
    from disk_links.link_frame [OF assms(1) l this] that(1) show ?thesis
      by (simp add: chain_def t_def)
  qed
qed

section \<open>The allocation invariant\<close>

text \<open>
  \<open>alloc_inv s fl cls\<close>: memory and disk agree, \<open>fl\<close> is the free list, every list in \<open>cls\<close> is a
  chain in use, and no cluster is in two of these lists or twice in one.
\<close>

definition alloc_inv :: "fs \<Rightarrow> u32 list \<Rightarrow> u32 list list \<Rightarrow> bool" where
  "alloc_inv s fl cls \<longleftrightarrow>
     geometry s \<and> synced s \<and> free_list s fl \<and>
     (\<forall>cs \<in> set cls. cs \<noteq> [] \<and> chain s (hd cs) cs) \<and> distinct (fl @ concat cls)"

lemma alloc_invD:
  assumes "alloc_inv s fl cls"
  shows "geometry s" and "synced s" and "free_list s fl"
    and "cs \<in> set cls \<Longrightarrow> cs \<noteq> []" and "cs \<in> set cls \<Longrightarrow> chain s (hd cs) cs"
    and "cs \<in> set cls \<Longrightarrow> set cs \<inter> set fl = {}" and "distinct (fl @ concat cls)"
  using assms by (auto simp: alloc_inv_def disjoint_iff)

lemma chain_hd_not_0: "chain s (hd cs) cs \<Longrightarrow> cs \<noteq> [] \<Longrightarrow> hd cs \<noteq> 0"
  by (cases cs) (auto simp: chain_Cons dest: data_cluster_not_0)

lemma alloc_inv_perm:
  assumes "alloc_inv s fl cls" and "mset cls' = mset cls"
  shows "alloc_inv s fl cls'"
proof -
  have "mset (concat cls') = mset (concat cls)"
    by (metis assms(2) mset_concat mset_map sum_mset_sum_list)
  then have "mset (fl @ concat cls') = mset (fl @ concat cls)" by simp
  then have "distinct (fl @ concat cls') = distinct (fl @ concat cls)"
    by (rule mset_eq_imp_distinct_iff)
  moreover have "set cls' = set cls" using assms(2) by (rule mset_eq_setD)
  ultimately show ?thesis using assms(1) by (simp add: alloc_inv_def)
qed

lemma mset_take_drop: "mset xs = mset (take n xs) + mset (drop n xs)"
  by (metis append_take_drop_id mset_append)

lemma alloc_inv_pop:
  assumes "alloc_inv s fl cls" and "0 < n" and "n \<le> length fl"
  shows "alloc_inv (popped s fl n) (drop n fl) (take n fl # cls)"
proof -
  note i = alloc_invD [OF assms(1)]
  have "chain (popped s fl n) (hd cs) cs" if "cs \<in> set cls" for cs
    using i that assms by (intro popped_other_chain) auto
  moreover have "distinct (drop n fl @ take n fl @ concat cls)"
  proof -
    have "mset (drop n fl @ take n fl @ concat cls) = mset (fl @ concat cls)"
      by (simp add: mset_take_drop [of fl n] ac_simps)
    with i(7) show ?thesis using mset_eq_imp_distinct_iff by blast
  qed
  moreover have "hd (take n fl) = hd fl" "take n fl \<noteq> []" using assms(2,3) by auto
  ultimately show ?thesis
    using i assms popped_geometry [OF i(1,3) assms(2,3)] popped_chains [OF i(1,3) assms(2,3)]
      popped_synced [OF i(1,2,3) assms(2,3)]
    by (auto simp: alloc_inv_def)
qed

lemma alloc_inv_disjoint:
  assumes "alloc_inv s fl (cs # cls)" and "ds \<in> set cls"
  shows "set cs \<inter> set ds = {}" and "set ds \<inter> set cs = {}"
    and "set ds \<inter> set fl = {}" and "chain s (hd ds) ds"
proof -
  have "distinct (fl @ cs @ concat cls)" using alloc_invD(7) [OF assms(1)] by simp
  moreover have "set ds \<subseteq> set (concat cls)" using assms(2) by auto
  ultimately show "set cs \<inter> set ds = {}" "set ds \<inter> set cs = {}" "set ds \<inter> set fl = {}"
    by fastforce+
  show "chain s (hd ds) ds" using alloc_invD(5) [OF assms(1)] assms(2) by simp
qed

lemma alloc_inv_free:
  assumes "alloc_inv s fl (cs # cls)"
  shows "alloc_inv (freed s cs) (cs @ fl) cls"
proof -
  note i = alloc_invD [OF assms]
  have cs: "cs \<noteq> []" "chain s (hd cs) cs" "set cs \<inter> set fl = {}" using i(4,5,6) by auto
  have h: "hd cs \<noteq> 0" using cs by (intro chain_hd_not_0)
  have "chain (freed s cs) (hd ds) ds" if "ds \<in> set cls" for ds
    by (rule freed_other_chain [OF i(1) cs(2) h])
      (rule alloc_inv_disjoint(4,1) [OF assms that])+
  moreover have "distinct ((cs @ fl) @ concat cls)" using i(7) by auto
  ultimately show ?thesis
    using freed_facts(1,2) [OF i(1) cs(2) h] freed_free_list [OF i(1) cs(2) h i(3) cs(3)] i(2,4)
    by (auto simp: alloc_inv_def)
qed

lemma alloc_inv_extend:
  assumes "alloc_inv s fl (cs # cls)" and "0 < n" and "n \<le> length fl"
  shows "alloc_inv (extended s fl n cs) (drop n fl) ((cs @ take n fl) # cls)"
proof -
  note i = alloc_invD [OF assms(1)]
  have cs: "cs \<noteq> []" "chain s (hd cs) cs" "set cs \<inter> set fl = {}" using i(4,5,6) by auto
  have h: "hd cs \<noteq> 0" using cs by (intro chain_hd_not_0)
  note e = extended_facts [OF i(1,3) assms(2,3) cs(2) h cs(3)]
  have "chain (extended s fl n cs) (hd ds) ds" if "ds \<in> set cls" for ds
    by (rule e(6)) (rule alloc_inv_disjoint(4,3,2) [OF assms(1) that])+
  moreover have "distinct (drop n fl @ (cs @ take n fl) @ concat cls)"
  proof -
    have "mset (drop n fl @ (cs @ take n fl) @ concat cls) = mset (fl @ concat (cs # cls))"
      by (simp add: mset_take_drop [of fl n] ac_simps)
    with i(7) show ?thesis using mset_eq_imp_distinct_iff by blast
  qed
  ultimately show ?thesis
    using e(1,2,3,4) i cs(1) by (auto simp: alloc_inv_def)
qed

lemma alloc_inv_cut:
  assumes "alloc_inv s fl ((xs @ ys) # cls)" and "xs \<noteq> []" and "ys \<noteq> []"
  shows "alloc_inv (freed (store_fat s (last xs) 0) ys) (ys @ fl) (xs # cls)"
proof -
  note i = alloc_invD [OF assms(1)]
  let ?t = "store_fat s (last xs) 0"
  have ch: "chain s (hd xs) (xs @ ys)" using i(5) [of "xs @ ys"] assms(2) by simp
  note c = cut_facts [OF i(1) ch assms(2)]
  have hy: "fat_next s (last xs) = hd ys"
    using c(4) assms(3) by (cases ys) (auto simp: chain_Cons)
  have dis: "distinct (fl @ (xs @ ys) @ concat cls)" using i(7) by simp
  have "chain ?t (hd ds) ds" if "ds \<in> set cls" for ds
    using alloc_inv_disjoint(2,4) [OF assms(1) that] by (intro c(6)) auto
  then have "chain ?t (hd ds) ds" if "ds \<in> set (ys # xs # cls)" for ds
    using that c(3,4) hy by auto
  moreover have "set fl \<inter> set xs = {}" using dis by auto
  then have "free_list ?t fl"
    unfolding free_list_def store_fat_simps using i(3) by (intro c(6)) (simp add: free_list_def)
  moreover have "cs \<noteq> []" if "cs \<in> set (ys # xs # cls)" for cs
    using that assms(2,3) i(4) by auto
  moreover have "distinct (fl @ concat (ys # xs # cls))" using dis by auto
  ultimately have "alloc_inv ?t fl (ys # xs # cls)"
    using c(1,2) i(2) unfolding alloc_inv_def by blast
  then show ?thesis by (rule alloc_inv_free)
qed

section \<open>The contract of the allocator\<close>

text \<open>
  What the directory and file operations rely on. A client that holds chains \<open>cls\<close> and sees
  \<open>fl\<close> free can take any positive number of clusters that \<open>fl\<close> has, as a chain of its own,
  and give a chain back.
\<close>

locale allocator =
  fixes inv :: "'st \<Rightarrow> 'a list \<Rightarrow> 'a list list \<Rightarrow> bool"
    and take_clusters :: "u32 \<Rightarrow> 'st \<Rightarrow> ('a \<times> 'st) res"
    and give_back :: "'a \<Rightarrow> 'st \<Rightarrow> 'st res"
  assumes take_ok: "inv s fl cls \<Longrightarrow> 0 < n \<Longrightarrow> unat n \<le> length fl \<Longrightarrow>
      \<exists>s'. take_clusters n s = Inr (hd fl, s') \<and> inv s' (drop (unat n) fl) (take (unat n) fl # cls)"
    and give_ok: "inv s fl (cs # cls) \<Longrightarrow> \<exists>s'. give_back (hd cs) s = Inr s' \<and> inv s' (cs @ fl) cls"
    and inv_distinct: "inv s fl cls \<Longrightarrow> distinct (fl @ concat cls)"
begin

text \<open>Taking clusters and giving them back leaves the free list as it was.\<close>

lemma take_give:
  assumes "inv s fl cls" and "0 < n" and "unat n \<le> length fl"
  shows "\<exists>s1 s2. take_clusters n s = Inr (hd fl, s1) \<and> give_back (hd fl) s1 = Inr s2 \<and> inv s2 fl cls"
proof -
  from take_ok [OF assms] obtain s1 where 1: "take_clusters n s = Inr (hd fl, s1)"
    "inv s1 (drop (unat n) fl) (take (unat n) fl # cls)" by blast
  from give_ok [OF 1(2)] obtain s2 where 2: "give_back (hd (take (unat n) fl)) s1 = Inr s2"
    "inv s2 (take (unat n) fl @ drop (unat n) fl) cls" by blast
  moreover have "hd (take (unat n) fl) = hd fl"
    using assms(2) by (simp add: word_less_nat_alt)
  ultimately show ?thesis using 1(1) by auto
qed

text \<open>A sequence of requests succeeds as long as the free list has room for all of them.\<close>

lemma take_sequence:
  assumes "inv s fl cls" and "\<forall>n \<in> set ns. 0 < n" and "(\<Sum>n \<leftarrow> ns. unat n) \<le> length fl"
  shows "\<exists>s' new. inv s' (drop (\<Sum>n \<leftarrow> ns. unat n) fl) (new @ cls) \<and>
    map length new = rev (map unat ns) \<and>
    foldl (\<lambda>r n. bind_res r (\<lambda>s. bind_res (take_clusters n s) (\<lambda>(_, s). Inr s))) (Inr s) ns = Inr s'"
  using assms
proof (induction ns arbitrary: s fl cls)
  case Nil
  then show ?case by auto
next
  case (Cons n ns)
  from Cons.prems have n: "0 < n" "unat n \<le> length fl" by auto
  from take_ok [OF Cons.prems(1) n] obtain t where t: "take_clusters n s = Inr (hd fl, t)"
    "inv t (drop (unat n) fl) (take (unat n) fl # cls)" by blast
  have "(\<Sum>n \<leftarrow> ns. unat n) \<le> length (drop (unat n) fl)" using Cons.prems(3) by simp
  from Cons.IH [OF t(2) _ this] Cons.prems(2) obtain s' new where
    "inv s' (drop (\<Sum>n \<leftarrow> ns. unat n) (drop (unat n) fl)) (new @ take (unat n) fl # cls)"
    "map length new = rev (map unat ns)"
    "foldl (\<lambda>r n. bind_res r (\<lambda>s. bind_res (take_clusters n s) (\<lambda>(_, s). Inr s))) (Inr t) ns = Inr s'"
    by auto
  with t(1) n show ?case
    by (intro exI [of _ s'] exI [of _ "new @ [take (unat n) fl]"]) (simp add: add.commute)
qed

end

interpretation fat_alloc: allocator alloc_inv pop_free_clusters free_cluster_chain
proof unfold_locales
  fix s fl cls and n :: u32
  assume *: "alloc_inv s fl cls" "0 < n" "unat n \<le> length fl"
  then show "\<exists>s'. pop_free_clusters n s = Inr (hd fl, s') \<and>
      alloc_inv s' (drop (unat n) fl) (take (unat n) fl # cls)"
    using pop_free_clusters_ok [OF alloc_invD(1,3) [OF *(1)] *(2,3)] alloc_inv_pop [OF *(1)]
    by (simp add: word_less_nat_alt)
next
  fix s fl cs cls assume *: "alloc_inv s fl (cs # cls)"
  then have "chain s (hd cs) cs" "cs \<noteq> []" by (auto simp: alloc_inv_def)
  then have "free_cluster_chain (hd cs) s = Inr (freed s cs)"
    using alloc_invD(1) [OF *] by (intro free_cluster_chain_ok chain_hd_not_0)
  with alloc_inv_free [OF *] show "\<exists>s'. free_cluster_chain (hd cs) s = Inr s' \<and> alloc_inv s' (cs @ fl) cls"
    by blast
qed (rule alloc_invD(7))

section \<open>Runs of the allocator\<close>

text \<open>
  Any sequence of allocator calls, by clients that only give back and lengthen chains they
  hold. A state of the machine is the file system with the chains in use.
\<close>

inductive alloc_step :: "fs \<times> u32 list list \<Rightarrow> fs \<times> u32 list list \<Rightarrow> bool" where
  pop: "pop_free_clusters n s = Inr (c, s') \<Longrightarrow> c \<noteq> END_OF_CHAIN \<Longrightarrow> chain s' c cs \<Longrightarrow>
    alloc_step (s, cls) (s', cs # cls)"
| pop_none: "pop_free_clusters n s = Inr (END_OF_CHAIN, s') \<Longrightarrow> alloc_step (s, cls) (s', cls)"
| release: "cs \<in> set cls \<Longrightarrow> free_cluster_chain (hd cs) s = Inr s' \<Longrightarrow>
    alloc_step (s, cls) (s', remove1 cs cls)"
| lengthen: "cs \<in> set cls \<Longrightarrow> add_free_cluster (hd cs) s = Inr (c, s') \<Longrightarrow>
    alloc_step (s, cls) (s', (cs @ [c]) # remove1 cs cls)"

definition alloc_ok :: "u32 set \<Rightarrow> fs \<times> u32 list list \<Rightarrow> bool" where
  "alloc_ok U = (\<lambda>(s, cls). \<exists>fl. alloc_inv s fl cls \<and> set fl \<union> \<Union> (set ` set cls) = U)"

lemma alloc_inv_pick:
  "alloc_inv s fl cls \<Longrightarrow> cs \<in> set cls \<Longrightarrow> alloc_inv s fl (cs # remove1 cs cls)"
  by (erule alloc_inv_perm) simp

lemma union_pick: "cs \<in> set cls \<Longrightarrow>
  set cs \<union> \<Union> (set ` set (remove1 cs cls)) = \<Union> (set ` set cls)"
proof -
  assume "cs \<in> set cls"
  then have "mset (cs # remove1 cs cls) = mset cls" by simp
  then have "set (cs # remove1 cs cls) = set cls" by (rule mset_eq_setD)
  then have "\<Union> (set ` set (cs # remove1 cs cls)) = \<Union> (set ` set cls)" by simp
  then show ?thesis by simp
qed

text \<open>What a successful call of the allocator can have done, by the length of the free list.\<close>

lemma pop_free_clusters_cases:
  assumes "alloc_inv s fl cls" and "pop_free_clusters n s = Inr (c, s')"
  shows "c = END_OF_CHAIN \<and> s' = s \<or>
    (0 < unat n \<and> unat n \<le> length fl \<and> c = hd fl \<and> s' = popped s fl (unat n))"
proof -
  note i = alloc_invD [OF assms(1)]
  have n: "0 < n" using assms(2) by (auto simp: pop_free_clusters_def assert_res_def split: if_splits)
  consider "unat n \<le> length fl" | "unat n = length fl + 1" | "length fl + 1 < unat n" by linarith
  then show ?thesis
  proof cases
    case 1
    then show ?thesis
      using assms(2) pop_free_clusters_ok [OF i(1,3) n 1] n by (simp add: word_less_nat_alt)
  next
    case 2
    then show ?thesis using assms(2) pop_free_clusters_one_more [OF i(1,3)] by simp
  next
    case 3
    then show ?thesis using assms(2) pop_free_clusters_short [OF i(1,3)] by simp
  qed
qed

lemma alloc_ok_pop:
  assumes ok: "alloc_ok U (s, cls)" and pop: "pop_free_clusters n s = Inr (c, s')" "c \<noteq> END_OF_CHAIN"
    and chain: "chain s' c cs"
  shows "alloc_ok U (s', cs # cls)"
proof -
  from ok obtain fl where fl: "alloc_inv s fl cls" "set fl \<union> \<Union> (set ` set cls) = U"
    by (auto simp: alloc_ok_def)
  from pop_free_clusters_cases [OF fl(1) pop(1)] pop(2)
  have k: "0 < unat n" "unat n \<le> length fl" "c = hd fl" "s' = popped s fl (unat n)" by auto
  have inv: "alloc_inv s' (drop (unat n) fl) (take (unat n) fl # cls)"
    unfolding k(4) using fl(1) k(1,2) by (rule alloc_inv_pop)
  then have "chain s' (hd (take (unat n) fl)) (take (unat n) fl)"
    by (auto dest: alloc_invD(5))
  moreover have "hd (take (unat n) fl) = c" using k by simp
  ultimately have cs: "cs = take (unat n) fl" using chain chain_unique by metis
  have "set (drop (unat n) fl) \<union> set cs = set fl"
    unfolding cs by (metis append_take_drop_id set_append sup_commute)
  with fl(2) have "set (drop (unat n) fl) \<union> \<Union> (set ` set (cs # cls)) = U" by auto
  with inv cs show ?thesis by (auto simp: alloc_ok_def)
qed

lemma pop_none_same:
  assumes inv: "alloc_inv s fl cls" and pop: "pop_free_clusters n s = Inr (END_OF_CHAIN, s')"
  shows "s' = s"
proof -
  have "END_OF_CHAIN \<noteq> hd fl" if "0 < unat n" "unat n \<le> length fl"
    using inv that by (cases fl)
      (auto simp: alloc_inv_def free_list_def chain_Cons END_OF_CHAIN_def dest!: data_cluster_not_0)
  with pop_free_clusters_cases [OF inv pop] show ?thesis by auto
qed

lemma alloc_ok_release:
  assumes ok: "alloc_ok U (s, cls)" and cs: "cs \<in> set cls" and free: "free_cluster_chain (hd cs) s = Inr s'"
  shows "alloc_ok U (s', remove1 cs cls)"
proof -
  from ok obtain fl where fl: "alloc_inv s fl cls" "set fl \<union> \<Union> (set ` set cls) = U"
    by (auto simp: alloc_ok_def)
  from fat_alloc.give_ok [OF alloc_inv_pick [OF fl(1) cs]] free
  have "alloc_inv s' (cs @ fl) (remove1 cs cls)" by auto
  moreover have "set (cs @ fl) \<union> \<Union> (set ` set (remove1 cs cls)) = U"
    using fl(2) union_pick [OF cs] by auto
  ultimately show ?thesis by (auto simp: alloc_ok_def)
qed

lemma alloc_ok_lengthen:
  assumes ok: "alloc_ok U (s, cls)" and cs: "cs \<in> set cls"
    and add: "add_free_cluster (hd cs) s = Inr (c, s')"
  shows "alloc_ok U (s', (cs @ [c]) # remove1 cs cls)"
proof -
  from ok obtain fl where fl: "alloc_inv s fl cls" "set fl \<union> \<Union> (set ` set cls) = U"
    by (auto simp: alloc_ok_def)
  note inv = alloc_inv_pick [OF fl(1) cs] and i = alloc_invD [OF fl(1)]
  have ne: "fl \<noteq> []"
  proof
    assume "fl = []"
    then have "pop_free_clusters 1 s = Inl Out_of_bounds"
      using pop_free_clusters_one_more [OF i(1,3), of 1] by simp
    with add show False by (simp add: add_free_cluster_def)
  qed
  then have "add_free_cluster (hd cs) s = Inr (hd fl, extended s fl 1 cs)"
    by (rule add_free_cluster_ok [OF i(1,3) _ i(5) chain_hd_not_0 [OF i(5) i(4)] i(6)]) (rule cs)+
  with add have c: "c = hd fl" "s' = extended s fl 1 cs" by auto
  have t1: "take (Suc 0) fl = [hd fl]" "drop (Suc 0) fl = tl fl" using ne by (cases fl; simp)+
  have "alloc_inv s' (tl fl) ((cs @ [c]) # remove1 cs cls)"
    using alloc_inv_extend [OF inv, of 1] ne by (simp add: c t1 Suc_le_eq)
  moreover have "set fl = insert c (set (tl fl))" using ne c by (cases fl) auto
  then have "set (tl fl) \<union> \<Union> (set ` set ((cs @ [c]) # remove1 cs cls)) = U"
    using fl(2) union_pick [OF cs] by auto
  ultimately show ?thesis by (auto simp: alloc_ok_def)
qed

lemma alloc_step_ok:
  assumes "alloc_step x y" and "alloc_ok U x"
  shows "alloc_ok U y"
  using assms
proof (induction rule: alloc_step.induct)
  case (pop_none n s s' cls)
  then show ?case by (auto simp: alloc_ok_def dest: pop_none_same)
qed (rule alloc_ok_pop alloc_ok_release alloc_ok_lengthen; assumption)+

lemma alloc_run_ok: "alloc_step\<^sup>*\<^sup>* x y \<Longrightarrow> alloc_ok U x \<Longrightarrow> alloc_ok U y"
  by (induction rule: rtranclp_induct) (auto intro: alloc_step_ok)

end
