(* ===== verification/Fat_Dir.thy ===== *)
theory Fat_Dir
  imports Fat_Alloc
begin

text \<open>
  Directory entries and directories (\<open>src/FAT/fat.c\<close>, lines 61 to 69, 294 to 435 and 519 to
  546). A directory is a chain of clusters; each cluster is scanned in steps of the entry
  size. The cluster size is not a multiple of the entry size, so the last step of a scan
  starts inside the cluster and ends behind it: the bytes it reads there are those that
  happen to follow the buffer on the heap (\<open>heap_tail\<close> of the state); a write there is an
  access out of bounds.
\<close>

section \<open>Entries\<close>

record fat_dir_entry =
  de_name :: "byte list"
  de_type :: u16
  de_size :: u32
  de_first_cluster :: u32
  de_time :: u64

definition DIR_ENTRY_SIZE :: nat where "DIR_ENTRY_SIZE = 40"

definition enc_dir_entry :: "fat_dir_entry \<Rightarrow> byte list" where
  "enc_dir_entry e =
     de_name e @ le16 (de_type e) @ le32 (de_size e) @ le32 (de_first_cluster e) @ le64 (de_time e)"

definition dec_dir_entry :: "byte list \<Rightarrow> fat_dir_entry" where
  "dec_dir_entry bs =
     \<lparr>de_name = slice 0 22 bs, de_type = un_le16 (slice 22 2 bs), de_size = un_le32 (slice 24 4 bs),
      de_first_cluster = un_le32 (slice 28 4 bs), de_time = un_le64 (slice 32 8 bs)\<rparr>"

section \<open>Strings in memory\<close>

text \<open>\<open>strcmp(a, b) == 0\<close> on two arrays; running past the end of one of them is an error.\<close>

fun strcmp_eq :: "byte list \<Rightarrow> byte list \<Rightarrow> bool res" where
  "strcmp_eq (a # as) (b # bs) =
     (if a \<noteq> b then Inr False else if a = 0 then Inr True else strcmp_eq as bs)"
| "strcmp_eq _ _ = Inl Out_of_bounds"

definition c_string :: "cstring \<Rightarrow> byte list" where
  "c_string nm = nm @ [0]"

definition strncpy_field :: "cstring \<Rightarrow> nat \<Rightarrow> byte list" where
  "strncpy_field nm n = take n (nm @ replicate n 0)"

text \<open>The string that starts at the beginning of an array.\<close>

definition string_at :: "byte list \<Rightarrow> cstring res" where
  "string_at bs = (if 0 \<in> set bs then Inr (takeWhile (\<lambda>b. b \<noteq> 0) bs) else Inl Out_of_bounds)"

definition dot :: cstring where "dot = [46]"
definition dotdot :: cstring where "dotdot = [46, 46]"

section \<open>Scanning a cluster\<close>

text \<open>The offsets \<open>off\<close>, \<open>off + DIR_ENTRY_SIZE\<close>, ... below the cluster size.\<close>

function slots_from :: "nat \<Rightarrow> nat \<Rightarrow> nat list" where
  "slots_from off n = (if off < n then off # slots_from (off + DIR_ENTRY_SIZE) n else [])"
  by pat_completeness auto
termination
  by (relation "measure (\<lambda>(off, n). n - off)") (auto simp: DIR_ENTRY_SIZE_def)

declare slots_from.simps [simp del]

definition heap_byte :: "fs \<Rightarrow> byte list \<Rightarrow> nat \<Rightarrow> byte" where
  "heap_byte s buf i = (if i < length buf then buf ! i else heap_tail s (i - length buf))"

definition read_slot :: "fs \<Rightarrow> byte list \<Rightarrow> nat \<Rightarrow> fat_dir_entry" where
  "read_slot s buf off = dec_dir_entry (map (heap_byte s buf) [off ..< off + DIR_ENTRY_SIZE])"

section \<open>Listing a directory\<close>

text \<open>\<open>filler\<close> is the callback that FUSE passes: it takes its buffer, a name and an offset, and
  returns a status and the changed buffer.\<close>

type_synonym 'b filler = "'b \<Rightarrow> cstring \<Rightarrow> u32 \<Rightarrow> int \<times> 'b"

fun fill_slots ::
  "fs \<Rightarrow> byte list \<Rightarrow> 'b filler \<Rightarrow> nat list \<Rightarrow> u32 \<Rightarrow> 'b \<Rightarrow> (bool \<times> u32 \<times> 'b) res" where
  "fill_slots s cluster filler [] offset buf = Inr (True, offset, buf)"
| "fill_slots s cluster filler (tmp_offset # rest) offset buf =
     (let dir_entry = read_slot s cluster tmp_offset;
          offset = offset + of_nat DIR_ENTRY_SIZE
      in if de_name dir_entry ! 0 = 0 then fill_slots s cluster filler rest offset buf
         else bind_res (string_at (de_name dir_entry)) (\<lambda>nm.
           case filler buf nm offset of (st, buf) \<Rightarrow>
             if st \<noteq> 0 then Inr (False, offset, buf)
             else fill_slots s cluster filler rest offset buf))"

fun fill_clusters ::
  "nat \<Rightarrow> fs \<Rightarrow> 'b filler \<Rightarrow> u32 \<Rightarrow> nat \<Rightarrow> u32 \<Rightarrow> 'b \<Rightarrow> 'b res" where
  "fill_clusters 0 s filler cluster_num tmp_offset offset buf = Inl Diverges"
| "fill_clusters (Suc n) s filler cluster_num tmp_offset offset buf =
     (if cluster_num = 0 then Inr buf
      else bind_res (read_entire_cluster_from_disk s cluster_num) (\<lambda>(ret, cluster).
        assert_res (ret \<noteq> -1)
         (bind_res (fill_slots s cluster filler (slots_from tmp_offset (sb_bpc s)) offset buf)
           (\<lambda>(go_on, offset, buf).
             if \<not> go_on then Inr buf
             else bind_res (read_fat_entry s cluster_num) (\<lambda>next_cluster.
               fill_clusters n s filler next_cluster 0 offset buf)))))"

definition read_dir_entries :: "fs \<Rightarrow> u32 \<Rightarrow> u32 \<Rightarrow> 'b \<Rightarrow> 'b filler \<Rightarrow> 'b res" where
  "read_dir_entries s cluster_num offset buf filler =
     (if sb_bpc s = 0 then Inl Diverges
      else bind_res (walk_chain (unat offset div sb_bpc s) s cluster_num) (\<lambda>cluster_num.
        fill_clusters (Suc (chain_fuel s)) s filler cluster_num (unat offset mod sb_bpc s) offset buf))"

section \<open>Adding, testing, finding and updating entries\<close>

definition new_dir_entry :: "fs \<Rightarrow> cstring \<Rightarrow> u32 \<Rightarrow> u16 \<Rightarrow> fat_dir_entry" where
  "new_dir_entry s dir_name first_cluster_num typ =
     \<lparr>de_name = strncpy_field dir_name (DIR_ENTRY_MAX_NAME_LEN + 1), de_type = typ, de_size = 0,
      de_first_cluster = first_cluster_num, de_time = clock s\<rparr>"

definition find_free_slot :: "fs \<Rightarrow> byte list \<Rightarrow> nat option" where
  "find_free_slot s cluster =
     List.find (\<lambda>off. de_name (read_slot s cluster off) ! 0 = 0) (slots_from 0 (sb_bpc s))"

definition write_slot :: "byte list \<Rightarrow> nat \<Rightarrow> fat_dir_entry \<Rightarrow> u32 \<Rightarrow> fs \<Rightarrow> (int \<times> fs) res" where
  "write_slot cluster off e cluster_num s =
     bind_res (poke cluster off (enc_dir_entry e)) (\<lambda>cluster.
       write_cluster_to_disk cluster cluster_num s)"

fun add_entry_loop ::
  "nat \<Rightarrow> u32 \<Rightarrow> cstring \<Rightarrow> u32 \<Rightarrow> u16 \<Rightarrow> fs \<Rightarrow> (int \<times> fs) res" where
  "add_entry_loop 0 cluster_num dir_name first_cluster_num typ s = Inl Diverges"
| "add_entry_loop (Suc n) cluster_num dir_name first_cluster_num typ s =
     assert_res (1 + cluster_per_fat (superblock s) \<le> first_cluster_num \<and>
                 first_cluster_num < cluster_count (superblock s))
      (if length dir_name > DIR_ENTRY_MAX_NAME_LEN \<or> length dir_name = 0 then Inr (-1, s)
       else bind_res (read_entire_cluster_from_disk s cluster_num) (\<lambda>(ret, cluster).
         assert_res (ret \<noteq> -1)
          (case find_free_slot s cluster of
             Some offset \<Rightarrow>
               write_slot cluster offset (new_dir_entry s dir_name first_cluster_num typ) cluster_num s
           | None \<Rightarrow>
               bind_res (read_fat_entry s cluster_num) (\<lambda>next_cluster.
                 if next_cluster \<noteq> 0
                 then add_entry_loop n next_cluster dir_name first_cluster_num typ s
                 else if \<not> has_free_cluster s then Inr (-1, s)
                 else bind_res (add_free_cluster cluster_num s) (\<lambda>(cluster_num, s).
                   write_slot (get_new_cluster s) 0
                     (new_dir_entry s dir_name first_cluster_num typ) cluster_num s)))))"

definition add_dir_entry_to_cluster :: "u32 \<Rightarrow> cstring \<Rightarrow> u32 \<Rightarrow> u16 \<Rightarrow> fs \<Rightarrow> (int \<times> fs) res" where
  "add_dir_entry_to_cluster cluster_num dir_name first_cluster_num typ s =
     add_entry_loop (chain_fuel s) cluster_num dir_name first_cluster_num typ s"

fun slots_empty :: "fs \<Rightarrow> byte list \<Rightarrow> nat list \<Rightarrow> bool res" where
  "slots_empty s cluster [] = Inr True"
| "slots_empty s cluster (off # offs) =
     (let nm = de_name (read_slot s cluster off) in
      bind_res (strcmp_eq nm (c_string dot)) (\<lambda>is_dot.
      bind_res (strcmp_eq nm (c_string dotdot)) (\<lambda>is_dotdot.
        if \<not> is_dot \<and> \<not> is_dotdot \<and> nm ! 0 \<noteq> 0 then Inr False
        else slots_empty s cluster offs)))"

fun is_empty_loop :: "nat \<Rightarrow> fs \<Rightarrow> u32 \<Rightarrow> bool res" where
  "is_empty_loop 0 s cluster_num = Inl Diverges"
| "is_empty_loop (Suc n) s cluster_num =
     assert_res (root_cluster_start (superblock s) \<le> cluster_num \<and> cluster_num \<noteq> 0)
      (bind_res (read_entire_cluster_from_disk s cluster_num) (\<lambda>(ret, cluster).
       assert_res (ret \<noteq> -1)
        (bind_res (slots_empty s cluster (slots_from 0 (sb_bpc s))) (\<lambda>empty.
          if \<not> empty then Inr False
          else bind_res (read_fat_entry s cluster_num) (\<lambda>next_cluster.
            if next_cluster = 0 then Inr True else is_empty_loop n s next_cluster)))))"

definition is_dir_empty :: "fs \<Rightarrow> u32 \<Rightarrow> bool res" where
  "is_dir_empty s cluster_num = is_empty_loop (chain_fuel s) s cluster_num"

text \<open>The offset of the first entry whose name equals the string in the given array.\<close>

fun find_slot :: "fs \<Rightarrow> byte list \<Rightarrow> byte list \<Rightarrow> nat list \<Rightarrow> nat option res" where
  "find_slot s cluster nm [] = Inr None"
| "find_slot s cluster nm (off # offs) =
     bind_res (strcmp_eq (de_name (read_slot s cluster off)) nm) (\<lambda>equal.
       if equal then Inr (Some off) else find_slot s cluster nm offs)"

fun find_entry_loop :: "nat \<Rightarrow> fs \<Rightarrow> u32 \<Rightarrow> cstring \<Rightarrow> fat_dir_entry option res" where
  "find_entry_loop 0 s cluster_num nm = Inl Diverges"
| "find_entry_loop (Suc n) s cluster_num nm =
     bind_res (read_entire_cluster_from_disk s cluster_num) (\<lambda>(ret, cluster).
     assert_res (ret \<noteq> -1)
      (bind_res (find_slot s cluster (c_string nm) (slots_from 0 (sb_bpc s))) (\<lambda>hit.
        case hit of
          Some off \<Rightarrow> Inr (Some (read_slot s cluster off))
        | None \<Rightarrow>
            bind_res (read_fat_entry s cluster_num) (\<lambda>next_cluster.
              if next_cluster = 0 then Inr None else find_entry_loop n s next_cluster nm))))"

text \<open>\<open>None\<close> stands for the return value -1, \<open>Some\<close> for 0 with the entry filled in.\<close>

definition find_dir_entry_by_name :: "fs \<Rightarrow> u32 \<Rightarrow> cstring \<Rightarrow> fat_dir_entry option res" where
  "find_dir_entry_by_name s cluster_num nm = find_entry_loop (chain_fuel s) s cluster_num nm"

fun update_entry_loop :: "nat \<Rightarrow> u32 \<Rightarrow> fat_dir_entry \<Rightarrow> bool \<Rightarrow> fs \<Rightarrow> (int \<times> fs) res" where
  "update_entry_loop 0 cluster_num dir_entry rm s = Inl Diverges"
| "update_entry_loop (Suc n) cluster_num dir_entry rm s =
     bind_res (read_entire_cluster_from_disk s cluster_num) (\<lambda>(ret, cluster).
     assert_res (ret \<noteq> -1)
      (bind_res (find_slot s cluster (de_name dir_entry) (slots_from 0 (sb_bpc s))) (\<lambda>hit.
        case hit of
          Some off \<Rightarrow>
            (if rm then bind_res (poke cluster off [0]) (\<lambda>cluster.
                          write_cluster_to_disk cluster cluster_num s)
             else write_slot cluster off dir_entry cluster_num s)
        | None \<Rightarrow>
            bind_res (read_fat_entry s cluster_num) (\<lambda>next_cluster.
              if next_cluster = END_OF_CHAIN then Inr (-1, s)
              else update_entry_loop n next_cluster dir_entry rm s))))"

definition update_dir_entry :: "u32 \<Rightarrow> fat_dir_entry \<Rightarrow> bool \<Rightarrow> fs \<Rightarrow> (int \<times> fs) res" where
  "update_dir_entry cluster_num dir_entry rm s =
     update_entry_loop (chain_fuel s) cluster_num dir_entry rm s"

section \<open>Layout of entries and slots\<close>

lemma length_strncpy_field [simp]: "length (strncpy_field nm n) = n"
  by (simp add: strncpy_field_def)

interpretation dir_codec: record_codec enc_dir_entry dec_dir_entry 40 "\<lambda>e. length (de_name e) = 22"
  by unfold_locales (auto simp: enc_dir_entry_def dec_dir_entry_def slice_def u16_codec.dec_enc
    u32_codec.dec_enc u64_codec.dec_enc)

lemma length_de_name_dec [simp]: "length bs = 40 \<Longrightarrow> length (de_name (dec_dir_entry bs)) = 22"
  by (simp add: dec_dir_entry_def)

lemma round_up_Suc:
  assumes "0 < (m :: nat)"
  shows "(m + 39) div 40 = Suc ((m - 40 + 39) div 40)"
proof -
  have "(m + 39) div 40 = Suc ((m - 1) div 40)" using assms by (simp add: le_div_geq)
  moreover have "(m - 1) div 40 = (m - 40 + 39) div 40" by (cases "40 \<le> m") auto
  ultimately show ?thesis by simp
qed

lemma slots_from_eq:
  "slots_from off n = map (\<lambda>i. off + 40 * i) [0 ..< (n - off + 39) div 40]"
proof (induction off n rule: slots_from.induct)
  case (1 off n)
  show ?case
  proof (cases "off < n")
    case True
    then have "(n - off + 39) div 40 = Suc ((n - (off + 40) + 39) div 40)"
      using round_up_Suc [of "n - off"] by simp
    moreover have "slots_from (off + 40) n =
        map (\<lambda>i. off + 40 * Suc i) [0 ..< (n - (off + 40) + 39) div 40]"
      using 1 True by (simp add: DIR_ENTRY_SIZE_def add.assoc)
    ultimately show ?thesis
      using True by (simp add: slots_from.simps [of off n] DIR_ENTRY_SIZE_def upt_conv_Cons
        map_Suc_upt [symmetric] del: upt_Suc)
  next
    case False
    then show ?thesis by (simp add: slots_from.simps [of off n])
  qed
qed

definition slot_count :: "fs \<Rightarrow> nat" where
  "slot_count s = (sb_bpc s + 39) div 40"

lemma slots_from_0: "slots_from 0 (sb_bpc s) = map (\<lambda>i. 40 * i) [0 ..< slot_count s]"
  by (simp add: slots_from_eq slot_count_def)

lemma length_slots [simp]: "length (slots_from 0 (sb_bpc s)) = slot_count s"
  by (simp add: slots_from_0)

lemma nth_slots [simp]: "k < slot_count s \<Longrightarrow> slots_from 0 (sb_bpc s) ! k = 40 * k"
  by (simp add: slots_from_0)

lemma slot_inside: "k < slot_count s \<Longrightarrow> 40 * k < sb_bpc s"
proof -
  assume "k < slot_count s"
  then have "Suc k \<le> (sb_bpc s + 39) div 40" by (simp add: slot_count_def)
  then have "Suc k * 40 \<le> sb_bpc s + 39" by (simp add: less_eq_div_iff_mult_less_eq)
  then show ?thesis by simp
qed

lemma read_slot_full:
  assumes "off + 40 \<le> length buf"
  shows "read_slot s buf off = dec_dir_entry (slice off 40 buf)"
proof -
  have "map (heap_byte s buf) [off ..< off + 40] = slice off 40 buf"
    using assms by (intro nth_equalityI) (auto simp: heap_byte_def nth_slice)
  then show ?thesis by (simp add: read_slot_def DIR_ENTRY_SIZE_def)
qed

lemma length_slot_name [simp]: "length (de_name (read_slot s buf off)) = 22"
  by (simp add: read_slot_def DIR_ENTRY_SIZE_def)

lemma slot_name_0: "off < length buf \<Longrightarrow> de_name (read_slot s buf off) ! 0 = buf ! off"
  by (simp add: read_slot_def dec_dir_entry_def DIR_ENTRY_SIZE_def slice_def heap_byte_def
      upt_conv_Cons take_map)

lemma read_slot_cong:
  assumes "heap_tail t = heap_tail s"
  shows "read_slot t = read_slot s"
  unfolding read_slot_def [abs_def] heap_byte_def [abs_def] assms by (rule refl)

text \<open>A write to one slot leaves the others, the one that crosses the end included.\<close>

lemma read_slot_splice_other:
  assumes "off + length bs \<le> length buf" and "off' + 40 \<le> off \<or> off + length bs \<le> off'"
  shows "read_slot s (splice buf off bs) off' = read_slot s buf off'"
proof -
  have "map (heap_byte s (splice buf off bs)) [off' ..< off' + 40] =
      map (heap_byte s buf) [off' ..< off' + 40]"
    using assms by (auto simp: heap_byte_def nth_splice)
  then show ?thesis unfolding read_slot_def DIR_ENTRY_SIZE_def by (rule arg_cong)
qed

lemma read_slot_splice_same:
  assumes "off + 40 \<le> length buf" and "length (de_name e) = 22"
  shows "read_slot s (splice buf off (enc_dir_entry e)) off = e"
  using assms dir_codec.put_get [of e off buf] by (simp add: read_slot_full dir_codec.enc_len)

section \<open>Names\<close>

definition entry_name :: "fat_dir_entry \<Rightarrow> cstring" where
  "entry_name e = takeWhile (\<lambda>b. b \<noteq> 0) (de_name e)"

definition name_ok :: "cstring \<Rightarrow> bool" where
  "name_ok nm \<longleftrightarrow> nm \<noteq> [] \<and> length nm \<le> DIR_ENTRY_MAX_NAME_LEN \<and> 0 \<notin> set nm"

lemma strcmp_eq_name:
  "0 \<notin> set nm \<Longrightarrow> length nm < length f \<Longrightarrow>
   strcmp_eq f (nm @ 0 # rest) = Inr (takeWhile (\<lambda>b. b \<noteq> 0) f = nm)"
proof (induction nm arbitrary: f)
  case Nil
  then show ?case by (cases f) auto
next
  case (Cons b nm)
  then show ?case by (cases f) auto
qed

lemma takeWhile_strncpy:
  "0 \<notin> set nm \<Longrightarrow> length nm < n \<Longrightarrow> takeWhile (\<lambda>b. b \<noteq> 0) (strncpy_field nm n) = nm"
  by (simp add: strncpy_field_def takeWhile_append)

lemma entry_name_new:
  "name_ok nm \<Longrightarrow> entry_name (new_dir_entry s nm c t) = nm"
  by (simp add: entry_name_def new_dir_entry_def name_ok_def DIR_ENTRY_MAX_NAME_LEN_def
      takeWhile_strncpy)

lemma entry_name_terminated:
  assumes "0 \<in> set (de_name e)"
  shows "\<exists>rest. de_name e = entry_name e @ 0 # rest" and "0 \<notin> set (entry_name e)"
    and "length (entry_name e) < length (de_name e)"
proof -
  have "dropWhile (\<lambda>b. b \<noteq> 0) (de_name e) \<noteq> []" using assms by auto
  then obtain b rest where r: "dropWhile (\<lambda>b. b \<noteq> 0) (de_name e) = b # rest"
    by (cases "dropWhile (\<lambda>b. b \<noteq> 0) (de_name e)") auto
  then have "b = 0" using hd_dropWhile [of "\<lambda>b. b \<noteq> 0" "de_name e"] by simp
  with r have e: "de_name e = entry_name e @ 0 # rest"
    unfolding entry_name_def by (metis takeWhile_dropWhile_id)
  then show "\<exists>rest. de_name e = entry_name e @ 0 # rest" by blast
  show "length (entry_name e) < length (de_name e)" using arg_cong [OF e, of length] by simp
  show "0 \<notin> set (entry_name e)" unfolding entry_name_def by (auto dest: set_takeWhileD)
qed

lemma entry_name_Nil: "length (de_name e) = 22 \<Longrightarrow> entry_name e = [] \<longleftrightarrow> de_name e ! 0 = 0"
  by (cases "de_name e") (auto simp: entry_name_def)

lemma find_slot_ok:
  assumes "0 \<notin> set nm" and "length nm < 22"
  shows "find_slot s buf (nm @ 0 # rest) offs =
    Inr (List.find (\<lambda>off. entry_name (read_slot s buf off) = nm) offs)"
  using assms by (induction offs) (auto simp: strcmp_eq_name entry_name_def)

section \<open>The slots of a directory\<close>

definition cluster_slots :: "fs \<Rightarrow> u32 \<Rightarrow> fat_dir_entry list" where
  "cluster_slots s c = map (read_slot s (cluster_data s c)) (slots_from 0 (sb_bpc s))"

definition dir_slots :: "fs \<Rightarrow> u32 list \<Rightarrow> fat_dir_entry list" where
  "dir_slots s cs = concat (map (cluster_slots s) cs)"

definition dir_lookup :: "fs \<Rightarrow> u32 list \<Rightarrow> cstring \<Rightarrow> fat_dir_entry option" where
  "dir_lookup s cs nm = List.find (\<lambda>e. entry_name e = nm) (dir_slots s cs)"

lemma length_cluster_slots [simp]: "length (cluster_slots s c) = slot_count s"
  by (simp add: cluster_slots_def)

lemma nth_cluster_slots:
  "k < slot_count s \<Longrightarrow> cluster_slots s c ! k = read_slot s (cluster_data s c) (40 * k)"
  by (simp add: cluster_slots_def)

lemma dir_slots_Nil [simp]: "dir_slots s [] = []"
  by (simp add: dir_slots_def)

lemma dir_slots_Cons [simp]: "dir_slots s (c # cs) = cluster_slots s c @ dir_slots s cs"
  by (simp add: dir_slots_def)

lemma dir_lookup_Cons:
  "dir_lookup s (c # cs) nm =
     (case List.find (\<lambda>e. entry_name e = nm) (cluster_slots s c) of
        None \<Rightarrow> dir_lookup s cs nm | r \<Rightarrow> r)"
  by (simp add: dir_lookup_def find_append split: option.splits)

lemma length_slot_names: "e \<in> set (dir_slots s cs) \<Longrightarrow> length (de_name e) = 22"
  by (auto simp: dir_slots_def cluster_slots_def)

section \<open>Lookup is a search of the slots\<close>

lemma find_in_cluster:
  assumes "geometry s" and "data_cluster s c" and "0 \<notin> set nm" and "length nm < 22"
  shows "find_slot s (cluster_data s c) (nm @ 0 # rest) (slots_from 0 (sb_bpc s)) =
    Inr (List.find (\<lambda>off. entry_name (read_slot s (cluster_data s c) off) = nm)
      (slots_from 0 (sb_bpc s)))"
  using assms(3,4) by (rule find_slot_ok)

lemma find_cluster_slots:
  "List.find (\<lambda>e. entry_name e = nm) (cluster_slots s c) =
   map_option (read_slot s (cluster_data s c))
     (List.find (\<lambda>off. entry_name (read_slot s (cluster_data s c) off) = nm)
       (slots_from 0 (sb_bpc s)))"
  by (simp add: cluster_slots_def find_map_option comp_def)

lemma find_entry_loop_ok:
  assumes "geometry s" and "0 \<notin> set nm" and "length nm < 22"
    and "chain s c cs" and "c \<noteq> 0" and "length cs \<le> n"
  shows "find_entry_loop n s c nm = Inr (dir_lookup s cs nm)"
  using assms(4-6)
proof (induction n arbitrary: c cs)
  case 0
  then show ?case using chain_nonempty by fastforce
next
  case (Suc n)
  then obtain xs where cs: "cs = c # xs" using chain_nonempty by (metis list.collapse)
  with Suc.prems have c: "data_cluster s c" and xs: "chain s (fat_next s c) xs"
    by (auto simp: chain_Cons)
  have rd: "read_entire_cluster_from_disk s c = Inr (0, cluster_data s c)"
    "read_fat_entry s c = Inr (fat_next s c)"
    using assms(1) c by (auto simp: read_entire_cluster_ok read_fat_entry_ok)
  note hit = find_slot_ok [OF assms(2,3), where rest = "[]", folded c_string_def]
  show ?case
  proof (cases "fat_next s c = 0")
    case True
    with xs have "xs = []" by simp
    with True rd cs show ?thesis
      by (auto simp: hit dir_lookup_def find_cluster_slots split: option.splits)
  next
    case False
    have IH: "find_entry_loop n s (fat_next s c) nm = Inr (dir_lookup s xs nm)"
      using xs False Suc.prems cs by (intro Suc.IH) auto
    with False rd cs show ?thesis
      by (auto simp: hit dir_lookup_Cons find_cluster_slots split: option.splits)
  qed
qed

lemma find_dir_entry_ok:
  assumes "geometry s" and "0 \<notin> set nm" and "length nm < 22" and "chain s c cs" and "c \<noteq> 0"
  shows "find_dir_entry_by_name s c nm = Inr (dir_lookup s cs nm)"
  unfolding find_dir_entry_by_name_def
  using assms chain_length(2) [OF assms(1,4)] by (intro find_entry_loop_ok) auto

section \<open>Writing a slot\<close>

lemma cluster_slots_cong:
  assumes "cluster_data t c = cluster_data s c" and "heap_tail t = heap_tail s"
    and "superblock t = superblock s"
  shows "cluster_slots t c = cluster_slots s c"
  unfolding cluster_slots_def read_slot_cong [OF assms(2)] assms(1,3) by (rule refl)

text \<open>The state after bytes were written at the beginning of slot \<open>k\<close> of cluster \<open>c\<close>.\<close>

definition put_slot :: "fs \<Rightarrow> u32 \<Rightarrow> nat \<Rightarrow> byte list \<Rightarrow> fs" where
  "put_slot s c k bs = put_cluster s c (splice (cluster_data s c) (40 * k) bs)"

lemma put_slot_simps [simp]:
  "superblock (put_slot s c k bs) = superblock s" "sb_pad (put_slot s c k bs) = sb_pad s"
  "fat_table (put_slot s c k bs) = fat_table s" "heap_tail (put_slot s c k bs) = heap_tail s"
  "clock (put_slot s c k bs) = clock s" "data_cluster (put_slot s c k bs) = data_cluster s"
  "fat_next (put_slot s c k bs) = fat_next s" "chain (put_slot s c k bs) = chain s"
  by (simp_all add: put_slot_def)

lemma put_slot_ok:
  assumes "geometry s" and "data_cluster s c" and "40 * k + length bs \<le> sb_bpc s"
  shows "geometry (put_slot s c k bs)" and "synced s \<Longrightarrow> synced (put_slot s c k bs)"
    and "cluster_data (put_slot s c k bs) c = splice (cluster_data s c) (40 * k) bs"
    and "data_cluster s d \<Longrightarrow> d \<noteq> c \<Longrightarrow> cluster_data (put_slot s c k bs) d = cluster_data s d"
proof -
  have "length (splice (cluster_data s c) (40 * k) bs) = sb_bpc s" using assms by simp
  then show "geometry (put_slot s c k bs)" "synced s \<Longrightarrow> synced (put_slot s c k bs)"
    "cluster_data (put_slot s c k bs) c = splice (cluster_data s c) (40 * k) bs"
    "data_cluster s d \<Longrightarrow> d \<noteq> c \<Longrightarrow> cluster_data (put_slot s c k bs) d = cluster_data s d"
    using assms unfolding put_slot_def
    by (auto simp: synced_put_data clusters.get_put_same clusters.get_put_other)
qed

lemma alloc_inv_put_slot:
  assumes "alloc_inv s fl cls" and "data_cluster s c" and "40 * k + length bs \<le> sb_bpc s"
  shows "alloc_inv (put_slot s c k bs) fl cls"
  using assms put_slot_ok(1,2) [OF alloc_invD(1) [OF assms(1)] assms(2,3)]
  by (simp add: alloc_inv_def free_list_def)

text \<open>What slot \<open>k\<close> of a cluster reads as, after the write.\<close>

definition slot_after :: "fs \<Rightarrow> u32 \<Rightarrow> nat \<Rightarrow> byte list \<Rightarrow> fat_dir_entry" where
  "slot_after s c k bs = read_slot s (splice (cluster_data s c) (40 * k) bs) (40 * k)"

lemma cluster_slots_put_slot:
  assumes "geometry s" and "data_cluster s c" and "k < slot_count s"
    and "40 * k + length bs \<le> sb_bpc s" and "length bs \<le> 40"
  shows "cluster_slots (put_slot s c k bs) c = (cluster_slots s c)[k := slot_after s c k bs]"
proof (rule nth_equalityI)
  show "length (cluster_slots (put_slot s c k bs) c) =
      length ((cluster_slots s c)[k := slot_after s c k bs])"
    by (simp add: slot_count_def)
next
  fix i assume "i < length (cluster_slots (put_slot s c k bs) c)"
  then have i: "i < slot_count s" by (simp add: slot_count_def)
  have data: "cluster_data (put_slot s c k bs) c = splice (cluster_data s c) (40 * k) bs"
    using assms by (intro put_slot_ok)
  have rs: "read_slot (put_slot s c k bs) = read_slot s" by (rule read_slot_cong) simp
  have l: "cluster_slots (put_slot s c k bs) c ! i =
      read_slot s (splice (cluster_data s c) (40 * k) bs) (40 * i)"
    using i by (subst nth_cluster_slots) (simp_all add: data rs slot_count_def)
  show "cluster_slots (put_slot s c k bs) c ! i =
      (cluster_slots s c)[k := slot_after s c k bs] ! i"
  proof (cases "i = k")
    case True
    with i l show ?thesis by (simp add: slot_after_def)
  next
    case False
    have "read_slot s (splice (cluster_data s c) (40 * k) bs) (40 * i) =
        read_slot s (cluster_data s c) (40 * i)"
      using assms False by (intro read_slot_splice_other) auto
    with False i l show ?thesis by (simp add: nth_cluster_slots)
  qed
qed

lemma dir_slots_put_slot:
  assumes "geometry s" and "\<forall>c \<in> set cs. data_cluster s c" and "distinct cs"
    and "j < length cs" and "k < slot_count s"
    and "40 * k + length bs \<le> sb_bpc s" and "length bs \<le> 40"
  shows "dir_slots (put_slot s (cs ! j) k bs) cs =
    (dir_slots s cs)[j * slot_count s + k := slot_after s (cs ! j) k bs]"
proof -
  let ?t = "put_slot s (cs ! j) k bs"
  have j: "data_cluster s (cs ! j)" using assms(2,4) by simp
  have "map (cluster_slots ?t) cs =
      (map (cluster_slots s) cs)[j := (cluster_slots s (cs ! j))[k := slot_after s (cs ! j) k bs]]"
  proof (rule nth_equalityI)
    fix i assume "i < length (map (cluster_slots ?t) cs)"
    then have i: "i < length cs" by simp
    show "map (cluster_slots ?t) cs ! i =
      (map (cluster_slots s) cs)[j := (cluster_slots s (cs ! j))[k := slot_after s (cs ! j) k bs]] ! i"
    proof (cases "i = j")
      case True
      with i show ?thesis
        using cluster_slots_put_slot [OF assms(1) j assms(5-7)] by simp
    next
      case False
      then have "cs ! i \<noteq> cs ! j" using assms(3,4) i by (simp add: nth_eq_iff_index_eq)
      then have "cluster_data ?t (cs ! i) = cluster_data s (cs ! i)"
        using assms i j by (intro put_slot_ok) auto
      then have "cluster_slots ?t (cs ! i) = cluster_slots s (cs ! i)"
        by (rule cluster_slots_cong) auto
      with i False show ?thesis by simp
    qed
  qed simp
  then show ?thesis
    unfolding dir_slots_def using assms(4,5)
    by (simp add: concat_update [where xss = "map (cluster_slots s) cs", symmetric])
qed

lemma dir_slots_nth:
  assumes "j < length cs" and "k < slot_count s"
  shows "dir_slots s cs ! (j * slot_count s + k) = cluster_slots s (cs ! j) ! k"
    and "j * slot_count s + k < length (dir_slots s cs)"
  using nth_concat_equal [of "map (cluster_slots s) cs" "slot_count s" j k] assms
  by (auto simp: dir_slots_def)

text \<open>A directory in a chain that does not hold the written cluster is not changed.\<close>

lemma dir_slots_frame:
  assumes "\<And>c. c \<in> set cs \<Longrightarrow> cluster_data t c = cluster_data s c"
    and "heap_tail t = heap_tail s"
    and "byte_per_cluster (superblock t) = byte_per_cluster (superblock s)"
  shows "dir_slots t cs = dir_slots s cs"
  unfolding dir_slots_def
  by (rule arg_cong [where f = concat], rule map_cong [OF refl])
    (simp add: cluster_slots_def assms read_slot_cong [OF assms(2)])

end
