(* ===== verification/Fat_Dir_Correct.thy ===== *)
theory Fat_Dir_Correct
  imports Fat_Dir
begin

text \<open>
  What the directory operations of \<open>Fat_Dir\<close> do to a directory, seen as the list of its slots:
  updating and removing an entry, adding one, testing for emptiness and listing. A directory
  is well-formed (\<open>dir_ok\<close>) when every name is terminated and the slot that crosses the end
  of a cluster is unused; then no result depends on the bytes behind the cluster buffer.
\<close>

section \<open>Positions of entries\<close>

definition first_at :: "fs \<Rightarrow> u32 list \<Rightarrow> (fat_dir_entry \<Rightarrow> bool) \<Rightarrow> nat \<Rightarrow> nat \<Rightarrow> bool" where
  "first_at s cs P j k \<longleftrightarrow>
     j < length cs \<and> k < slot_count s \<and> P (cluster_slots s (cs ! j) ! k) \<and>
     (\<forall>i < j. \<forall>l < slot_count s. \<not> P (cluster_slots s (cs ! i) ! l)) \<and>
     (\<forall>l < k. \<not> P (cluster_slots s (cs ! j) ! l))"

lemma first_at_0:
  "first_at s (c # cs) P 0 k \<longleftrightarrow>
     k < slot_count s \<and> P (cluster_slots s c ! k) \<and> (\<forall>l < k. \<not> P (cluster_slots s c ! l))"
  by (auto simp: first_at_def)

lemma first_at_Suc:
  "first_at s (c # cs) P (Suc j) k \<longleftrightarrow>
     (\<forall>l < slot_count s. \<not> P (cluster_slots s c ! l)) \<and> first_at s cs P j k"
  by (auto simp: first_at_def All_less_Suc2)

lemma find_slots_Some:
  assumes "k < slot_count s" and "P (cluster_slots s c ! k)"
    and "\<forall>l < k. \<not> P (cluster_slots s c ! l)"
  shows "List.find (\<lambda>off. P (read_slot s (cluster_data s c) off)) (slots_from 0 (sb_bpc s)) =
    Some (40 * k)"
  unfolding find_Some_iff using assms
  by (intro exI [of _ k]) (auto simp: nth_cluster_slots)

lemma find_slots_None:
  assumes "\<forall>l < slot_count s. \<not> P (cluster_slots s c ! l)"
  shows "List.find (\<lambda>off. P (read_slot s (cluster_data s c) off)) (slots_from 0 (sb_bpc s)) = None"
  unfolding find_None_iff using assms by (auto simp: slots_from_0 nth_cluster_slots)

lemma find_first_at:
  assumes "List.find P (dir_slots s cs) = Some e"
  shows "\<exists>j k. first_at s cs P j k \<and> cluster_slots s (cs ! j) ! k = e"
  using assms
proof (induction cs)
  case (Cons c cs)
  show ?case
  proof (cases "List.find P (cluster_slots s c)")
    case (Some e')
    then obtain k where "k < slot_count s" "P (cluster_slots s c ! k)" "e' = cluster_slots s c ! k"
      "\<forall>l < k. \<not> P (cluster_slots s c ! l)"
      by (auto simp: find_Some_iff)
    with Some Cons.prems show ?thesis
      by (intro exI [of _ 0] exI [of _ k]) (simp add: first_at_0 find_append)
  next
    case None
    with Cons obtain j k where "first_at s cs P j k" "cluster_slots s (cs ! j) ! k = e"
      by (auto simp: find_append)
    moreover from None have "\<forall>l < slot_count s. \<not> P (cluster_slots s c ! l)"
      by (simp add: find_None_iff)
    ultimately show ?thesis
      by (intro exI [of _ "Suc j"] exI [of _ k]) (simp add: first_at_Suc)
  qed
qed simp

text \<open>The position of the first hit in the list of all slots.\<close>

lemma first_at_index:
  assumes "first_at s cs P j k"
  shows "\<forall>i < j * slot_count s + k. \<not> P (dir_slots s cs ! i)"
proof (intro allI impI)
  fix i assume i: "i < j * slot_count s + k"
  have k: "k < slot_count s" "j < length cs" using assms by (auto simp: first_at_def)
  then have n: "0 < slot_count s" by simp
  let ?a = "i div slot_count s" and ?b = "i mod slot_count s"
  have ib: "i = ?a * slot_count s + ?b" "?b < slot_count s" using n by auto
  have a: "?a \<le> j"
  proof (rule ccontr)
    assume "\<not> ?a \<le> j"
    then have "Suc j * slot_count s \<le> ?a * slot_count s" by (intro mult_le_mono1) simp
    then show False using i k(1) ib(1) by (simp add: add.commute)
  qed
  have "dir_slots s cs ! i = cluster_slots s (cs ! ?a) ! ?b"
    using dir_slots_nth(1) [of ?a cs ?b s] a k ib by simp
  moreover have "?a < j \<or> ?a = j \<and> ?b < k"
    using a i ib(1) by (cases "?a = j") auto
  ultimately show "\<not> P (dir_slots s cs ! i)"
    using assms ib(2) by (auto simp: first_at_def)
qed

section \<open>Well-formed directories\<close>

definition slot_ok :: "fs \<Rightarrow> u32 \<Rightarrow> nat \<Rightarrow> bool" where
  "slot_ok s c k \<longleftrightarrow>
     0 \<in> set (de_name (cluster_slots s c ! k)) \<and>
     (sb_bpc s < 40 * k + 40 \<longrightarrow> de_name (cluster_slots s c ! k) ! 0 = 0)"

definition dir_ok :: "fs \<Rightarrow> u32 list \<Rightarrow> bool" where
  "dir_ok s cs \<longleftrightarrow> (\<forall>c \<in> set cs. \<forall>k < slot_count s. slot_ok s c k)"

lemma dir_okD:
  assumes "dir_ok s cs" and "j < length cs" and "k < slot_count s"
  shows "0 \<in> set (de_name (cluster_slots s (cs ! j) ! k))"
    and "de_name (cluster_slots s (cs ! j) ! k) ! 0 \<noteq> 0 \<Longrightarrow> 40 * k + 40 \<le> sb_bpc s"
proof -
  have "slot_ok s (cs ! j) k" using assms by (simp add: dir_ok_def)
  then show "0 \<in> set (de_name (cluster_slots s (cs ! j) ! k))"
    "de_name (cluster_slots s (cs ! j) ! k) ! 0 \<noteq> 0 \<Longrightarrow> 40 * k + 40 \<le> sb_bpc s"
    by (auto simp: slot_ok_def not_less [symmetric])
qed

lemma slot_count_cong: "superblock t = superblock s \<Longrightarrow> slot_count t = slot_count s"
  by (simp add: slot_count_def)

lemma dir_ok_put_slot:
  assumes "geometry s" and "\<forall>c \<in> set cs. data_cluster s c" and "dir_ok s cs"
    and "c \<in> set cs" and "k < slot_count s"
    and "40 * k + length bs \<le> sb_bpc s" and "length bs \<le> 40"
    and "0 \<in> set (de_name (slot_after s c k bs))"
    and "sb_bpc s < 40 * k + 40 \<Longrightarrow> de_name (slot_after s c k bs) ! 0 = 0"
  shows "dir_ok (put_slot s c k bs) cs"
  unfolding dir_ok_def
proof (intro ballI allI impI)
  fix d l assume d: "d \<in> set cs" and "l < slot_count (put_slot s c k bs)"
  then have l: "l < slot_count s" by (simp add: slot_count_def)
  let ?t = "put_slot s c k bs"
  have c: "data_cluster s c" using assms(2,4) by simp
  have old: "slot_ok s d l" using assms(3) d l by (simp add: dir_ok_def)
  show "slot_ok ?t d l"
  proof (cases "d = c")
    case True
    have "cluster_slots ?t c = (cluster_slots s c)[k := slot_after s c k bs]"
      using assms(1) c assms(5-7) by (rule cluster_slots_put_slot)
    with True old l assms(5,8,9) show ?thesis
      by (cases "l = k") (auto simp: slot_ok_def)
  next
    case False
    then have "cluster_slots ?t d = cluster_slots s d"
      using assms(1,2,6) c d by (intro cluster_slots_cong put_slot_ok) auto
    with old show ?thesis by (simp add: slot_ok_def)
  qed
qed

lemma dir_ok_frame:
  assumes "\<And>c. c \<in> set cs \<Longrightarrow> cluster_data t c = cluster_data s c"
    and "heap_tail t = heap_tail s"
    and "byte_per_cluster (superblock t) = byte_per_cluster (superblock s)"
  shows "dir_ok t cs = dir_ok s cs"
proof -
  have "cluster_slots t c = cluster_slots s c" if "c \<in> set cs" for c
    using that by (simp add: cluster_slots_def assms read_slot_cong [OF assms(2)])
  then show ?thesis by (simp add: dir_ok_def slot_ok_def slot_count_def assms(3))
qed

section \<open>Updating and removing an entry\<close>

lemma slot_after_entry:
  assumes "geometry s" and "data_cluster s c" and "40 * k + 40 \<le> sb_bpc s"
    and "length (de_name e) = 22"
  shows "slot_after s c k (enc_dir_entry e) = e"
  unfolding slot_after_def using assms by (intro read_slot_splice_same) auto

lemma slot_after_erased:
  assumes "geometry s" and "data_cluster s c" and "k < slot_count s"
  shows "de_name (slot_after s c k [0]) ! 0 = 0"
  unfolding slot_after_def
  using assms slot_inside [OF assms(3)] by (subst slot_name_0) (auto simp: nth_splice)

lemma entry_name_erased:
  "geometry s \<Longrightarrow> data_cluster s c \<Longrightarrow> k < slot_count s \<Longrightarrow> entry_name (slot_after s c k [0]) = []"
  using slot_after_erased [of s c k] by (simp add: entry_name_Nil slot_after_def)

lemma update_entry_loop_ok:
  assumes "geometry s" and "0 \<notin> set nm" and "length nm < 22" and "de_name e = nm @ 0 # rest"
    and "length (de_name e) = 22"
    and "rm \<or> 40 * k + 40 \<le> sb_bpc s"
    and "chain s c cs" and "c \<noteq> 0" and "length cs \<le> n"
    and "first_at s cs (\<lambda>e. entry_name e = nm) j k"
  shows "update_entry_loop n c e rm s =
    Inr (0, put_slot s (cs ! j) k (if rm then [0] else enc_dir_entry e))"
  using assms(7-)
proof (induction n arbitrary: c cs j)
  case 0
  then show ?case using chain_nonempty by fastforce
next
  case (Suc n)
  then obtain xs where cs: "cs = c # xs" using chain_nonempty by (metis list.collapse)
  with Suc.prems have c: "data_cluster s c" and xs: "chain s (fat_next s c) xs"
    by (auto simp: chain_Cons)
  have rd: "read_entire_cluster_from_disk s c = Inr (0, cluster_data s c)"
    "read_fat_entry s c = Inr (fat_next s c)"
    using assms(1) c by (auto simp: read_entire_cluster_ok read_fat_entry_ok)
  have len: "length (cluster_data s c) = sb_bpc s" using assms(1) c by simp
  note hit = find_slot_ok [OF assms(2,3), where rest = rest]
  show ?case
  proof (cases j)
    case 0
    with Suc.prems(4) cs have f: "k < slot_count s" "entry_name (cluster_slots s c ! k) = nm"
      "\<forall>l < k. entry_name (cluster_slots s c ! l) \<noteq> nm" by (auto simp: first_at_0)
    note found = find_slots_Some [OF f(1), of "\<lambda>e. entry_name e = nm" c, OF f(2,3)]
    have "write_cluster_to_disk (splice (cluster_data s c) (40 * k) bs) c s =
        Inr (0, put_slot s c k bs)" if "40 * k + length bs \<le> sb_bpc s" for bs
      using assms(1) c len that by (simp add: write_cluster_ok put_slot_def)
    then show ?thesis
      using 0 cs rd hit found assms(4,5,6) len slot_inside [OF f(1)]
      by (auto simp: write_slot_def dir_codec.enc_len)
  next
    case (Suc j')
    with Suc.prems(4) cs have f: "\<forall>l < slot_count s. entry_name (cluster_slots s c ! l) \<noteq> nm"
      "first_at s xs (\<lambda>e. entry_name e = nm) j' k" by (auto simp: first_at_Suc)
    then have ne: "fat_next s c \<noteq> 0" using xs by (auto simp: first_at_def)
    have "update_entry_loop n (fat_next s c) e rm s =
        Inr (0, put_slot s (xs ! j') k (if rm then [0] else enc_dir_entry e))"
      using xs ne Suc.prems cs f by (intro Suc.IH) auto
    with Suc cs rd hit ne find_slots_None [of s "\<lambda>e. entry_name e = nm" c] f(1) assms(4)
    show ?thesis by (simp add: END_OF_CHAIN_def)
  qed
qed

lemma update_entry_loop_none:
  assumes "geometry s" and "0 \<notin> set nm" and "length nm < 22" and "de_name e = nm @ 0 # rest"
    and "chain s c cs" and "c \<noteq> 0" and "length cs \<le> n" and "dir_lookup s cs nm = None"
  shows "update_entry_loop n c e rm s = Inr (-1, s)"
  using assms(5-)
proof (induction n arbitrary: c cs)
  case 0
  then show ?case using chain_nonempty by fastforce
next
  case (Suc n)
  then obtain xs where cs: "cs = c # xs" using chain_nonempty by (metis list.collapse)
  with Suc.prems have c: "data_cluster s c" and xs: "chain s (fat_next s c) xs"
    by (auto simp: chain_Cons)
  have rd: "read_entire_cluster_from_disk s c = Inr (0, cluster_data s c)"
    "read_fat_entry s c = Inr (fat_next s c)"
    using assms(1) c by (auto simp: read_entire_cluster_ok read_fat_entry_ok)
  have none: "List.find (\<lambda>e. entry_name e = nm) (cluster_slots s c) = None"
    "dir_lookup s xs nm = None"
    using Suc.prems(4) cs by (auto simp: dir_lookup_Cons split: option.splits)
  then have miss: "find_slot s (cluster_data s c) (de_name e) (slots_from 0 (sb_bpc s)) = Inr None"
    using find_slot_ok [OF assms(2,3), where rest = rest] assms(4)
    by (simp add: find_cluster_slots)
  show ?case
  proof (cases "fat_next s c = 0")
    case True
    with rd miss show ?thesis by (simp add: END_OF_CHAIN_def)
  next
    case False
    then have "update_entry_loop n (fat_next s c) e rm s = Inr (-1, s)"
      using Suc.prems cs none by (intro Suc.IH [OF xs]) auto
    with rd miss False show ?thesis by (simp add: END_OF_CHAIN_def)
  qed
qed

lemma dir_lookup_position:
  assumes "dir_lookup s cs nm = Some e"
  shows "\<exists>j k. first_at s cs (\<lambda>e. entry_name e = nm) j k \<and> cluster_slots s (cs ! j) ! k = e"
  using find_first_at assms unfolding dir_lookup_def by blast

lemma dir_lookup_name: "dir_lookup s cs nm = Some e \<Longrightarrow> entry_name e = nm"
  by (auto simp: dir_lookup_def find_Some_iff)

lemma dir_lookup_slot:
  assumes "dir_ok s cs" and "dir_lookup s cs nm = Some e"
  shows "0 \<in> set (de_name e)" and "length (de_name e) = 22" and "0 \<notin> set nm" and "length nm < 22"
    and "\<exists>rest. de_name e = nm @ 0 # rest"
proof -
  obtain j k where p: "first_at s cs (\<lambda>e. entry_name e = nm) j k" "cluster_slots s (cs ! j) ! k = e"
    using dir_lookup_position [OF assms(2)] by blast
  then have jk: "j < length cs" "k < slot_count s" by (auto simp: first_at_def)
  show z: "0 \<in> set (de_name e)" using dir_okD(1) [OF assms(1) jk] p(2) by simp
  show l: "length (de_name e) = 22" using p(2) jk(2) by (auto simp: nth_cluster_slots)
  note n = entry_name_terminated [OF z] and nm = dir_lookup_name [OF assms(2)]
  show "0 \<notin> set nm" "length nm < 22" "\<exists>rest. de_name e = nm @ 0 # rest"
    using n nm l by auto
qed

text \<open>Names occur at most once.\<close>

definition unique_names :: "fs \<Rightarrow> u32 list \<Rightarrow> bool" where
  "unique_names s cs \<longleftrightarrow>
     (\<forall>i < length (dir_slots s cs). \<forall>j < length (dir_slots s cs).
        entry_name (dir_slots s cs ! i) = entry_name (dir_slots s cs ! j) \<longrightarrow>
        entry_name (dir_slots s cs ! i) \<noteq> [] \<longrightarrow> i = j)"

lemma unique_names_update:
  assumes "unique_names s cs" and "dir_slots t cs = (dir_slots s cs)[i := e]"
    and "i < length (dir_slots s cs)"
    and "entry_name e = [] \<or> entry_name e = entry_name (dir_slots s cs ! i) \<or>
      dir_lookup s cs (entry_name e) = None"
  shows "unique_names t cs"
proof -
  have other: "entry_name (dir_slots s cs ! l) \<noteq> entry_name e"
    if "l < length (dir_slots s cs)" "l \<noteq> i" "entry_name e \<noteq> []" for l
    using assms that unfolding unique_names_def dir_lookup_def find_None_iff by (metis nth_mem)
  show ?thesis
    unfolding unique_names_def assms(2)
  proof (intro allI impI)
    fix a b
    assume "a < length ((dir_slots s cs)[i := e])" "b < length ((dir_slots s cs)[i := e])"
      and eq: "entry_name ((dir_slots s cs)[i := e] ! a) = entry_name ((dir_slots s cs)[i := e] ! b)"
      and ne: "entry_name ((dir_slots s cs)[i := e] ! a) \<noteq> []"
    then have ab: "a < length (dir_slots s cs)" "b < length (dir_slots s cs)" by auto
    consider "a = i" "b = i" | "a = i" "b \<noteq> i" | "a \<noteq> i" "b = i" | "a \<noteq> i" "b \<noteq> i" by auto
    then show "a = b"
    proof cases
      case 2
      then show ?thesis using other [OF ab(2)] eq ne ab by simp
    next
      case 3
      then show ?thesis using other [OF ab(1)] eq ne ab by simp
    next
      case 4
      then show ?thesis using eq ne ab assms(1) unfolding unique_names_def by simp
    qed simp
  qed
qed

text \<open>
  The update of an entry that the directory has: the call succeeds, the name then maps to the
  new entry, no other name changes, and the directory stays well-formed.
\<close>

lemma update_dir_entry_ok:
  assumes "geometry s" and "chain s c cs" and "c \<noteq> 0" and "dir_ok s cs"
    and "dir_lookup s cs nm = Some old" and "nm \<noteq> []" and "de_name e = de_name old"
  shows "\<exists>j k. j < length cs \<and> k < slot_count s \<and> 40 * k + 40 \<le> sb_bpc s \<and>
    update_dir_entry c e False s = Inr (0, put_slot s (cs ! j) k (enc_dir_entry e)) \<and>
    dir_lookup (put_slot s (cs ! j) k (enc_dir_entry e)) cs nm = Some e \<and>
    (\<forall>nm'. nm' \<noteq> nm \<longrightarrow>
       dir_lookup (put_slot s (cs ! j) k (enc_dir_entry e)) cs nm' = dir_lookup s cs nm') \<and>
    dir_ok (put_slot s (cs ! j) k (enc_dir_entry e)) cs \<and>
    dir_slots s cs ! (j * slot_count s + k) = old \<and>
    dir_slots (put_slot s (cs ! j) k (enc_dir_entry e)) cs =
      (dir_slots s cs)[j * slot_count s + k := e] \<and>
    (unique_names s cs \<longrightarrow> unique_names (put_slot s (cs ! j) k (enc_dir_entry e)) cs)"
proof -
  obtain j k where p: "first_at s cs (\<lambda>e. entry_name e = nm) j k" "cluster_slots s (cs ! j) ! k = old"
    using dir_lookup_position [OF assms(5)] by blast
  then have jk: "j < length cs" "k < slot_count s" by (auto simp: first_at_def)
  note old = dir_lookup_slot [OF assms(4,5)]
  then obtain rest where rest: "de_name e = nm @ 0 # rest" using assms(7) by auto
  have len: "length (de_name e) = 22" using old(2) assms(7) by simp
  have "de_name old ! 0 \<noteq> 0"
    using dir_lookup_name [OF assms(5)] assms(6) entry_name_Nil [OF old(2)] by simp
  then have fits: "40 * k + 40 \<le> sb_bpc s" using dir_okD(2) [OF assms(4) jk] p(2) by simp
  let ?b = "enc_dir_entry e" and ?t = "put_slot s (cs ! j) k (enc_dir_entry e)"
  have b: "length ?b = 40" using len by (rule dir_codec.enc_len)
  have dat: "\<forall>c \<in> set cs. data_cluster s c" using assms(2) by (simp add: chain_def)
  have j: "data_cluster s (cs ! j)" using dat jk by simp
  have upd: "update_dir_entry c e False s = Inr (0, ?t)"
    unfolding update_dir_entry_def
    using update_entry_loop_ok [OF assms(1) old(3,4) rest len _ assms(2,3) _ p(1), of False]
      chain_length(2) [OF assms(1,2)] fits by simp
  let ?i = "j * slot_count s + k"
  have slots: "dir_slots ?t cs = (dir_slots s cs)[?i := e]"
    using dir_slots_put_slot [OF assms(1) dat chain_distinct [OF assms(2)] jk, of ?b] b fits
      slot_after_entry [OF assms(1) j fits len] by simp
  have name: "entry_name e = nm" using dir_lookup_name [OF assms(5)] assms(7) by (simp add: entry_name_def)
  have at: "dir_slots s cs ! ?i = old" "?i < length (dir_slots s cs)"
    using dir_slots_nth [OF jk] p(2) by auto
  have "dir_lookup ?t cs nm = Some e"
    unfolding dir_lookup_def slots
    using at(2) first_at_index [OF p(1)] name by (intro find_update_first) auto
  moreover have "dir_lookup ?t cs nm' = dir_lookup s cs nm'" if "nm' \<noteq> nm" for nm'
    unfolding dir_lookup_def slots
    using at dir_lookup_name [OF assms(5)] name that by (intro find_update_other) auto
  moreover have "dir_ok ?t cs"
    using assms(1,4) dat jk b fits old(1) assms(7) slot_after_entry [OF assms(1) j fits len]
    by (intro dir_ok_put_slot) auto
  moreover have "unique_names ?t cs" if "unique_names s cs"
    using that slots at(2) by (rule unique_names_update)
      (use at(1) name dir_lookup_name [OF assms(5)] in simp)
  ultimately show ?thesis
    using jk fits upd at(1) slots
    by (intro exI [of _ j] exI [of _ k] conjI allI impI) (assumption | simp only: simp_thms)+
qed

lemma remove_dir_entry_ok:
  assumes "geometry s" and "chain s c cs" and "c \<noteq> 0" and "dir_ok s cs" and "unique_names s cs"
    and "dir_lookup s cs nm = Some e" and "nm \<noteq> []"
  shows "\<exists>j k. j < length cs \<and> k < slot_count s \<and>
    update_dir_entry c e True s = Inr (0, put_slot s (cs ! j) k [0]) \<and>
    dir_lookup (put_slot s (cs ! j) k [0]) cs nm = None \<and>
    (\<forall>nm'. nm' \<noteq> nm \<longrightarrow> nm' \<noteq> [] \<longrightarrow>
       dir_lookup (put_slot s (cs ! j) k [0]) cs nm' = dir_lookup s cs nm') \<and>
    dir_ok (put_slot s (cs ! j) k [0]) cs \<and> unique_names (put_slot s (cs ! j) k [0]) cs \<and>
    dir_slots s cs ! (j * slot_count s + k) = e \<and>
    dir_slots (put_slot s (cs ! j) k [0]) cs =
      (dir_slots s cs)[j * slot_count s + k := slot_after s (cs ! j) k [0]] \<and>
    entry_name (slot_after s (cs ! j) k [0]) = []"
proof -
  obtain j k where p: "first_at s cs (\<lambda>e. entry_name e = nm) j k" "cluster_slots s (cs ! j) ! k = e"
    using dir_lookup_position [OF assms(6)] by blast
  then have jk: "j < length cs" "k < slot_count s" by (auto simp: first_at_def)
  note ent = dir_lookup_slot [OF assms(4,6)]
  then obtain rest where rest: "de_name e = nm @ 0 # rest" by auto
  let ?t = "put_slot s (cs ! j) k [0]" and ?e = "slot_after s (cs ! j) k [0]"
  have dat: "\<forall>c \<in> set cs. data_cluster s c" using assms(2) by (simp add: chain_def)
  have j: "data_cluster s (cs ! j)" using dat jk by simp
  have room: "40 * k + length [0 :: byte] \<le> sb_bpc s" using slot_inside [OF jk(2)] by simp
  have upd: "update_dir_entry c e True s = Inr (0, ?t)"
    unfolding update_dir_entry_def
    using update_entry_loop_ok [OF assms(1) ent(3,4) rest ent(2) _ assms(2,3) _ p(1), of True]
      chain_length(2) [OF assms(1,2)] by simp
  let ?i = "j * slot_count s + k"
  have slots: "dir_slots ?t cs = (dir_slots s cs)[?i := ?e]"
    using assms(1) dat chain_distinct [OF assms(2)] jk room by (intro dir_slots_put_slot) auto
  have name: "entry_name ?e = []" by (rule entry_name_erased [OF assms(1) j jk(2)])
  have at: "dir_slots s cs ! ?i = e" "?i < length (dir_slots s cs)"
    using dir_slots_nth [OF jk] p(2) by auto
  note en = dir_lookup_name [OF assms(6)]
  have "dir_lookup ?t cs nm = None"
    unfolding dir_lookup_def slots
  proof (rule find_update_none [OF at(2)])
    show "\<forall>i < length (dir_slots s cs). i \<noteq> ?i \<longrightarrow> entry_name (dir_slots s cs ! i) \<noteq> nm"
      using assms(5,7) at en unfolding unique_names_def by metis
  qed (use name assms(7) in simp)
  moreover have "dir_lookup ?t cs nm' = dir_lookup s cs nm'" if "nm' \<noteq> nm" "nm' \<noteq> []" for nm'
    unfolding dir_lookup_def slots
    using at en name that by (intro find_update_other) auto
  moreover have "dir_ok ?t cs"
  proof (rule dir_ok_put_slot [OF assms(1) dat assms(4) _ jk(2) room])
    have l: "length (de_name ?e) = 22" by (simp add: slot_after_def)
    show z: "de_name ?e ! 0 = 0" using assms(1) j jk(2) by (rule slot_after_erased)
    show "0 \<in> set (de_name ?e)" using z l by (metis nth_mem zero_less_numeral)
  qed (use jk in auto)
  moreover have "unique_names ?t cs"
    using assms(5) slots at(2) by (rule unique_names_update) (simp add: name)
  ultimately show ?thesis
    using jk upd at(1) slots name
    by (intro exI [of _ j] exI [of _ k] conjI allI impI) (assumption | simp only: simp_thms)+
qed

section \<open>Adding an entry\<close>

abbreviation slot_free :: "fat_dir_entry \<Rightarrow> bool" where
  "slot_free e \<equiv> de_name e ! 0 = 0"

lemma data_cluster_guard:
  assumes "geometry s" and "data_cluster s c"
  shows "1 + cluster_per_fat (superblock s) \<le> c \<and> c < cluster_count (superblock s)"
  using assms geometryD(5) [OF assms(1)] unat_u32_bound [of "cluster_count (superblock s)"]
  by (simp add: data_cluster_def word_le_nat_alt word_less_nat_alt unat_word_ariths)

lemma find_free_slot_Some:
  assumes "k < slot_count s" and "slot_free (cluster_slots s c ! k)"
    and "\<forall>l < k. \<not> slot_free (cluster_slots s c ! l)"
  shows "find_free_slot s (cluster_data s c) = Some (40 * k)"
  unfolding find_free_slot_def using assms by (rule find_slots_Some)

lemma find_free_slot_None:
  "\<forall>l < slot_count s. \<not> slot_free (cluster_slots s c ! l) \<Longrightarrow>
   find_free_slot s (cluster_data s c) = None"
  unfolding find_free_slot_def by (rule find_slots_None)

lemma name_ok_guard: "name_ok nm \<Longrightarrow> \<not> (length nm > DIR_ENTRY_MAX_NAME_LEN \<or> length nm = 0)"
  by (auto simp: name_ok_def)

text \<open>Clusters without a free slot are passed over.\<close>

lemma add_entry_loop_skip:
  assumes "geometry s" and "data_cluster s first" and "name_ok nm"
    and "chain s c cs" and "j < length cs" and "length cs \<le> n"
    and "\<forall>i < j. \<forall>l < slot_count s. \<not> slot_free (cluster_slots s (cs ! i) ! l)"
  shows "add_entry_loop n c nm first typ s = add_entry_loop (n - j) (cs ! j) nm first typ s"
  using assms(4-)
proof (induction j arbitrary: n c cs)
  case 0
  then show ?case by (cases cs) (auto simp: chain_Cons)
next
  case (Suc j)
  then obtain xs where cs: "cs = c # xs" by (cases cs) (auto simp: chain_Cons)
  with Suc.prems have c: "data_cluster s c" and xs: "chain s (fat_next s c) xs" "j < length xs"
    by (auto simp: chain_Cons)
  obtain m where n: "n = Suc m" using Suc.prems(3) cs by (cases n) auto
  have ne: "fat_next s c \<noteq> 0" using xs by auto
  have "find_free_slot s (cluster_data s c) = None"
    using Suc.prems(4) cs by (intro find_free_slot_None) auto
  then have "add_entry_loop n c nm first typ s = add_entry_loop m (fat_next s c) nm first typ s"
    using n ne assms(1,2) c name_ok_guard [OF assms(3)] data_cluster_guard [OF assms(1,2)]
    by (simp add: read_entire_cluster_ok read_fat_entry_ok)
  also have "\<dots> = add_entry_loop (m - j) (xs ! j) nm first typ s"
    using Suc.prems(3,4) cs n by (intro Suc.IH [OF xs]) auto
  finally show ?case using cs n by simp
qed

lemma length_new_entry [simp]: "length (de_name (new_dir_entry s nm c t)) = 22"
  by (simp add: new_dir_entry_def DIR_ENTRY_MAX_NAME_LEN_def)

lemma add_entry_at:
  assumes "geometry s" and "data_cluster s first" and "name_ok nm"
    and "chain s c cs" and "first_at s cs slot_free j k"
  shows "add_dir_entry_to_cluster c nm first typ s =
    (if 40 * k + 40 \<le> sb_bpc s
     then Inr (0, put_slot s (cs ! j) k (enc_dir_entry (new_dir_entry s nm first typ)))
     else Inl Out_of_bounds)"
proof -
  have f: "j < length cs" "k < slot_count s" "slot_free (cluster_slots s (cs ! j) ! k)"
    "\<forall>i < j. \<forall>l < slot_count s. \<not> slot_free (cluster_slots s (cs ! i) ! l)"
    "\<forall>l < k. \<not> slot_free (cluster_slots s (cs ! j) ! l)"
    using assms(5) by (auto simp: first_at_def)
  have j: "data_cluster s (cs ! j)" using assms(4) f(1) by (intro chain_data) auto
  let ?e = "new_dir_entry s nm first typ"
  have e: "length (enc_dir_entry ?e) = 40" by (simp add: dir_codec.enc_len)
  have len: "length (cluster_data s (cs ! j)) = sb_bpc s" using assms(1) j by simp
  obtain m where m: "chain_fuel s - j = Suc m"
    using chain_length(2) [OF assms(1,4)] f(1) by (cases "chain_fuel s - j") auto
  have "add_dir_entry_to_cluster c nm first typ s = add_entry_loop (Suc m) (cs ! j) nm first typ s"
    unfolding add_dir_entry_to_cluster_def m [symmetric]
    using assms f chain_length(2) [OF assms(1,4)] by (intro add_entry_loop_skip) auto
  also have "\<dots> = write_slot (cluster_data s (cs ! j)) (40 * k) ?e (cs ! j) s"
    using assms(1,2) j name_ok_guard [OF assms(3)] data_cluster_guard [OF assms(1,2)]
    by (simp add: read_entire_cluster_ok find_free_slot_Some [OF f(2,3,5)])
  finally show ?thesis
    using e len assms(1) j by (simp add: write_slot_def poke_def write_cluster_ok put_slot_def)
qed

text \<open>A directory with no free slot grows by a cluster, if there is one.\<close>

lemma add_entry_full:
  assumes "geometry s" and "data_cluster s first" and "name_ok nm"
    and "chain s c cs" and "c \<noteq> 0" and "\<forall>e \<in> set (dir_slots s cs). \<not> slot_free e"
  shows "fat_next s (last cs) = 0"
    and "add_dir_entry_to_cluster c nm first typ s = (if \<not> has_free_cluster s then Inr (-1, s)
      else bind_res (add_free_cluster (last cs) s) (\<lambda>(c, s).
        write_slot (get_new_cluster s) 0 (new_dir_entry s nm first typ) c s))"
proof -
  have cs: "cs \<noteq> []" using chain_nonempty [OF assms(4,5)] by simp
  let ?j = "length cs - 1"
  have j: "?j < length cs" "cs ! ?j = last cs" using cs by (auto simp: last_conv_nth)
  have used: "\<not> slot_free (cluster_slots s (cs ! i) ! l)" if "i < length cs" "l < slot_count s" for i l
    using assms(6) dir_slots_nth [OF that] by (metis nth_mem)
  have l: "data_cluster s (last cs)" using assms(4,5) by (rule chain_last)
  show 0: "fat_next s (last cs) = 0"
    using assms(4) cs by (intro linked_last) (auto simp: chain_def)
  then have nx: "read_fat_entry s (last cs) = Inr 0" using read_fat_entry_ok [OF assms(1) l] by simp
  obtain m where m: "chain_fuel s - ?j = Suc m"
    using chain_length(2) [OF assms(1,4)] by (cases "chain_fuel s - ?j") auto
  have "add_dir_entry_to_cluster c nm first typ s = add_entry_loop (Suc m) (last cs) nm first typ s"
    unfolding add_dir_entry_to_cluster_def m [symmetric] j(2) [symmetric]
    using assms j used chain_length(2) [OF assms(1,4)] by (intro add_entry_loop_skip) auto
  also have "\<dots> = (if \<not> has_free_cluster s then Inr (-1, s)
      else bind_res (add_free_cluster (last cs) s) (\<lambda>(c, s).
        write_slot (get_new_cluster s) 0 (new_dir_entry s nm first typ) c s))"
    using assms(1) l nx name_ok_guard [OF assms(3)] data_cluster_guard [OF assms(1,2)]
      find_free_slot_None [of s "last cs"] used [OF j(1)] j(2)
    by (simp add: read_entire_cluster_ok)
  finally show "add_dir_entry_to_cluster c nm first typ s = \<dots>" .
qed

lemma add_entry_grow:
  assumes "geometry s" and "data_cluster s first" and "name_ok nm"
    and "chain s c cs" and "c \<noteq> 0" and "\<forall>e \<in> set (dir_slots s cs). \<not> slot_free e"
    and "free_list s fl" and "root_cluster_start (superblock s) \<notin> set fl"
    and "set cs \<inter> set fl = {}"
  shows "add_dir_entry_to_cluster c nm first typ s =
    (if fl = [] then Inr (-1, s)
     else Inr (0, put_slot (extended s fl 1 cs) (hd fl) 0
       (enc_dir_entry (new_dir_entry s nm first typ))))"
proof (cases "fl = []")
  case True
  then show ?thesis
    using add_entry_full(2) [OF assms(1-6)] has_free_cluster_iff [OF assms(1,7,8)] by simp
next
  case False
  let ?t = "extended s fl 1 cs" and ?e = "new_dir_entry s nm first typ"
  have l: "data_cluster s (last cs)" and cs: "cs \<noteq> []"
    using chain_last [OF assms(4,5)] chain_nonempty [OF assms(4,5)] by simp_all
  have n: "0 < (1 :: nat)" "1 \<le> length fl" using False by (auto simp: Suc_le_eq)
  have tail: "chain s (last cs) [last cs]" using l add_entry_full(1) [OF assms(1-6)] by (simp add: chain_Cons)
  have lfl: "set [last cs] \<inter> set fl = {}" using last_in_set [OF cs] assms(9) by auto
  have add: "add_free_cluster (last cs) s = Inr (hd fl, ?t)"
    using add_free_cluster_ok [OF assms(1,7) False tail data_cluster_not_0 [OF l]] lfl
    by (simp add: extended_def)
  note ext = extended_facts [OF assms(1,7) n assms(4,5,9)]
  have h: "data_cluster s (hd fl)" "hd fl \<in> set (take 1 fl)"
    using assms(7) False by (cases fl; auto simp: free_list_def chain_Cons)+
  have new: "get_new_cluster ?t = get_new_cluster s" by (rule new_cluster_cong) simp
  have data: "cluster_data ?t (hd fl) = get_new_cluster s" using ext(5) [OF h(1)] h(2) by simp
  have e: "new_dir_entry ?t nm first typ = ?e" by (simp add: new_dir_entry_def)
  have b: "length (enc_dir_entry ?e) = 40" by (simp add: dir_codec.enc_len)
  have bpc: "40 \<le> sb_bpc s" using geometryD(2) [OF assms(1)] by simp
  have "write_slot (get_new_cluster ?t) 0 ?e (hd fl) ?t =
      Inr (0, put_slot ?t (hd fl) 0 (enc_dir_entry ?e))"
    using ext(1) h(1) b bpc
    by (simp add: write_slot_def write_cluster_ok put_slot_def data new del: One_nat_def)
  then show ?thesis
    using False add_entry_full(2) [OF assms(1-6)] add has_free_cluster_iff [OF assms(1,7,8)]
    by (simp add: e del: One_nat_def)
qed

lemma add_entry_bad_name:
  assumes "geometry s" and "data_cluster s first"
    and "length nm > DIR_ENTRY_MAX_NAME_LEN \<or> nm = []"
  shows "add_dir_entry_to_cluster c nm first typ s = Inr (-1, s)"
  using assms data_cluster_guard [OF assms(1,2)]
  by (auto simp: add_dir_entry_to_cluster_def chain_fuel_def)

text \<open>
  The entry is found under its name afterwards, if the name was new; every other name is
  looked up as before, and the directory stays well-formed.
\<close>

lemma add_entry_lookup:
  fixes first :: u32 and ty :: u16
  assumes "geometry s" and "chain s c cs" and "dir_ok s cs" and "name_ok nm"
    and "first_at s cs slot_free j k" and "40 * k + 40 \<le> sb_bpc s" and "dir_lookup s cs nm = None"
  defines "e \<equiv> new_dir_entry s nm first ty"
  defines "t \<equiv> put_slot s (cs ! j) k (enc_dir_entry e)"
  shows "dir_lookup t cs nm = Some e"
    and "nm' \<noteq> nm \<Longrightarrow> nm' \<noteq> [] \<Longrightarrow> dir_lookup t cs nm' = dir_lookup s cs nm'"
    and "dir_ok t cs" and "dir_slots t cs = (dir_slots s cs)[j * slot_count s + k := e]"
    and "unique_names s cs \<Longrightarrow> unique_names t cs"
proof -
  have jk: "j < length cs" "k < slot_count s" and free: "slot_free (cluster_slots s (cs ! j) ! k)"
    using assms(5) by (auto simp: first_at_def)
  have dat: "\<forall>c \<in> set cs. data_cluster s c" using assms(2) by (simp add: chain_def)
  have j: "data_cluster s (cs ! j)" using dat jk by simp
  have len: "length (de_name e) = 22" by (simp add: e_def)
  have b: "length (enc_dir_entry e) = 40" using len by (rule dir_codec.enc_len)
  have after: "slot_after s (cs ! j) k (enc_dir_entry e) = e"
    using assms(1) j assms(6) len by (rule slot_after_entry)
  have name: "entry_name e = nm" unfolding e_def using assms(4) by (rule entry_name_new)
  let ?i = "j * slot_count s + k"
  have slots: "dir_slots t cs = (dir_slots s cs)[?i := e]"
    unfolding t_def using dir_slots_put_slot [OF assms(1) dat chain_distinct [OF assms(2)] jk, of "enc_dir_entry e"]
      b assms(6) after by simp
  have at: "dir_slots s cs ! ?i = cluster_slots s (cs ! j) ! k" "?i < length (dir_slots s cs)"
    using dir_slots_nth [OF jk] by auto
  have at_name: "entry_name (dir_slots s cs ! ?i) = []"
    unfolding at(1) using free jk(2) by (subst entry_name_Nil) (auto simp: nth_cluster_slots)
  have "\<forall>l < length (dir_slots s cs). entry_name (dir_slots s cs ! l) \<noteq> nm"
    using assms(7) by (auto simp: dir_lookup_def find_None_iff)
  then show "dir_lookup t cs nm = Some e"
    unfolding dir_lookup_def slots using at(2) name by (intro find_update_first) auto
  show "dir_lookup t cs nm' = dir_lookup s cs nm'" if "nm' \<noteq> nm" "nm' \<noteq> []"
    unfolding dir_lookup_def slots using at(2) at_name name that by (intro find_update_other) auto
  have "0 \<in> set (de_name e)"
    using assms(4) by (auto simp: e_def new_dir_entry_def strncpy_field_def name_ok_def
      DIR_ENTRY_MAX_NAME_LEN_def)
  then show "dir_ok t cs"
    unfolding t_def using assms(1,3,6) dat jk b after by (intro dir_ok_put_slot) auto
  show "dir_slots t cs = (dir_slots s cs)[?i := e]" by (rule slots)
  show "unique_names t cs" if "unique_names s cs"
    using that slots at(2) by (rule unique_names_update) (use name assms(7) in simp)
qed

section \<open>Testing for emptiness\<close>

definition dir_empty :: "fs \<Rightarrow> u32 list \<Rightarrow> bool" where
  "dir_empty s cs \<longleftrightarrow> (\<forall>e \<in> set (dir_slots s cs). entry_name e \<in> {[], dot, dotdot})"

lemma slots_empty_ok:
  "slots_empty s buf offs =
   Inr (\<forall>off \<in> set offs. entry_name (read_slot s buf off) \<in> {[], dot, dotdot})"
proof (induction offs)
  case (Cons off offs)
  have "strcmp_eq (de_name (read_slot s buf off)) (c_string dot) =
      Inr (entry_name (read_slot s buf off) = dot)"
    "strcmp_eq (de_name (read_slot s buf off)) (c_string dotdot) =
      Inr (entry_name (read_slot s buf off) = dotdot)"
    unfolding c_string_def entry_name_def by (rule strcmp_eq_name; simp add: dot_def dotdot_def)+
  moreover have "entry_name (read_slot s buf off) = [] \<longleftrightarrow> de_name (read_slot s buf off) ! 0 = 0"
    by (simp add: entry_name_Nil)
  ultimately show ?case using Cons by (auto simp: Let_def)
qed simp

lemma is_empty_loop_ok:
  assumes "geometry s" and "chain s c cs" and "c \<noteq> 0" and "length cs \<le> n"
  shows "is_empty_loop n s c = Inr (dir_empty s cs)"
  using assms(2-)
proof (induction n arbitrary: c cs)
  case 0
  then show ?case using chain_nonempty by fastforce
next
  case (Suc n)
  then obtain xs where cs: "cs = c # xs" using chain_nonempty by (metis list.collapse)
  with Suc.prems have c: "data_cluster s c" and xs: "chain s (fat_next s c) xs"
    by (auto simp: chain_Cons)
  have rd: "read_entire_cluster_from_disk s c = Inr (0, cluster_data s c)"
    "read_fat_entry s c = Inr (fat_next s c)" "root_cluster_start (superblock s) \<le> c"
    using assms(1) c by (auto simp: read_entire_cluster_ok read_fat_entry_ok root_le_data)
  have split: "dir_empty s cs \<longleftrightarrow>
      (\<forall>off \<in> set (slots_from 0 (sb_bpc s)).
        entry_name (read_slot s (cluster_data s c) off) \<in> {[], dot, dotdot}) \<and> dir_empty s xs"
    by (auto simp: dir_empty_def cs cluster_slots_def)
  show ?case
  proof (cases "fat_next s c = 0")
    case True
    then have "dir_empty s xs" using xs by (simp add: dir_empty_def)
    with True rd Suc.prems(2) show ?thesis by (simp add: slots_empty_ok split)
  next
    case False
    then have "is_empty_loop n s (fat_next s c) = Inr (dir_empty s xs)"
      using Suc.prems cs by (intro Suc.IH [OF xs]) auto
    with False rd Suc.prems(2) show ?thesis by (simp add: slots_empty_ok split)
  qed
qed

lemma is_dir_empty_ok:
  "geometry s \<Longrightarrow> chain s c cs \<Longrightarrow> c \<noteq> 0 \<Longrightarrow> is_dir_empty s c = Inr (dir_empty s cs)"
  unfolding is_dir_empty_def using chain_length(2) [of s c cs] by (intro is_empty_loop_ok) auto

section \<open>Listing\<close>

text \<open>What a listing hands to the callback: the used entries in the order of their slots, each
  with the offset behind its slot, until the callback refuses one.\<close>

fun list_slots :: "'b filler \<Rightarrow> fat_dir_entry list \<Rightarrow> u32 \<Rightarrow> 'b \<Rightarrow> bool \<times> u32 \<times> 'b" where
  "list_slots filler [] offset buf = (True, offset, buf)"
| "list_slots filler (e # es) offset buf =
     (let offset = offset + 40 in
      if entry_name e = [] then list_slots filler es offset buf
      else case filler buf (entry_name e) offset of (st, buf) \<Rightarrow>
        if st \<noteq> 0 then (False, offset, buf) else list_slots filler es offset buf)"

lemma list_slots_append:
  "list_slots filler (xs @ ys) offset buf =
   (case list_slots filler xs offset buf of (go_on, offset, buf) \<Rightarrow>
     if go_on then list_slots filler ys offset buf else (False, offset, buf))"
  by (induction xs arbitrary: offset buf) (auto simp: Let_def split: prod.splits)

lemma fill_slots_ok:
  assumes "\<forall>off \<in> set offs. 0 \<in> set (de_name (read_slot s cluster off))"
  shows "fill_slots s cluster filler offs offset buf =
    Inr (list_slots filler (map (read_slot s cluster) offs) offset buf)"
  using assms
proof (induction offs arbitrary: offset buf)
  case (Cons off offs)
  have "string_at (de_name (read_slot s cluster off)) = Inr (entry_name (read_slot s cluster off))"
    using Cons.prems by (simp add: string_at_def entry_name_def)
  with Cons show ?case
    by (auto simp: Let_def entry_name_Nil DIR_ENTRY_SIZE_def split: prod.splits)
qed simp

lemma fill_clusters_ok:
  assumes "geometry s" and "chain s c cs" and "dir_ok s cs" and "length cs < n"
  shows "fill_clusters n s filler c 0 offset buf =
    Inr (snd (snd (list_slots filler (dir_slots s cs) offset buf)))"
  using assms(2-)
proof (induction n arbitrary: c cs offset buf)
  case 0
  then show ?case by simp
next
  case (Suc n)
  show ?case
  proof (cases "c = 0")
    case True
    with Suc.prems show ?thesis by simp
  next
    case False
    then obtain xs where cs: "cs = c # xs" using chain_nonempty Suc.prems(1) by (metis list.collapse)
    with Suc.prems have c: "data_cluster s c" and xs: "chain s (fat_next s c) xs" "dir_ok s xs"
      by (auto simp: chain_Cons dir_ok_def)
    have rd: "read_entire_cluster_from_disk s c = Inr (0, cluster_data s c)"
      "read_fat_entry s c = Inr (fat_next s c)"
      using assms(1) c by (auto simp: read_entire_cluster_ok read_fat_entry_ok)
    have "0 \<in> set (de_name (read_slot s (cluster_data s c) off))"
      if "off \<in> set (slots_from 0 (sb_bpc s))" for off
      using that Suc.prems(2) cs by (auto simp: slots_from_0 dir_ok_def slot_ok_def nth_cluster_slots)
    then have "fill_slots s (cluster_data s c) filler (slots_from 0 (sb_bpc s)) offset buf =
        Inr (list_slots filler (cluster_slots s c) offset buf)" for offset buf
      unfolding cluster_slots_def by (intro fill_slots_ok) blast
    moreover have "fill_clusters n s filler (fat_next s c) 0 offset buf =
        Inr (snd (snd (list_slots filler (dir_slots s xs) offset buf)))" for offset buf
      using Suc.prems(3) cs by (intro Suc.IH [OF xs]) simp
    ultimately show ?thesis
      using False rd cs by (auto simp: list_slots_append split: prod.splits)
  qed
qed

lemma read_dir_entries_ok:
  assumes "geometry s" and "chain s c cs" and "c \<noteq> 0" and "dir_ok s cs"
  shows "read_dir_entries s c 0 buf filler =
    Inr (snd (snd (list_slots filler (dir_slots s cs) 0 buf)))"
proof -
  have "sb_bpc s \<noteq> 0" using geometryD(2) [OF assms(1)] by simp
  then show ?thesis
    unfolding read_dir_entries_def
    using fill_clusters_ok [OF assms(1,2,4), of "Suc (chain_fuel s)" filler 0 buf]
      chain_length(2) [OF assms(1,2)] by simp
qed

text \<open>With a callback that never refuses and collects the names, the listing is complete.\<close>

lemma list_slots_names:
  "snd (snd (list_slots (\<lambda>b nm off. (0, b @ [nm])) es offset b)) =
   b @ map entry_name (filter (\<lambda>e. entry_name e \<noteq> []) es)"
  by (induction es arbitrary: offset b) (auto simp: Let_def)

end
