(* ===== verification/Fat_Path.thy ===== *)
theory Fat_Path
  imports Fat_Dir_Correct
begin

text \<open>
  Paths (\<open>src/FAT/fat.c\<close>, lines 79 to 105 and 437 to 517): splitting a path into the parent
  and the target name, walking down the directories of the parent, and adding an entry at a
  path. A path is the bytes of a C string before its terminator. The correctness lemmas
  relate the walk to a relation \<open>resolves\<close> over the directories of the disk.
\<close>

section \<open>Splitting a path\<close>

definition slash :: byte where "slash = 47"

text \<open>
  The loop \<open>for (; path[name_start - 1] != '/'; name_start--);\<close> of both functions. With no
  slash left the index wraps around to 0xFFFFFFFF, outside the string.
\<close>

fun slash_loop :: "cstring \<Rightarrow> nat \<Rightarrow> nat res" where
  "slash_loop path 0 = Inl Out_of_bounds"
| "slash_loop path (Suc i) = (if path ! i \<noteq> slash then slash_loop path i else Inr (Suc i))"

definition get_parent_path :: "cstring \<Rightarrow> cstring res" where
  "get_parent_path path =
     bind_res (slash_loop path (length path)) (\<lambda>name_start. Inr (take (name_start - 1) path))"

definition get_target_name :: "cstring \<Rightarrow> cstring res" where
  "get_target_name path =
     bind_res (slash_loop path (length path)) (\<lambda>name_start. Inr (drop name_start path))"

text \<open>The sign of \<open>strcmp\<close> on two strings; bytes compare as \<open>unsigned char\<close>.\<close>

fun strcmp_sign :: "cstring \<Rightarrow> cstring \<Rightarrow> int" where
  "strcmp_sign [] [] = 0"
| "strcmp_sign [] (b # bs) = -1"
| "strcmp_sign (a # as) [] = 1"
| "strcmp_sign (a # as) (b # bs) =
     (if a < b then -1 else if b < a then 1 else strcmp_sign as bs)"

text \<open>\<open>strsep(&remainder, "/")\<close>: the token and the new remainder, \<open>None\<close> for NULL.\<close>

fun strsep :: "cstring option \<Rightarrow> cstring option \<times> cstring option" where
  "strsep None = (None, None)"
| "strsep (Some str) =
     (Some (takeWhile (\<lambda>b. b \<noteq> slash) str),
      case dropWhile (\<lambda>b. b \<noteq> slash) str of [] \<Rightarrow> None | _ # rest \<Rightarrow> Some rest)"

section \<open>Walking down a path\<close>

fun remainder_size :: "cstring option \<Rightarrow> nat" where
  "remainder_size None = 0"
| "remainder_size (Some str) = Suc (length str)"

lemma strsep_shorter:
  "strsep remainder = (Some tok, remainder') \<Longrightarrow> remainder_size remainder' < remainder_size remainder"
proof (cases remainder)
  case (Some str)
  assume "strsep remainder = (Some tok, remainder')"
  moreover have "length (dropWhile (\<lambda>b. b \<noteq> slash) str) \<le> length str" by (rule length_dropWhile_le)
  ultimately show ?thesis using Some by (auto split: list.splits)
qed simp

function path_loop :: "fs \<Rightarrow> cstring option \<Rightarrow> u32 \<Rightarrow> u32 option res" where
  "path_loop s remainder cluster_num =
     (case strsep remainder of
        (None, _) \<Rightarrow> Inr (Some cluster_num)
      | (Some tok, remainder') \<Rightarrow>
          bind_res (find_dir_entry_by_name s cluster_num tok) (\<lambda>found.
            case found of
              None \<Rightarrow> Inr None
            | Some dir_entry \<Rightarrow>
                if de_type dir_entry \<noteq> DIR_ENTRY_TYPE_SUBDIR then Inr None
                else path_loop s remainder' (de_first_cluster dir_entry)))"
  by pat_completeness auto
termination
  by (relation "measure (\<lambda>(_, remainder, _). remainder_size remainder)")
    (auto dest!: strsep_shorter [OF sym])

declare path_loop.simps [simp del]

definition find_dir_entry_by_path :: "fs \<Rightarrow> cstring \<Rightarrow> fat_dir_entry option res" where
  "find_dir_entry_by_path s path =
     (if strcmp_sign path [slash] \<le> 0 then Inr None
      else
        bind_res (get_parent_path path) (\<lambda>parent_path.
        bind_res (get_target_name path) (\<lambda>target_name.
        bind_res (path_loop s (snd (strsep (Some parent_path))) (root_cluster_start (superblock s)))
          (\<lambda>found. case found of
             None \<Rightarrow> Inr None
           | Some cluster_num \<Rightarrow> find_dir_entry_by_name s cluster_num target_name))))"

definition find_first_cluster_by_path :: "fs \<Rightarrow> cstring \<Rightarrow> u32 res" where
  "find_first_cluster_by_path s path =
     (if 0 < strcmp_sign path [slash]
      then bind_res (find_dir_entry_by_path s path) (\<lambda>found.
        case found of
          None \<Rightarrow> Inl Assert_failed
        | Some dir_entry \<Rightarrow> Inr (de_first_cluster dir_entry))
      else Inr (root_cluster_start (superblock s)))"

definition add_dir_entry :: "cstring \<Rightarrow> u16 \<Rightarrow> fs \<Rightarrow> (int \<times> fs) res" where
  "add_dir_entry path typ s =
     bind_res (get_parent_path path) (\<lambda>parent_path.
     bind_res (get_target_name path) (\<lambda>target_name.
     bind_res
       (if 0 < strcmp_sign parent_path [slash]
        then bind_res (find_dir_entry_by_path s parent_path) (\<lambda>found.
          case found of
            None \<Rightarrow> Inl Assert_failed
          | Some dir_entry \<Rightarrow> Inr (de_first_cluster dir_entry))
        else Inr (root_cluster_start (superblock s))) (\<lambda>parent_cluster.
     bind_res (pop_free_clusters 1 s) (\<lambda>(first_cluster, s).
     bind_res (add_dir_entry_to_cluster parent_cluster target_name first_cluster typ s) (\<lambda>(_, s).
       if typ = DIR_ENTRY_TYPE_SUBDIR
       then
         bind_res (add_dir_entry_to_cluster first_cluster dot first_cluster typ s) (\<lambda>(_, s).
         bind_res (add_dir_entry_to_cluster first_cluster dotdot parent_cluster typ s) (\<lambda>(_, s).
           Inr (0, s)))
       else Inr (0, s))))))"

section \<open>Splitting and joining\<close>

definition component :: "cstring \<Rightarrow> bool" where
  "component nm \<longleftrightarrow> slash \<notin> set nm"

lemma slash_loop_tail:
  "component nm \<Longrightarrow> i \<le> length nm \<Longrightarrow>
   slash_loop (p @ slash # nm) (Suc (length p) + i) = Inr (Suc (length p))"
proof (induction i)
  case (Suc i)
  have "(p @ slash # nm) ! (Suc (length p) + i) = nm ! i" by (simp add: nth_append)
  moreover have "nm ! i \<noteq> slash" using Suc.prems by (metis Suc_le_lessD component_def nth_mem)
  ultimately show ?case using Suc by simp
qed (simp add: nth_append)

lemma slash_loop_ok:
  "component nm \<Longrightarrow> slash_loop (p @ slash # nm) (length (p @ slash # nm)) = Inr (Suc (length p))"
  using slash_loop_tail [of nm "length nm" p] by simp

lemma get_parent_path_ok: "component nm \<Longrightarrow> get_parent_path (p @ slash # nm) = Inr p"
  unfolding get_parent_path_def by (subst slash_loop_ok) auto

lemma get_target_name_ok: "component nm \<Longrightarrow> get_target_name (p @ slash # nm) = Inr nm"
  unfolding get_target_name_def by (subst slash_loop_ok) auto

lemma slash_loop_none:
  "component p \<Longrightarrow> i \<le> length p \<Longrightarrow> slash_loop p i = Inl Out_of_bounds"
  by (induction i) (auto simp: component_def, metis Suc_le_lessD nth_mem)

lemma split_no_slash:
  "component p \<Longrightarrow> get_parent_path p = Inl Out_of_bounds \<and> get_target_name p = Inl Out_of_bounds"
  by (simp add: get_parent_path_def get_target_name_def slash_loop_none)

text \<open>Every path with a slash is split at its last one.\<close>

lemma last_slash:
  "slash \<in> set path \<Longrightarrow> \<exists>p nm. path = p @ slash # nm \<and> component nm"
  using split_list_last [of slash path] by (auto simp: component_def)

lemma strcmp_sign_Nil [simp]: "strcmp_sign p [] = (if p = [] then 0 else 1)"
  by (cases p) auto

fun path_of :: "cstring list \<Rightarrow> cstring" where
  "path_of [] = []"
| "path_of (nm # nms) = slash # nm @ path_of nms"

lemma path_of_append [simp]: "path_of (xs @ ys) = path_of xs @ path_of ys"
  by (induction xs) auto

lemma path_of_snoc: "path_of (nms @ [nm]) = path_of nms @ slash # nm"
  by simp

lemma path_not_root: "nm \<noteq> [] \<Longrightarrow> strcmp_sign (path_of (nms @ [nm])) [slash] = 1"
  by (cases nms) auto

lemma strsep_component:
  assumes "component nm"
  shows "strsep (Some (nm @ path_of nms)) = (Some nm, snd (strsep (Some (path_of nms))))"
proof -
  have nm: "\<forall>b \<in> set nm. b \<noteq> slash" using assms by (auto simp: component_def)
  show ?thesis
  proof (cases nms)
    case Nil
    have "takeWhile (\<lambda>b. b \<noteq> slash) nm = nm" "dropWhile (\<lambda>b. b \<noteq> slash) nm = []"
      using nm by (simp_all add: takeWhile_eq_all_conv dropWhile_eq_Nil_conv)
    with Nil show ?thesis by (simp del: takeWhile_eq_all_conv dropWhile_eq_Nil_conv)
  next
    case (Cons x xs)
    have "takeWhile (\<lambda>b. b \<noteq> slash) (nm @ path_of nms) = nm"
      "dropWhile (\<lambda>b. b \<noteq> slash) (nm @ path_of nms) = path_of nms"
      using nm Cons by (simp_all add: takeWhile_append dropWhile_append)
    with Cons show ?thesis by simp
  qed
qed

section \<open>Resolving a path\<close>

text \<open>
  \<open>resolves s c nms d\<close>: starting in the directory whose chain starts at \<open>c\<close>, the names
  \<open>nms\<close> lead through subdirectories to the directory that starts at \<open>d\<close>.
\<close>

inductive resolves :: "fs \<Rightarrow> u32 \<Rightarrow> cstring list \<Rightarrow> u32 \<Rightarrow> bool" where
  here: "resolves s c [] c"
| down: "chain s c cs \<Longrightarrow> c \<noteq> 0 \<Longrightarrow> name_ok nm \<Longrightarrow> component nm \<Longrightarrow>
    dir_lookup s cs nm = Some e \<Longrightarrow> de_type e = DIR_ENTRY_TYPE_SUBDIR \<Longrightarrow>
    resolves s (de_first_cluster e) nms d \<Longrightarrow> resolves s c (nm # nms) d"

inductive_cases resolves_NilE: "resolves s c [] d"
inductive_cases resolves_ConsE: "resolves s c (nm # nms) d"

lemma name_ok_lookup: "name_ok nm \<Longrightarrow> 0 \<notin> set nm \<and> length nm < 22"
  by (auto simp: name_ok_def DIR_ENTRY_MAX_NAME_LEN_def)

lemma path_loop_ok:
  assumes "resolves s c nms d" and "geometry s"
  shows "path_loop s (snd (strsep (Some (path_of nms)))) c = Inr (Some d)"
  using assms
proof (induction rule: resolves.induct)
  case (here s c)
  then show ?case by (simp add: path_loop.simps)
next
  case (down s c cs nm e nms d)
  have sep: "strsep (snd (strsep (Some (path_of (nm # nms))))) =
      (Some nm, snd (strsep (Some (path_of nms))))"
    using strsep_component [OF down(4), of nms] by simp
  have "find_dir_entry_by_name s c nm = Inr (Some e)"
    using down name_ok_lookup [OF down(3)] by (simp add: find_dir_entry_ok)
  with sep down show ?case by (subst path_loop.simps) simp
qed

lemma resolves_step:
  assumes "resolves s c (nms @ [nm]) d"
  shows "\<exists>b cs e. resolves s c nms b \<and> chain s b cs \<and> b \<noteq> 0 \<and> name_ok nm \<and> component nm \<and>
    dir_lookup s cs nm = Some e \<and> de_type e = DIR_ENTRY_TYPE_SUBDIR \<and> de_first_cluster e = d"
  using assms
proof (induction nms arbitrary: c)
  case Nil
  then show ?case by (auto elim!: resolves_ConsE resolves_NilE intro: resolves.here)
next
  case (Cons x xs)
  from Cons.prems obtain cs e where e: "chain s c cs" "c \<noteq> 0" "name_ok x" "component x"
      "dir_lookup s cs x = Some e" "de_type e = DIR_ENTRY_TYPE_SUBDIR"
    and r: "resolves s (de_first_cluster e) (xs @ [nm]) d"
    by (auto elim: resolves_ConsE)
  from Cons.IH [OF r] show ?case using resolves.down [OF e] by blast
qed

text \<open>Looking up a path: the walk to the parent, then the search in its slots.\<close>

lemma find_by_path_ok:
  assumes "geometry s" and "resolves s (root_cluster_start (superblock s)) nms c"
    and "chain s c cs" and "c \<noteq> 0"
    and "component nm" and "nm \<noteq> []" and "0 \<notin> set nm" and "length nm < 22"
  shows "find_dir_entry_by_path s (path_of (nms @ [nm])) = Inr (dir_lookup s cs nm)"
proof -
  have "\<not> strcmp_sign (path_of (nms @ [nm])) [slash] \<le> 0"
    using path_not_root [OF assms(6), of nms] by simp
  then show ?thesis
    using path_loop_ok [OF assms(2,1)] find_dir_entry_ok [OF assms(1,7,8,3,4)]
    unfolding find_dir_entry_by_path_def path_of_snoc
    by (simp add: get_parent_path_ok [OF assms(5)] get_target_name_ok [OF assms(5)] del: strsep.simps)
qed

lemma find_first_cluster_ok:
  assumes "geometry s" and "resolves s (root_cluster_start (superblock s)) nms d"
  shows "find_first_cluster_by_path s (path_of nms) = Inr d"
    and "(if 0 < strcmp_sign (path_of nms) [slash]
        then bind_res (find_dir_entry_by_path s (path_of nms)) (\<lambda>found.
          case found of None \<Rightarrow> Inl Assert_failed | Some e \<Rightarrow> Inr (de_first_cluster e))
        else Inr (root_cluster_start (superblock s))) = Inr d"
proof -
  show "find_first_cluster_by_path s (path_of nms) = Inr d"
  proof (cases nms rule: rev_cases)
    case Nil
    then show ?thesis using assms(2)
      by (auto simp: find_first_cluster_by_path_def elim: resolves_NilE)
  next
    case (snoc xs nm)
    obtain b cs e where b: "resolves s (root_cluster_start (superblock s)) xs b" "chain s b cs"
        "b \<noteq> 0" "name_ok nm" "component nm" "dir_lookup s cs nm = Some e" "de_first_cluster e = d"
      using resolves_step assms(2) unfolding snoc by blast
    have "0 < strcmp_sign (path_of (xs @ [nm])) [slash]"
      using b(4) path_not_root [of nm xs] by (simp add: name_ok_def)
    moreover have "find_dir_entry_by_path s (path_of (xs @ [nm])) = Inr (Some e)"
      using find_by_path_ok [OF assms(1) b(1-3,5)] b(4,6) name_ok_lookup [OF b(4)]
      by (simp add: name_ok_def)
    ultimately show ?thesis using b(7) by (simp add: find_first_cluster_by_path_def snoc)
  qed
  then show "(if 0 < strcmp_sign (path_of nms) [slash]
        then bind_res (find_dir_entry_by_path s (path_of nms)) (\<lambda>found.
          case found of None \<Rightarrow> Inl Assert_failed | Some e \<Rightarrow> Inr (de_first_cluster e))
        else Inr (root_cluster_start (superblock s))) = Inr d"
    by (simp add: find_first_cluster_by_path_def)
qed

text \<open>The directory part of a path lookup: what the handlers do first.\<close>

lemma parent_and_target:
  assumes "geometry s" and "resolves s (root_cluster_start (superblock s)) nms d" and "component nm"
  shows "get_parent_path (path_of (nms @ [nm])) = Inr (path_of nms)"
    and "get_target_name (path_of (nms @ [nm])) = Inr nm"
    and "find_first_cluster_by_path s (path_of nms) = Inr d"
  using assms find_first_cluster_ok(1)
  by (auto simp: path_of_snoc get_parent_path_ok get_target_name_ok simp del: path_of_append)

end
