(* ===== verification/Fat_Create.thy ===== *)
theory Fat_Create
  imports Fat_Path
begin

text \<open>
  Correctness of \<open>add_dir_entry\<close> (\<open>src/FAT/fat.c\<close>, lines 487 to 517) and of the first two
  entries of a directory: a cluster just taken from the free list is an empty directory,
  the entries for the directory itself and its parent go to its first two slots, and the
  new entry appears in the parent while all other directories and files stay as they are.
\<close>

text \<open>Single clusters are taken from the free list; the number stays written as 1.\<close>

declare One_nat_def [simp del]

section \<open>A zeroed cluster as a directory\<close>

lemma slot_count_ge: "geometry s \<Longrightarrow> 13 \<le> slot_count s"
  using geometryD(2) [of s] div_le_mono [of 551 "sb_bpc s + 39" 40] by (simp add: slot_count_def)

lemma zero_cluster_free:
  assumes "cluster_data s c = get_new_cluster s" and "k < slot_count s"
  shows "slot_free (cluster_slots s c ! k)"
  using assms slot_inside [OF assms(2)]
  by (simp add: nth_cluster_slots slot_name_0 get_new_cluster_def)

lemma free_slot_ok:
  assumes "slot_free (cluster_slots s c ! k)" and "k < slot_count s"
  shows "slot_ok s c k" and "entry_name (cluster_slots s c ! k) = []"
proof -
  have l: "length (de_name (cluster_slots s c ! k)) = 22" using assms(2) by (simp add: nth_cluster_slots)
  show "slot_ok s c k" unfolding slot_ok_def using assms(1) l by (metis nth_mem zero_less_numeral)
  show "entry_name (cluster_slots s c ! k) = []" using assms(1) l by (simp add: entry_name_Nil)
qed

lemma zero_dir_ok:
  "cluster_data s c = get_new_cluster s \<Longrightarrow> dir_ok s [c]"
  by (simp add: dir_ok_def zero_cluster_free free_slot_ok)

lemma dir_slots_single: "dir_slots s [c] = cluster_slots s c"
  by simp

lemma zero_dir_lookup:
  assumes "cluster_data s c = get_new_cluster s" and "nm \<noteq> []"
  shows "dir_lookup s [c] nm = None"
  using assms zero_cluster_free [OF assms(1)] free_slot_ok(2) [of s c]
  by (auto simp: dir_lookup_def find_None_iff in_set_conv_nth)

lemma zero_unique: "cluster_data s c = get_new_cluster s \<Longrightarrow> unique_names s [c]"
  using zero_cluster_free [of s c] free_slot_ok(2) [of s c] by (auto simp: unique_names_def)

section \<open>The entries of a new directory\<close>

definition dot_entries :: "fs \<Rightarrow> u32 \<Rightarrow> u32 \<Rightarrow> fs" where
  "dot_entries s c p =
     put_slot (put_slot s c 0 (enc_dir_entry (new_dir_entry s dot c DIR_ENTRY_TYPE_SUBDIR)))
       c 1 (enc_dir_entry (new_dir_entry s dotdot p DIR_ENTRY_TYPE_SUBDIR))"

lemma dot_names [simp]:
  "name_ok dot" "name_ok dotdot" "dot \<noteq> dotdot" "dotdot \<noteq> dot" "dot \<noteq> []" "dotdot \<noteq> []"
  "component dot" "component dotdot"
  by (auto simp: name_ok_def dot_def dotdot_def DIR_ENTRY_MAX_NAME_LEN_def component_def slash_def)

lemma dot_entries_simps [simp]:
  "superblock (dot_entries s c p) = superblock s" "sb_pad (dot_entries s c p) = sb_pad s"
  "fat_table (dot_entries s c p) = fat_table s" "heap_tail (dot_entries s c p) = heap_tail s"
  "clock (dot_entries s c p) = clock s" "data_cluster (dot_entries s c p) = data_cluster s"
  "fat_next (dot_entries s c p) = fat_next s" "chain (dot_entries s c p) = chain s"
  by (simp_all add: dot_entries_def)

lemma new_entry_cong: "clock t = clock s \<Longrightarrow> new_dir_entry t = new_dir_entry s"
  by (simp add: new_dir_entry_def [abs_def])

lemma cluster_slots_single:
  assumes "geometry s" and "data_cluster s c" and "k < slot_count s" and "40 * k + 40 \<le> sb_bpc s"
    and "length (de_name e) = 22"
  shows "cluster_slots (put_slot s c k (enc_dir_entry e)) c = (cluster_slots s c)[k := e]"
  using cluster_slots_put_slot [OF assms(1-3), of "enc_dir_entry e"] assms
  by (simp add: dir_codec.enc_len slot_after_entry)

lemma dot_entries_ok:
  assumes "geometry s" and "chain s c [c]" and "cluster_data s c = get_new_cluster s"
    and "data_cluster s p"
  shows "bind_res (add_dir_entry_to_cluster c dot c DIR_ENTRY_TYPE_SUBDIR s) (\<lambda>(r, s).
      bind_res (add_dir_entry_to_cluster c dotdot p DIR_ENTRY_TYPE_SUBDIR s) (\<lambda>(r', s).
        Inr ((r, r'), s))) = Inr ((0, 0), dot_entries s c p)"
proof -
  have c: "data_cluster s c" using assms(2) by (auto simp: chain_Cons)
  note n = slot_count_ge [OF assms(1)] and b = geometryD(2) [OF assms(1)]
  let ?e = "new_dir_entry s dot c DIR_ENTRY_TYPE_SUBDIR"
  let ?t = "put_slot s c 0 (enc_dir_entry ?e)"
  have first: "first_at s [c] slot_free 0 0"
    using n zero_cluster_free [OF assms(3), of 0] by (simp add: first_at_0)
  have t: "geometry ?t" using assms(1) c b by (intro put_slot_ok) (auto simp: dir_codec.enc_len)
  have slots: "cluster_slots ?t c = (cluster_slots s c)[0 := ?e]"
    using assms(1) c n b by (intro cluster_slots_single) auto
  have sc: "slot_count ?t = slot_count s" by (rule slot_count_cong) simp
  have "de_name ?e ! 0 \<noteq> 0"
    by (simp add: new_dir_entry_def strncpy_field_def dot_def)
  then have second: "first_at ?t [c] slot_free 0 1"
    using n zero_cluster_free [OF assms(3), of 1] by (simp add: first_at_0 sc slots)
  have e2: "new_dir_entry ?t = new_dir_entry s" by (rule new_entry_cong) simp
  show ?thesis
    using add_entry_at [OF assms(1) c dot_names(1) assms(2) first]
      add_entry_at [OF t _ dot_names(2) _ second, of p c] b assms(2,4)
    by (simp add: dot_entries_def e2)
qed

lemma dot_entries_basic:
  fixes p :: u32
  assumes "geometry s" and "data_cluster s c"
  defines "t \<equiv> dot_entries s c p"
  shows "geometry t" and "synced s \<Longrightarrow> synced t"
    and "data_cluster s d \<Longrightarrow> d \<noteq> c \<Longrightarrow> cluster_data t d = cluster_data s d"
    and "cluster_slots t c = (cluster_slots s c)
      [0 := new_dir_entry s dot c DIR_ENTRY_TYPE_SUBDIR,
       1 := new_dir_entry s dotdot p DIR_ENTRY_TYPE_SUBDIR]"
    and "slot_count t = slot_count s"
proof -
  note n = slot_count_ge [OF assms(1)] and b = geometryD(2) [OF assms(1)]
  let ?e = "new_dir_entry s dot c DIR_ENTRY_TYPE_SUBDIR"
  let ?f = "new_dir_entry s dotdot p DIR_ENTRY_TYPE_SUBDIR"
  let ?u = "put_slot s c 0 (enc_dir_entry ?e)"
  have u: "geometry ?u" "synced s \<Longrightarrow> synced ?u"
    using assms(1,2) b by (auto intro!: put_slot_ok simp: dir_codec.enc_len)
  have cu: "data_cluster ?u c" using assms(2) by simp
  have t: "t = put_slot ?u c 1 (enc_dir_entry ?f)" by (simp add: t_def dot_entries_def)
  have fits: "40 * 1 + length (enc_dir_entry ?f) \<le> sb_bpc ?u" using b by (simp add: dir_codec.enc_len)
  note pt = put_slot_ok [OF u(1) cu fits, folded t]
  show "geometry t" "synced s \<Longrightarrow> synced t" using pt(1,2) u(2) by auto
  show "cluster_data t d = cluster_data s d" if "data_cluster s d" "d \<noteq> c"
    using pt(4) [of d] that put_slot_ok(4) [OF assms(1,2), of 0 "enc_dir_entry ?e" d] b
    by (simp add: dir_codec.enc_len)
  have sc: "slot_count ?u = slot_count s" by (rule slot_count_cong) simp
  show "slot_count t = slot_count s" by (rule slot_count_cong) (simp add: t_def)
  have "cluster_slots ?u c = (cluster_slots s c)[0 := ?e]"
    using assms(1,2) n b by (intro cluster_slots_single) auto
  moreover have "cluster_slots t c = (cluster_slots ?u c)[1 := ?f]"
    unfolding t using u(1) cu n b sc by (intro cluster_slots_single) auto
  ultimately show "cluster_slots t c = (cluster_slots s c)[0 := ?e, 1 := ?f]" by simp
qed

text \<open>The slots of a new directory: itself, its parent, and only free slots behind them.\<close>

lemma dot_entries_nth:
  assumes "geometry s" and "data_cluster s c" and "cluster_data s c = get_new_cluster s"
    and "k < slot_count s"
  shows "cluster_slots (dot_entries s c p) c ! k =
      (if k = 0 then new_dir_entry s dot c DIR_ENTRY_TYPE_SUBDIR
       else if k = 1 then new_dir_entry s dotdot p DIR_ENTRY_TYPE_SUBDIR
       else cluster_slots s c ! k)"
    and "entry_name (cluster_slots (dot_entries s c p) c ! k) =
      (if k = 0 then dot else if k = 1 then dotdot else [])"
    and "slot_free (cluster_slots (dot_entries s c p) c ! k) \<longleftrightarrow> 2 \<le> k"
    and "slot_ok (dot_entries s c p) c k"
proof -
  note b = dot_entries_basic [OF assms(1,2)] and n = slot_count_ge [OF assms(1)]
  let ?e = "new_dir_entry s dot c DIR_ENTRY_TYPE_SUBDIR"
  let ?f = "new_dir_entry s dotdot p DIR_ENTRY_TYPE_SUBDIR"
  show nth: "cluster_slots (dot_entries s c p) c ! k =
      (if k = 0 then ?e else if k = 1 then ?f else cluster_slots s c ! k)"
    using assms(4) n by (simp add: b(4) nth_list_update)
  have free: "slot_free (cluster_slots s c ! k)" using assms(3,4) by (rule zero_cluster_free)
  show nm: "entry_name (cluster_slots (dot_entries s c p) c ! k) =
      (if k = 0 then dot else if k = 1 then dotdot else [])"
    using free_slot_ok(2) [OF free assms(4)] by (simp add: nth entry_name_new)
  have len: "length (de_name (cluster_slots (dot_entries s c p) c ! k)) = 22"
    using assms(4) b(5) by (simp add: nth_cluster_slots)
  show sf: "slot_free (cluster_slots (dot_entries s c p) c ! k) \<longleftrightarrow> 2 \<le> k"
    using nm entry_name_Nil [OF len] by (auto split: if_splits)
  have "0 \<in> set (de_name ?e)" "0 \<in> set (de_name ?f)"
    by (simp_all add: new_dir_entry_def strncpy_field_def dot_def dotdot_def DIR_ENTRY_MAX_NAME_LEN_def)
  then show "slot_ok (dot_entries s c p) c k"
    using free_slot_ok(1) [of "dot_entries s c p" c k] assms(4) b(5) sf geometryD(2) [OF assms(1)]
    by (cases "2 \<le> k") (auto simp: slot_ok_def nth)
qed

lemma dot_entries_dir:
  fixes p :: u32
  assumes "geometry s" and "data_cluster s c" and "cluster_data s c = get_new_cluster s"
  defines "t \<equiv> dot_entries s c p"
  shows "dir_ok t [c]" and "unique_names t [c]" and "dir_empty t [c]"
    and "first_at t [c] slot_free 0 2"
    and "dir_lookup t [c] dot = Some (new_dir_entry s dot c DIR_ENTRY_TYPE_SUBDIR)"
    and "dir_lookup t [c] dotdot = Some (new_dir_entry s dotdot p DIR_ENTRY_TYPE_SUBDIR)"
    and "nm \<noteq> dot \<Longrightarrow> nm \<noteq> dotdot \<Longrightarrow> nm \<noteq> [] \<Longrightarrow> dir_lookup t [c] nm = None"
proof -
  note n = slot_count_ge [OF assms(1)]
  note nth = dot_entries_nth [OF assms(1-3), of _ p, folded t_def]
  note b = dot_entries_basic(4,5) [OF assms(1,2), of p, folded t_def]
  show "dir_ok t [c]" using nth(4) b(2) by (simp add: dir_ok_def)
  show "unique_names t [c]"
    unfolding unique_names_def dir_slots_single by (auto simp: b(2) nth(2) split: if_splits)
  show "dir_empty t [c]"
    unfolding dir_empty_def dir_slots_single by (auto simp: in_set_conv_nth b(2) nth(2))
  show "first_at t [c] slot_free 0 2" using n by (auto simp: first_at_0 b(2) nth(3))
  show "dir_lookup t [c] nm = None" if "nm \<noteq> dot" "nm \<noteq> dotdot" "nm \<noteq> []"
    using that by (auto simp: dir_lookup_def find_None_iff in_set_conv_nth b(2) nth(2) split: if_splits)
  let ?e = "new_dir_entry s dot c DIR_ENTRY_TYPE_SUBDIR"
  let ?f = "new_dir_entry s dotdot p DIR_ENTRY_TYPE_SUBDIR"
  have "cluster_slots t c = (cluster_slots s c)[1 := ?f, 0 := ?e]"
    unfolding b(1) by (rule list_update_swap) simp
  then show "dir_lookup t [c] dot = Some ?e"
    unfolding dir_lookup_def dir_slots_single
    using find_update_first [of 0 "(cluster_slots s c)[1 := ?f]" "\<lambda>e. entry_name e = dot" ?e] n
    by (simp add: entry_name_new)
  show "dir_lookup t [c] dotdot = Some ?f"
    unfolding dir_lookup_def dir_slots_single b(1)
  proof (rule find_update_first)
    show "\<forall>j < 1. entry_name ((cluster_slots s c)[0 := ?e] ! j) \<noteq> dotdot"
      using n by (simp add: entry_name_new)
  qed (use n in \<open>auto simp: entry_name_new\<close>)
qed

section \<open>Adding an entry at a path\<close>

text \<open>
  The state after \<open>add_dir_entry\<close> put an entry in slot \<open>k\<close> of cluster \<open>d\<close> of the parent
  directory that starts at \<open>p\<close>: a cluster taken from the free list, the entry, and for a
  directory its own first entries.
\<close>

definition entry_added :: "fs \<Rightarrow> u32 list \<Rightarrow> u32 \<Rightarrow> u32 \<Rightarrow> nat \<Rightarrow> cstring \<Rightarrow> u16 \<Rightarrow> fs" where
  "entry_added s fl p d k nm ty =
     (let t = put_slot (popped s fl 1) d k (enc_dir_entry (new_dir_entry s nm (hd fl) ty))
      in if ty = DIR_ENTRY_TYPE_SUBDIR then dot_entries t (hd fl) p else t)"

lemma popped_dir_frame:
  assumes "geometry s" and "free_list s fl" and "fl \<noteq> []" and "\<forall>c \<in> set cs. data_cluster s c"
    and "set cs \<inter> set fl = {}"
  shows "dir_slots (popped s fl 1) cs = dir_slots s cs" "dir_ok (popped s fl 1) cs = dir_ok s cs"
    "slot_count (popped s fl 1) = slot_count s"
    "\<And>c. c \<in> set cs \<Longrightarrow> cluster_slots (popped s fl 1) c = cluster_slots s c"
proof -
  have data: "cluster_data (popped s fl 1) c = cluster_data s c" if "c \<in> set cs" for c
  proof -
    have "1 \<le> length fl" using assms(3) by (cases fl) auto
    moreover have "c \<notin> set (take 1 fl)" using that assms(5) by (auto dest: in_set_takeD)
    ultimately show ?thesis using popped_data [OF assms(1,2)] assms(4) that by simp
  qed
  then show "dir_slots (popped s fl 1) cs = dir_slots s cs"
    "dir_ok (popped s fl 1) cs = dir_ok s cs"
    by (intro dir_slots_frame dir_ok_frame; simp)+
  show sc: "slot_count (popped s fl 1) = slot_count s" by (simp add: slot_count_def)
  show "cluster_slots (popped s fl 1) c = cluster_slots s c" if "c \<in> set cs" for c
    using dir_slots_frame [of "[c]" "popped s fl 1" s] data that by simp
qed

lemma first_at_frame:
  assumes "\<And>c. c \<in> set cs \<Longrightarrow> cluster_slots t c = cluster_slots s c" and "slot_count t = slot_count s"
  shows "first_at t cs P j k = first_at s cs P j k"
  using assms by (auto simp: first_at_def)

lemma take_1: "fl \<noteq> [] \<Longrightarrow> take 1 fl = [hd fl]"
  by (cases fl) (auto simp: One_nat_def)

lemma drop_1_tl: "drop 1 xs = tl xs"
  by (simp add: One_nat_def drop_Suc)

text \<open>The parent's slot and the new cluster, before and after the entry is written.\<close>

lemma entry_placed:
  fixes nm :: cstring and ty :: u16
  assumes inv: "alloc_inv s fl (cs # cls)" and fl: "fl \<noteq> []"
    and slot: "first_at s cs slot_free j k" "40 * k + 40 \<le> sb_bpc s"
  defines "p \<equiv> popped s fl 1"
  defines "t \<equiv> put_slot p (cs ! j) k (enc_dir_entry (new_dir_entry s nm (hd fl) ty))"
  shows "pop_free_clusters 1 s = Inr (hd fl, p)" and "geometry p" and "chain p (hd cs) cs"
    and "first_at p cs slot_free j k" and "data_cluster s (hd fl)" and "hd fl \<notin> set cs"
    and "alloc_inv t (tl fl) ([hd fl] # cs # cls)" and "chain t (hd fl) [hd fl]"
    and "cluster_data t (hd fl) = get_new_cluster t"
    and "data_cluster s d \<Longrightarrow> d \<noteq> cs ! j \<Longrightarrow> d \<noteq> hd fl \<Longrightarrow> cluster_data t d = cluster_data s d"
proof -
  note i = alloc_invD [OF inv]
  have len: "1 \<le> length fl" using fl by (cases fl) auto
  have cs: "chain s (hd cs) cs" "set cs \<inter> set fl = {}" using i(5,6) by auto
  have dat: "\<forall>c \<in> set cs. data_cluster s c" using cs(1) by (simp add: chain_def)
  have j: "cs ! j \<in> set cs" using slot(1) by (simp add: first_at_def)
  show "pop_free_clusters 1 s = Inr (hd fl, p)"
    using pop_free_clusters_ok [OF i(1,3), of 1] len by (simp add: p_def)
  show g: "geometry p" unfolding p_def using i(1,3) len by (intro popped_geometry) auto
  show "chain p (hd cs) cs" unfolding p_def using i(1,3) len cs by (intro popped_other_chain) auto
  show "first_at p cs slot_free j k"
    using slot(1) popped_dir_frame(3,4) [OF i(1,3) fl dat cs(2)]
    unfolding p_def by (subst first_at_frame) auto
  have fd: "hd fl \<in> set fl" using fl by simp
  show f: "data_cluster s (hd fl)" using i(3) fd unfolding free_list_def by (rule chain_data)
  show fc: "hd fl \<notin> set cs" using cs(2) fd by blast
  then have fj: "hd fl \<noteq> cs ! j" using j by metis
  have "alloc_inv p (drop 1 fl) (take 1 fl # cs # cls)"
    unfolding p_def using inv len by (intro alloc_inv_pop) auto
  then have ap: "alloc_inv p (tl fl) ([hd fl] # cs # cls)" using fl by (simp add: take_1 drop_1_tl)
  have dj: "data_cluster p (cs ! j)" using j dat by (simp add: p_def)
  have b: "40 * k + length (enc_dir_entry (new_dir_entry s nm (hd fl) ty)) \<le> sb_bpc p"
    using slot(2) by (simp add: dir_codec.enc_len p_def)
  show at: "alloc_inv t (tl fl) ([hd fl] # cs # cls)"
    unfolding t_def using ap dj b by (rule alloc_inv_put_slot)
  show "chain t (hd fl) [hd fl]" using alloc_invD(5) [OF at, of "[hd fl]"] by simp
  note put = put_slot_ok(4) [OF g dj b, folded t_def]
  note dp = popped_data [OF i(1,3) _ len, folded p_def]
  have new: "get_new_cluster t = get_new_cluster s" by (rule new_cluster_cong) (simp add: t_def p_def)
  show "cluster_data t (hd fl) = get_new_cluster t"
    unfolding new using put [OF _ fj] dp [OF _ f] f fl by (simp add: take_1) (simp add: p_def)
  show "cluster_data t d = cluster_data s d" if "data_cluster s d" "d \<noteq> cs ! j" "d \<noteq> hd fl"
    using put [of d] dp [of d] that fl by (simp add: take_1) (simp add: p_def)
qed

lemma add_dir_entry_ok:
  assumes inv: "alloc_inv s fl (cs # cls)" and fl: "fl \<noteq> []"
    and par: "resolves s (root_cluster_start (superblock s)) nms (hd cs)"
    and nm: "name_ok nm" "component nm"
    and slot: "first_at s cs slot_free j k" "40 * k + 40 \<le> sb_bpc s"
  shows "add_dir_entry (path_of (nms @ [nm])) ty s = Inr (0, entry_added s fl (hd cs) (cs ! j) k nm ty)"
proof -
  note pl = entry_placed [OF inv fl slot]
  note g = alloc_invD(1) [OF inv]
  let ?p = "popped s fl 1" and ?f = "hd fl" and ?e = "new_dir_entry s nm (hd fl) ty"
  let ?t = "put_slot ?p (cs ! j) k (enc_dir_entry ?e)"
  have add: "add_dir_entry_to_cluster (hd cs) nm ?f ty ?p = Inr (0, ?t)"
    using add_entry_at [OF pl(2) _ nm(1) pl(3,4), of ?f ty] slot(2) pl(5)
    by (simp add: new_entry_cong [of ?p s])
  have par_data: "data_cluster ?t (hd cs)"
    using alloc_invD(4,5) [OF inv, of cs] by (cases cs) (auto simp: chain_Cons)
  have dots: "bind_res (add_dir_entry_to_cluster ?f dot ?f DIR_ENTRY_TYPE_SUBDIR ?t) (\<lambda>(r, s).
      bind_res (add_dir_entry_to_cluster ?f dotdot (hd cs) DIR_ENTRY_TYPE_SUBDIR s) (\<lambda>(r', s).
        Inr ((r, r'), s))) = Inr ((0, 0), dot_entries ?t ?f (hd cs))"
    by (rule dot_entries_ok [OF alloc_invD(1) [OF pl(7)] pl(8,9) par_data])
  have ends: "bind_res (add_dir_entry_to_cluster ?f dot ?f DIR_ENTRY_TYPE_SUBDIR ?t) (\<lambda>(_, s).
      bind_res (add_dir_entry_to_cluster ?f dotdot (hd cs) DIR_ENTRY_TYPE_SUBDIR s) (\<lambda>(_, s).
        Inr (0, s))) = Inr (0, dot_entries ?t ?f (hd cs))"
    using dots by (auto simp: bind_res_eq_Inr)
  show ?thesis
    unfolding add_dir_entry_def parent_and_target(1,2) [OF g par nm(2)] bind_res_Inr
      find_first_cluster_ok(2) [OF g par] pl(1) split_conv add
    using ends by (auto simp: entry_added_def Let_def)
qed

lemma entry_added_simps [simp]:
  "byte_per_cluster (superblock (entry_added s fl p d k nm ty)) = byte_per_cluster (superblock s)"
  "root_cluster_start (superblock (entry_added s fl p d k nm ty)) = root_cluster_start (superblock s)"
  "heap_tail (entry_added s fl p d k nm ty) = heap_tail s"
  "clock (entry_added s fl p d k nm ty) = clock s"
  "data_cluster (entry_added s fl p d k nm ty) = data_cluster s"
  by (simp_all add: entry_added_def Let_def)

lemma alloc_inv_dot_entries:
  assumes "alloc_inv s fl cls" and "data_cluster s c"
  shows "alloc_inv (dot_entries s c p) fl cls"
  using assms dot_entries_basic(1,2) [OF alloc_invD(1) [OF assms(1)] assms(2)]
  by (simp add: alloc_inv_def free_list_def)

lemma entry_added_inv:
  fixes nm :: cstring and ty :: u16
  assumes inv: "alloc_inv s fl (cs # cls)" and fl: "fl \<noteq> []"
    and slot: "first_at s cs slot_free j k" "40 * k + 40 \<le> sb_bpc s"
  defines "t \<equiv> entry_added s fl (hd cs) (cs ! j) k nm ty"
  shows "alloc_inv t (tl fl) ([hd fl] # cs # cls)"
    and "data_cluster s d \<Longrightarrow> d \<noteq> cs ! j \<Longrightarrow> d \<noteq> hd fl \<Longrightarrow> cluster_data t d = cluster_data s d"
    and "ty \<noteq> DIR_ENTRY_TYPE_SUBDIR \<Longrightarrow> cluster_data t (hd fl) = get_new_cluster s"
    and "ty = DIR_ENTRY_TYPE_SUBDIR \<Longrightarrow> dir_ok t [hd fl] \<and> unique_names t [hd fl] \<and>
      dir_empty t [hd fl] \<and> first_at t [hd fl] slot_free 0 2 \<and>
      dir_lookup t [hd fl] dot = Some (new_dir_entry s dot (hd fl) ty) \<and>
      dir_lookup t [hd fl] dotdot = Some (new_dir_entry s dotdot (hd cs) ty)"
proof -
  note pl = entry_placed(1-6) [OF inv fl slot] entry_placed(7-10) [OF inv fl slot, where nm = nm and ty = ty]
  let ?u = "put_slot (popped s fl 1) (cs ! j) k (enc_dir_entry (new_dir_entry s nm (hd fl) ty))"
  have f: "data_cluster ?u (hd fl)" using pl(5) by simp
  note g = alloc_invD(1) [OF pl(7)]
  note b = dot_entries_basic [OF g f] and d = dot_entries_dir [OF g f pl(9)]
  have t: "t = (if ty = DIR_ENTRY_TYPE_SUBDIR then dot_entries ?u (hd fl) (hd cs) else ?u)"
    by (simp add: t_def entry_added_def Let_def)
  show "alloc_inv t (tl fl) ([hd fl] # cs # cls)"
    using pl(7) alloc_inv_dot_entries [OF pl(7) f] by (auto simp: t)
  show "cluster_data t d = cluster_data s d" if "data_cluster s d" "d \<noteq> cs ! j" "d \<noteq> hd fl"
    using pl(10) [OF that] b(3) [of d] that by (auto simp: t)
  have "get_new_cluster ?u = get_new_cluster s" by (rule new_cluster_cong) simp
  then show "cluster_data t (hd fl) = get_new_cluster s" if "ty \<noteq> DIR_ENTRY_TYPE_SUBDIR"
    using pl(9) that by (simp add: t)
  have e: "new_dir_entry ?u = new_dir_entry s" by (rule new_entry_cong) simp
  show "dir_ok t [hd fl] \<and> unique_names t [hd fl] \<and>
      dir_empty t [hd fl] \<and> first_at t [hd fl] slot_free 0 2 \<and>
      dir_lookup t [hd fl] dot = Some (new_dir_entry s dot (hd fl) ty) \<and>
      dir_lookup t [hd fl] dotdot = Some (new_dir_entry s dotdot (hd cs) ty)"
    if ty: "ty = DIR_ENTRY_TYPE_SUBDIR"
    unfolding t if_P [OF ty] using d ty e by simp
qed

text \<open>In the parent, the new name maps to the new entry and nothing else changes.\<close>

lemma entry_added_parent:
  fixes nm :: cstring and ty :: u16
  assumes inv: "alloc_inv s fl (cs # cls)" and fl: "fl \<noteq> []"
    and slot: "first_at s cs slot_free j k" "40 * k + 40 \<le> sb_bpc s"
    and dir: "dir_ok s cs" and new: "name_ok nm" "dir_lookup s cs nm = None"
  defines "t \<equiv> entry_added s fl (hd cs) (cs ! j) k nm ty"
  shows "dir_lookup t cs nm = Some (new_dir_entry s nm (hd fl) ty)"
    and "nm' \<noteq> nm \<Longrightarrow> nm' \<noteq> [] \<Longrightarrow> dir_lookup t cs nm' = dir_lookup s cs nm'"
    and "dir_ok t cs"
    and "dir_slots t cs = (dir_slots s cs)[j * slot_count s + k := new_dir_entry s nm (hd fl) ty]"
    and "unique_names s cs \<Longrightarrow> unique_names t cs"
proof -
  note pl = entry_placed(1-6) [OF inv fl slot] entry_placed(7-10) [OF inv fl slot, where nm = nm and ty = ty]
  let ?p = "popped s fl 1" and ?e = "new_dir_entry s nm (hd fl) ty"
  let ?u = "put_slot ?p (cs ! j) k (enc_dir_entry ?e)"
  note i = alloc_invD [OF inv]
  have cs: "chain s (hd cs) cs" "set cs \<inter> set fl = {}" using i(5,6) by auto
  have dat: "\<forall>c \<in> set cs. data_cluster s c" using cs(1) by (simp add: chain_def)
  note fr = popped_dir_frame [OF i(1,3) fl dat cs(2)]
  have lk: "dir_lookup ?p cs = dir_lookup s cs" by (simp add: dir_lookup_def [abs_def] fr(1))
  have un: "unique_names ?p cs = unique_names s cs" by (simp add: unique_names_def fr(1))
  have e: "new_dir_entry ?p = new_dir_entry s" by (rule new_entry_cong) simp
  have pre: "dir_ok ?p cs" "dir_lookup ?p cs nm = None" "40 * k + 40 \<le> sb_bpc ?p"
    using dir new(2) slot(2) fr(2) lk by simp_all
  note add = add_entry_lookup [OF pl(2,3) pre(1) new(1) pl(4) pre(3,2), where first = "hd fl" and ty = ty,
      unfolded e lk fr(1,3) un]
  have f: "data_cluster ?u (hd fl)" using pl(5) by simp
  note g = alloc_invD(1) [OF pl(7)]
  have same: "cluster_data t c = cluster_data ?u c" if "c \<in> set cs" for c
  proof -
    have "c \<noteq> hd fl" using that pl(6) by metis
    then show ?thesis
      using dot_entries_basic(3) [OF g f, of c] that dat by (auto simp: t_def entry_added_def Let_def)
  qed
  have tu: "dir_slots t cs = dir_slots ?u cs" "dir_ok t cs = dir_ok ?u cs"
    by (intro dir_slots_frame dir_ok_frame same; simp add: t_def)+
  show "dir_lookup t cs nm = Some ?e"
    "nm' \<noteq> nm \<Longrightarrow> nm' \<noteq> [] \<Longrightarrow> dir_lookup t cs nm' = dir_lookup s cs nm'"
    "dir_ok t cs" "dir_slots t cs = (dir_slots s cs)[j * slot_count s + k := ?e]"
    "unique_names s cs \<Longrightarrow> unique_names t cs"
    using add tu by (simp_all add: dir_lookup_def unique_names_def)
qed

end
