(* ===== verification/Fat_File.thy ===== *)
theory Fat_File
  imports Fat_Create
begin

text \<open>
  File contents (\<open>src/FAT/fat.c\<close>, lines 548 to 632 and 852 to 890). The contents of a file
  are the bytes of the clusters of its chain, in order, up to the size in its directory
  entry. \<open>update_file\<close> overwrites a part of them, after lengthening the chain where needed;
  \<open>fat_read\<close> reads a part of them. Sizes and offsets have 64 bits at the interface and are
  cut to 32 bits inside; an \<open>off_t\<close> is the word of its bits and is read with \<open>sint\<close>.
\<close>

definition ENOMEM :: int where "ENOMEM = 12"

definition low32 :: "u64 \<Rightarrow> u32" where
  "low32 x = ucast x"

section \<open>Writing\<close>

text \<open>The loop over the clusters that are written completely, with the locals it changes.\<close>

fun write_full_clusters ::
  "nat \<Rightarrow> byte list \<Rightarrow> u32 \<Rightarrow> u32 \<Rightarrow> u32 \<Rightarrow> fs \<Rightarrow> (u32 \<times> u32 \<times> u32 \<times> fs) res" where
  "write_full_clusters 0 buf cur_cluster buf_offset remaining_bytes s =
     Inr (cur_cluster, buf_offset, remaining_bytes, s)"
| "write_full_clusters (Suc n) buf cur_cluster buf_offset remaining_bytes s =
     bind_res (read_fat_entry s cur_cluster) (\<lambda>cur_cluster.
     bind_res (write_cluster_to_disk (drop (unat buf_offset) buf) cur_cluster s) (\<lambda>(ret, s).
       assert_res (ret \<noteq> -1)
        (write_full_clusters n buf cur_cluster (buf_offset + byte_per_cluster (superblock s))
          (remaining_bytes - byte_per_cluster (superblock s)) s)))"

text \<open>Reading a cluster, changing a part of it and writing it back.\<close>

definition modify_cluster :: "u32 \<Rightarrow> u32 \<Rightarrow> byte list \<Rightarrow> u32 \<Rightarrow> fs \<Rightarrow> fs res" where
  "modify_cluster cur_cluster within buf num s =
     bind_res (read_entire_cluster_from_disk s cur_cluster) (\<lambda>(ret, cluster).
     assert_res (ret \<noteq> -1)
      (bind_res (peek buf 0 (unat num)) (\<lambda>bs.
       bind_res (poke cluster (unat within) bs) (\<lambda>cluster.
       bind_res (write_cluster_to_disk cluster cur_cluster s) (\<lambda>(ret, s).
         assert_res (ret \<noteq> -1) (Inr s))))))"

text \<open>The clusters behind the first one; only the last one may be written in part.\<close>

definition write_rest_clusters :: "byte list \<Rightarrow> u32 \<Rightarrow> u32 \<Rightarrow> u32 \<Rightarrow> fs \<Rightarrow> fs res" where
  "write_rest_clusters buf cur_cluster buf_offset remaining_bytes s =
     (let bpc = byte_per_cluster (superblock s);
          write_last_cluster = (if remaining_bytes mod bpc = 0 then 0 else 1);
          num_remaining_clusters = remaining_bytes div bpc + write_last_cluster
      in
      bind_res (write_full_clusters (unat (num_remaining_clusters - write_last_cluster)) buf
          cur_cluster buf_offset remaining_bytes s)
        (\<lambda>(cur_cluster, buf_offset, remaining_bytes, s).
           if write_last_cluster = 1
           then bind_res (read_fat_entry s cur_cluster) (\<lambda>cur_cluster.
             modify_cluster cur_cluster 0 (drop (unat buf_offset) buf) remaining_bytes s)
           else Inr s))"

text \<open>The second half of \<open>update_file\<close>: finding the first cluster and writing the data.\<close>

definition write_file_data :: "u32 \<Rightarrow> byte list \<Rightarrow> u64 \<Rightarrow> u64 \<Rightarrow> fs \<Rightarrow> fs res" where
  "write_file_data first_file_cluster buf sz offset s =
     (let bpc = byte_per_cluster (superblock s) in
      bind_res (walk_chain (unat (low32 offset div bpc)) s first_file_cluster) (\<lambda>cur_cluster.
      let remaining_bytes = low32 sz;
          within_cluster_offset = low32 offset mod bpc;
          num_byte_to_write = min_u32 remaining_bytes (bpc - within_cluster_offset)
      in
      bind_res
        (if num_byte_to_write < bpc
         then modify_cluster cur_cluster within_cluster_offset buf num_byte_to_write s
         else bind_res (write_cluster_to_disk buf cur_cluster s) (\<lambda>(ret, s).
           assert_res (ret \<noteq> -1) (Inr s))) (\<lambda>s.
      let remaining_bytes = remaining_bytes - num_byte_to_write in
      if remaining_bytes = 0 then Inr s
      else write_rest_clusters buf cur_cluster num_byte_to_write remaining_bytes s)))"

text \<open>
  The first half allocates clusters when the chain is too short (\<open>False\<close> when there are not
  enough of them) and updates the size.
\<close>

definition grow_file :: "u32 \<Rightarrow> u32 \<Rightarrow> u32 \<Rightarrow> fs \<Rightarrow> (bool \<times> fs) res" where
  "grow_file first_file_cluster num_cluster_allocated final_cluster_to_write s =
     (if num_cluster_allocated < final_cluster_to_write
      then bind_res (pop_free_clusters (final_cluster_to_write - num_cluster_allocated) s)
        (\<lambda>(first_freed_cluster, s).
          if first_freed_cluster = END_OF_CHAIN then Inr (False, s)
          else
            bind_res (get_last_cluster_in_chain s first_file_cluster) (\<lambda>last_cluster.
            bind_res (update_fat_entry last_cluster first_freed_cluster True s) (\<lambda>(_, s).
              Inr (True, s))))
      else Inr (True, s))"

definition update_size :: "u32 \<Rightarrow> fat_dir_entry \<Rightarrow> u32 \<Rightarrow> fs \<Rightarrow> fs res" where
  "update_size parent_cluster dir_entry final_byte_to_write s =
     (if de_size dir_entry < final_byte_to_write + 1
      then bind_res (update_dir_entry parent_cluster
          (dir_entry\<lparr>de_size := final_byte_to_write + 1, de_time := clock s\<rparr>) False s) (\<lambda>(ret, s).
        assert_res (ret \<noteq> -1) (Inr s))
      else Inr s)"

definition update_file ::
  "u32 \<Rightarrow> fat_dir_entry \<Rightarrow> byte list \<Rightarrow> u64 \<Rightarrow> u64 \<Rightarrow> fs \<Rightarrow> (int \<times> fs) res" where
  "update_file parent_cluster dir_entry buf sz offset s =
     assert_res (de_type dir_entry = DIR_ENTRY_TYPE_FILE)
      (let first_file_cluster = de_first_cluster dir_entry;
           bpc = byte_per_cluster (superblock s)
       in
       bind_res (count_cluster_in_chain s first_file_cluster) (\<lambda>num_cluster_allocated.
       if bpc = 0 then Inl Div_by_zero
       else
         let final_byte_to_write = low32 offset + low32 sz - 1;
             final_cluster_to_write = final_byte_to_write div bpc + 1
         in
         bind_res (grow_file first_file_cluster num_cluster_allocated final_cluster_to_write s)
          (\<lambda>(enough, s).
           if \<not> enough then Inr (- ENOMEM, s)
           else
             bind_res (update_size parent_cluster dir_entry final_byte_to_write s) (\<lambda>s.
             bind_res (write_file_data first_file_cluster buf sz offset s) (\<lambda>s.
               Inr (sint (low32 sz), s))))))"

section \<open>Reading\<close>

fun read_loop :: "nat \<Rightarrow> fs \<Rightarrow> u32 \<Rightarrow> u32 \<Rightarrow> u32 \<Rightarrow> byte list res" where
  "read_loop 0 s cur_cluster within_cluster_offset remaining_bytes = Inl Diverges"
| "read_loop (Suc n) s cur_cluster within_cluster_offset remaining_bytes =
     (if remaining_bytes = 0 then Inr []
      else
        let num_byte_to_read =
              min_u32 remaining_bytes (byte_per_cluster (superblock s) - within_cluster_offset)
        in
        bind_res (read_cluster_from_disk s cur_cluster 0 num_byte_to_read) (\<lambda>(ret, bs).
        assert_res (ret \<noteq> -1)
         (bind_res (read_fat_entry s cur_cluster) (\<lambda>next_cluster.
          bind_res (read_loop n s next_cluster 0 (remaining_bytes - num_byte_to_read)) (\<lambda>rest.
            Inr (bs @ rest))))))"

text \<open>The return value and the bytes stored in \<open>buf\<close>.\<close>

definition fat_read :: "cstring \<Rightarrow> u64 \<Rightarrow> u64 \<Rightarrow> fs \<Rightarrow> (int \<times> byte list) res" where
  "fat_read path sz offset s =
     assert_res (0 < strcmp_sign path [slash])
      (bind_res (find_dir_entry_by_path s path) (\<lambda>found. case found of
         None \<Rightarrow> Inl Assert_failed
       | Some dir_entry \<Rightarrow>
           if uint (de_size dir_entry) \<le> sint offset \<or> sz = 0 then Inr (0, [])
           else
             let sz = min_u32 (de_size dir_entry - low32 offset) (low32 sz);
                 bpc = byte_per_cluster (superblock s)
             in
             if bpc = 0 then Inl Div_by_zero
             else
               bind_res (walk_chain (unat (low32 offset div bpc)) s (de_first_cluster dir_entry))
                (\<lambda>cur_cluster.
                 bind_res (read_loop (Suc (unat sz)) s cur_cluster (low32 offset mod bpc) sz) (\<lambda>bs.
                   Inr (sint sz, bs)))))"

section \<open>The bytes of a chain\<close>

definition file_bytes :: "fs \<Rightarrow> u32 list \<Rightarrow> byte list" where
  "file_bytes s cs = concat (map (cluster_data s) cs)"

text \<open>\<open>t\<close> is \<open>s\<close> up to the contents of the clusters \<open>cs\<close>.\<close>

definition same_but :: "fs \<Rightarrow> fs \<Rightarrow> u32 list \<Rightarrow> bool" where
  "same_but s t cs \<longleftrightarrow>
     superblock t = superblock s \<and> sb_pad t = sb_pad s \<and> fat_table t = fat_table s \<and>
     heap_tail t = heap_tail s \<and> clock t = clock s \<and> geometry t \<and> (synced s \<longrightarrow> synced t) \<and>
     (\<forall>d. data_cluster s d \<longrightarrow> d \<notin> set cs \<longrightarrow> cluster_data t d = cluster_data s d)"

lemma same_butD:
  assumes "same_but s t cs"
  shows "superblock t = superblock s" and "sb_pad t = sb_pad s" and "fat_table t = fat_table s"
    and "heap_tail t = heap_tail s" and "clock t = clock s" and "geometry t"
    and "synced s \<Longrightarrow> synced t"
    and "data_cluster s d \<Longrightarrow> d \<notin> set cs \<Longrightarrow> cluster_data t d = cluster_data s d"
    and "data_cluster t = data_cluster s" and "fat_next t = fat_next s" and "chain t = chain s"
    and "on_disk t = on_disk s"
proof -
  have sb: "superblock t = superblock s" and ft: "fat_table t = fat_table s"
    using assms by (auto simp: same_but_def)
  show "data_cluster t = data_cluster s" by (auto simp: data_cluster_def sb)
  then show "chain t = chain s" using fat_next_cong [OF sb ft] by (simp add: chain_def [abs_def])
  show "fat_next t = fat_next s" by (rule fat_next_cong [OF sb ft])
  show "on_disk t = on_disk s" by (auto simp: on_disk_def sb)
qed (use assms in \<open>auto simp: same_but_def\<close>)

lemma same_but_layout: "same_but s t cs \<Longrightarrow> same_layout s t"
  by (simp add: same_but_def same_layout_iff)

lemma same_but_refl: "geometry s \<Longrightarrow> same_but s s cs"
  by (simp add: same_but_def)

lemma same_but_trans:
  assumes "same_but s t cs" and "same_but t u cs"
  shows "same_but s u cs"
  using same_butD [OF assms(1)] same_butD [OF assms(2)] by (simp add: same_but_def)

lemma length_file_bytes:
  "geometry s \<Longrightarrow> chain s c cs \<Longrightarrow> length (file_bytes s cs) = length cs * sb_bpc s"
  unfolding file_bytes_def by (rule clusters.length_concat_get) (auto simp: chain_def)

text \<open>Replacing a part of one cluster of the chain.\<close>

lemma put_file_block:
  assumes "geometry s" and "chain s c cs" and "i < length cs" and "w + length bs \<le> sb_bpc s"
  defines "t \<equiv> put_cluster s (cs ! i) (splice (cluster_data s (cs ! i)) w bs)"
  shows "same_but s t cs" and "file_bytes t cs = splice (file_bytes s cs) (i * sb_bpc s + w) bs"
proof -
  have dat: "\<forall>c \<in> set cs. data_cluster s c" using assms(2) by (simp add: chain_def)
  then have i: "data_cluster s (cs ! i)" using assms(3) by simp
  have len: "length (splice (cluster_data s (cs ! i)) w bs) = sb_bpc s" using assms(1,4) i by simp
  have "cluster_data t d = cluster_data s d" if "data_cluster s d" "d \<notin> set cs" for d
  proof -
    have "d \<noteq> cs ! i" using that(2) assms(3) by auto
    with assms(1) i that(1) len show ?thesis unfolding t_def by (intro clusters.get_put_other) auto
  qed
  then show "same_but s t cs"
    using assms(1) i len by (auto simp: same_but_def t_def synced_put_data)
  have "map (cluster_data t) cs = (map (cluster_data s) cs)[i := splice (cluster_data s (cs ! i)) w bs]"
    unfolding t_def using assms(1,3) dat len chain_distinct [OF assms(2)]
    by (intro clusters.map_get_put_nth) auto
  then show "file_bytes t cs = splice (file_bytes s cs) (i * sb_bpc s + w) bs"
    using concat_splice [of "map (cluster_data s) cs" "sb_bpc s" i w bs] assms(1,3,4) dat
    by (auto simp: file_bytes_def)
qed

lemma write_block_ok:
  assumes "geometry s" and "chain s c cs" and "i < length cs" and "sb_bpc s \<le> length buf"
  shows "\<exists>t. write_cluster_to_disk buf (cs ! i) s = Inr (0, t) \<and> same_but s t cs \<and>
    file_bytes t cs = splice (file_bytes s cs) (i * sb_bpc s) (take (sb_bpc s) buf)"
proof -
  have i: "data_cluster s (cs ! i)" using assms(2,3) by (auto intro: chain_data)
  have "splice (cluster_data s (cs ! i)) 0 (take (sb_bpc s) buf) = take (sb_bpc s) buf"
    using assms(1,4) i by (simp add: splice_def)
  then show ?thesis
    using put_file_block [OF assms(1-3), of 0 "take (sb_bpc s) buf"] assms i
    by (auto simp: write_cluster_ok)
qed

lemma modify_cluster_ok:
  assumes "geometry s" and "chain s c cs" and "i < length cs"
    and "unat w + unat num \<le> sb_bpc s" and "unat num \<le> length buf"
  shows "\<exists>t. modify_cluster (cs ! i) w buf num s = Inr t \<and> same_but s t cs \<and>
    file_bytes t cs = splice (file_bytes s cs) (i * sb_bpc s + unat w) (take (unat num) buf)"
proof -
  have i: "data_cluster s (cs ! i)" using assms(2,3) by (auto intro: chain_data)
  have l: "length (take (unat num) buf) = unat num" using assms(5) by simp
  show ?thesis
    using put_file_block [OF assms(1-3), of "unat w" "take (unat num) buf"] assms i l
    by (auto simp: modify_cluster_def read_entire_cluster_ok write_cluster_ok slice_def)
qed

lemma write_full_clusters_ok:
  assumes "geometry s" and "chain s c cs" and "i + n < length cs"
    and "unat off + n * sb_bpc s \<le> length buf" and "unat off + n * sb_bpc s < 2 ^ 32"
  shows "\<exists>t. write_full_clusters n buf (cs ! i) off rm s =
      Inr (cs ! (i + n), off + of_nat n * byte_per_cluster (superblock s),
           rm - of_nat n * byte_per_cluster (superblock s), t) \<and>
    same_but s t cs \<and>
    file_bytes t cs =
      splice (file_bytes s cs) (Suc i * sb_bpc s) (slice (unat off) (n * sb_bpc s) buf)"
  using assms
proof (induction n arbitrary: i off rm s)
  case 0
  then have "splice (file_bytes s cs) (Suc i * sb_bpc s) [] = file_bytes s cs"
    by (simp add: splice_def)
  then show ?case using 0 by (auto simp: same_but_refl slice_def)
next
  case (Suc n)
  let ?b = "byte_per_cluster (superblock s)"
  have nx: "read_fat_entry s (cs ! i) = Inr (cs ! Suc i)"
    using Suc.prems by (intro chain_next_nth) auto
  have room: "sb_bpc s \<le> length (drop (unat off) buf)" using Suc.prems(4) by simp
  obtain t where t: "write_cluster_to_disk (drop (unat off) buf) (cs ! Suc i) s = Inr (0, t)"
      "same_but s t cs"
      "file_bytes t cs = splice (file_bytes s cs) (Suc i * sb_bpc s) (slice (unat off) (sb_bpc s) buf)"
    using write_block_ok [OF Suc.prems(1,2) _ room, of "Suc i"] Suc.prems(3) by (auto simp: slice_def)
  note st = same_butD [OF t(2)]
  have off: "unat (off + ?b) = unat off + sb_bpc s"
    using Suc.prems(5) by (simp add: unat_word_ariths)
  have ih: "geometry t" "chain t c cs" "Suc i + n < length cs"
    "unat (off + ?b) + n * sb_bpc t \<le> length buf" "unat (off + ?b) + n * sb_bpc t < 2 ^ 32"
    using Suc.prems st off by (auto simp: algebra_simps)
  obtain u where u: "write_full_clusters n buf (cs ! Suc i) (off + ?b) (rm - ?b) t =
      Inr (cs ! (Suc i + n), off + ?b + of_nat n * ?b, rm - ?b - of_nat n * ?b, u)"
      "same_but t u cs" "file_bytes u cs =
        splice (file_bytes t cs) (Suc (Suc i) * sb_bpc s) (slice (unat off + sb_bpc s) (n * sb_bpc s) buf)"
    using Suc.IH [OF ih, of "rm - ?b"] st(1) off by auto
  let ?A = "slice (unat off) (sb_bpc s) buf"
  let ?B = "slice (unat off + sb_bpc s) (n * sb_bpc s) buf"
  have len: "length (file_bytes s cs) = length cs * sb_bpc s"
    using Suc.prems(1,2) by (rule length_file_bytes)
  have "Suc (Suc i + n) * sb_bpc s \<le> length (file_bytes s cs)"
    unfolding len using Suc.prems(3) by (intro mult_le_mono1) simp
  moreover have "length ?A = sb_bpc s" "length ?B = n * sb_bpc s" using Suc.prems(4) by simp_all
  ultimately have "file_bytes u cs = splice (file_bytes s cs) (Suc i * sb_bpc s) (?A @ ?B)"
    unfolding u(3) t(3) using splice_append [of "Suc i * sb_bpc s" ?A ?B "file_bytes s cs"]
    by (simp add: algebra_simps)
  then have "file_bytes u cs = splice (file_bytes s cs) (Suc i * sb_bpc s)
      (slice (unat off) (Suc n * sb_bpc s) buf)"
    by (simp add: slice_adjacent)
  then show ?case
    using nx t(1) u(1) st(1) same_but_trans [OF t(2) u(2)] by (auto simp: algebra_simps)
qed

text \<open>The words of the loop over full clusters, as numbers: \<open>q\<close> full clusters and \<open>r\<close> bytes.\<close>

lemma rest_words:
  fixes rm off :: u32 and s :: fs
  assumes "unat off + unat rm < 2 ^ 32"
  defines "q \<equiv> unat rm div sb_bpc s" and "r \<equiv> unat rm mod sb_bpc s"
  shows "unat (rm div byte_per_cluster (superblock s)) = q"
    and "unat (rm - of_nat q * byte_per_cluster (superblock s)) = r"
    and "unat (off + of_nat q * byte_per_cluster (superblock s)) = unat off + q * sb_bpc s"
    and "rm mod byte_per_cluster (superblock s) = 0 \<longleftrightarrow> r = 0" and "unat rm = q * sb_bpc s + r"
proof -
  show rm: "unat rm = q * sb_bpc s + r" by (simp add: q_def r_def)
  show "unat (rm div byte_per_cluster (superblock s)) = q" by (simp add: q_def unat_div_distrib)
  show "rm mod byte_per_cluster (superblock s) = 0 \<longleftrightarrow> r = 0"
    by (simp add: r_def word_unat_eq_iff unat_mod_distrib)
  have "q < 4294967296"
    unfolding q_def by (rule le_less_trans [OF div_le_dividend unat_u32_bound])
  then have qw: "unat (of_nat q * byte_per_cluster (superblock s)) = q * sb_bpc s"
    using assms(1) rm by (simp add: unat_word_ariths unat_of_nat)
  show "unat (rm - of_nat q * byte_per_cluster (superblock s)) = r"
    "unat (off + of_nat q * byte_per_cluster (superblock s)) = unat off + q * sb_bpc s"
    using rm qw assms(1) by (simp_all add: unat_sub word_le_nat_alt unat_word_ariths)
qed

lemma write_rest_ok:
  fixes rm off :: u32 and s :: fs
  assumes "geometry s" and "chain s c cs"
    and "Suc i * sb_bpc s + unat rm \<le> length cs * sb_bpc s" and "i < length cs"
    and "unat off + unat rm \<le> length buf" and "unat off + unat rm < 2 ^ 32"
  shows "\<exists>t. write_rest_clusters buf (cs ! i) off rm s = Inr t \<and> same_but s t cs \<and>
    file_bytes t cs = splice (file_bytes s cs) (Suc i * sb_bpc s) (slice (unat off) (unat rm) buf)"
proof -
  let ?b = "byte_per_cluster (superblock s)"
  define q r where "q = unat rm div sb_bpc s" and "r = unat rm mod sb_bpc s"
  have b: "0 < sb_bpc s" using geometryD(2) [OF assms(1)] by simp
  note words = rest_words [OF assms(6), of s, folded q_def r_def]
  note w = words(1) and rw = words(2) and ow = words(3) and r0 = words(4) and rm = words(5)
  have qb: "Suc (i + q) * sb_bpc s + r \<le> length cs * sb_bpc s"
    using assms(3) by (simp add: rm algebra_simps)
  then have iq: "i + q < length cs"
    using b by (metis Suc_le_eq add_leD1 mult_le_cancel2)
  obtain t where t: "write_full_clusters q buf (cs ! i) off rm s =
        Inr (cs ! (i + q), off + of_nat q * ?b, rm - of_nat q * ?b, t)"
      "same_but s t cs" "file_bytes t cs =
        splice (file_bytes s cs) (Suc i * sb_bpc s) (slice (unat off) (q * sb_bpc s) buf)"
    using write_full_clusters_ok [OF assms(1,2) iq, of off buf rm] assms(5,6) rm by auto
  note st = same_butD [OF t(2)]
  show ?thesis
  proof (cases "r = 0")
    case True
    then show ?thesis
      using t r0 rm by (simp add: write_rest_clusters_def Let_def w)
  next
    case False
    have lt: "Suc (i + q) < length cs"
      using qb by (rule block_index_less) (use False in simp)
    have nx: "read_fat_entry t (cs ! (i + q)) = Inr (cs ! Suc (i + q))"
      using st assms lt by (intro chain_next_nth) auto
    let ?buf = "drop (unat off + q * sb_bpc s) buf"
    have rb: "r < sb_bpc s" unfolding r_def using b by (rule mod_less_divisor)
    have c1: "unat (0 :: u32) + unat (rm - of_nat q * ?b) \<le> sb_bpc t"
      and c2: "unat (rm - of_nat q * ?b) \<le> length ?buf"
      and ch: "chain t c cs"
      using rw rb st assms(2,5) rm by simp_all
    obtain u where u: "modify_cluster (cs ! Suc (i + q)) 0 ?buf (rm - of_nat q * ?b) t = Inr u"
        "same_but t u cs"
        "file_bytes u cs = splice (file_bytes t cs) (Suc (i + q) * sb_bpc s) (take r ?buf)"
      using modify_cluster_ok [OF st(6) ch lt c1 c2] rw st(1) by auto
    have "file_bytes u cs = splice (file_bytes s cs) (Suc i * sb_bpc s) (slice (unat off) (unat rm) buf)"
      unfolding rm
      by (rule splice_slices [OF t(3)])
        (use u(3) assms(5) rm qb length_file_bytes [OF assms(1,2)] in \<open>simp_all add: slice_def algebra_simps\<close>)
    then show ?thesis
      using t(1) u(1,2) r0 False nx ow same_but_trans [OF t(2) u(2)]
      by (simp add: write_rest_clusters_def Let_def w)
  qed
qed

text \<open>The first cluster: written without reading when all of it changes.\<close>

lemma write_first_ok:
  fixes num :: u32
  assumes "geometry s" and "chain s c cs" and "i < length cs"
    and "unat w + unat num \<le> sb_bpc s" and "unat num \<le> length buf"
  shows "\<exists>t. (if num < byte_per_cluster (superblock s) then modify_cluster (cs ! i) w buf num s
      else bind_res (write_cluster_to_disk buf (cs ! i) s) (\<lambda>(ret, s).
        assert_res (ret \<noteq> -1) (Inr s))) = Inr t \<and>
    same_but s t cs \<and>
    file_bytes t cs = splice (file_bytes s cs) (i * sb_bpc s + unat w) (take (unat num) buf)"
proof (cases "num < byte_per_cluster (superblock s)")
  case True
  then show ?thesis using modify_cluster_ok [OF assms] by simp
next
  case False
  then have "unat num = sb_bpc s" "unat w = 0"
    using assms(4) by (simp_all add: word_less_nat_alt)
  then show ?thesis using write_block_ok [OF assms(1-3), of buf] assms(5) False by auto
qed

text \<open>The words at the start of a write: the first cluster takes what is left of it.\<close>

lemma first_words:
  fixes sz off :: u32 and s :: fs
  assumes "0 < sb_bpc s"
  defines "w \<equiv> unat off mod sb_bpc s"
  defines "num \<equiv> min_u32 sz (byte_per_cluster (superblock s) - off mod byte_per_cluster (superblock s))"
  shows "unat (off div byte_per_cluster (superblock s)) = unat off div sb_bpc s"
    and "unat (off mod byte_per_cluster (superblock s)) = w" and "w < sb_bpc s"
    and "unat num = min (unat sz) (sb_bpc s - w)" and "unat (sz - num) = unat sz - unat num"
proof -
  show w: "w < sb_bpc s" unfolding w_def using assms(1) by (rule mod_less_divisor)
  show "unat (off div byte_per_cluster (superblock s)) = unat off div sb_bpc s"
    by (simp add: unat_div_distrib)
  show m: "unat (off mod byte_per_cluster (superblock s)) = w" by (simp add: w_def unat_mod_distrib)
  show num: "unat num = min (unat sz) (sb_bpc s - w)"
    using w m by (auto simp: num_def min_u32_def word_less_nat_alt unat_sub word_le_nat_alt)
  then show "unat (sz - num) = unat sz - unat num" by (simp add: unat_sub word_le_nat_alt)
qed

lemma write_file_data_ok:
  fixes sz offset :: u64
  assumes "geometry s" and "chain s c cs"
    and "0 < unat (low32 sz)" and "unat (low32 sz) \<le> length buf"
    and "unat (low32 offset) + unat (low32 sz) \<le> length cs * sb_bpc s"
  shows "\<exists>t. write_file_data c buf sz offset s = Inr t \<and> same_but s t cs \<and>
    file_bytes t cs =
      splice (file_bytes s cs) (unat (low32 offset)) (take (unat (low32 sz)) buf)"
proof -
  let ?b = "byte_per_cluster (superblock s)" and ?N = "low32 sz" and ?O = "low32 offset"
  let ?num = "min_u32 ?N (?b - ?O mod ?b)"
  define i w where "i = unat ?O div sb_bpc s" and "w = unat ?O mod sb_bpc s"
  have b: "0 < sb_bpc s" using geometryD(2) [OF assms(1)] by simp
  have O: "unat ?O = i * sb_bpc s + w" by (simp add: i_def w_def)
  note iw = first_words(1,2) [where off = ?O, OF b, folded i_def w_def]
    and wb = first_words(3) [where off = ?O, OF b, folded w_def]
    and num = first_words(4) [where sz = ?N and off = ?O, OF b, folded w_def]
    and rm = first_words(5) [where sz = ?N and off = ?O, OF b]
  have L: "length cs * sb_bpc s < 2 ^ 32"
    using chain_length(1) [OF assms(1,2)] disk_offsets [OF assms(1)]
    by (meson le_less_trans mult_le_mono1)
  have i: "i < length cs"
    by (rule block_index_less [of _ "sb_bpc s" "w + unat ?N"]) (use assms(3,5) O in simp_all)
  have walk: "walk_chain i s c = Inr (cs ! i)" using assms(1,2) i by (rule walk_chain_ok)
  have c1: "unat (?O mod ?b) + unat ?num \<le> sb_bpc s" and c2: "unat ?num \<le> length buf"
    using num iw(2) wb assms(4) by simp_all
  obtain t where t: "(if ?num < ?b then modify_cluster (cs ! i) (?O mod ?b) buf ?num s
      else bind_res (write_cluster_to_disk buf (cs ! i) s) (\<lambda>(ret, s).
        assert_res (ret \<noteq> -1) (Inr s))) = Inr t" "same_but s t cs"
      "file_bytes t cs = splice (file_bytes s cs) (unat ?O) (take (unat ?num) buf)"
    using write_first_ok [OF assms(1,2) i c1 c2] iw(2) O by auto
  have unf: "write_file_data c buf sz offset s =
      (if ?N - ?num = 0 then Inr t else write_rest_clusters buf (cs ! i) ?num (?N - ?num) t)"
    unfolding write_file_data_def Let_def iw(1) walk bind_res_Inr t(1) by simp
  show ?thesis
  proof (cases "?N - ?num = 0")
    case True
    then show ?thesis using unf t by simp
  next
    case False
    note st = same_butD [OF t(2)]
    have "unat (?N - ?num) \<noteq> 0" using False by (metis unat_eq_zero)
    then have "unat ?num < unat ?N" unfolding rm by simp
    then have n: "unat ?num = sb_bpc s - w" and lt: "sb_bpc s - w < unat ?N"
      unfolding num by simp_all
    have e: "unat ?O + unat ?num = Suc i * sb_bpc s" using O n wb by simp
    have "chain t c cs" "Suc i * sb_bpc t + unat (?N - ?num) \<le> length cs * sb_bpc t"
      "unat ?num + unat (?N - ?num) \<le> length buf" "unat ?num + unat (?N - ?num) < 2 ^ 32"
      using st assms(2,4,5) e rm n lt L by simp_all
    then obtain u where u: "write_rest_clusters buf (cs ! i) ?num (?N - ?num) t = Inr u"
        "same_but t u cs" "file_bytes u cs =
          splice (file_bytes t cs) (Suc i * sb_bpc s) (slice (unat ?num) (unat (?N - ?num)) buf)"
      using write_rest_ok [OF st(6), of c cs i "?N - ?num" ?num buf] i st(1) by auto
    have "file_bytes u cs = splice (file_bytes s cs) (unat ?O) (slice 0 (unat ?num + unat (?N - ?num)) buf)"
      by (rule splice_slices)
        (use u(3) t(3) e rm n lt assms(4,5) length_file_bytes [OF assms(1,2)] in \<open>simp_all add: slice_def\<close>)
    then have "file_bytes u cs = splice (file_bytes s cs) (unat ?O) (take (unat ?N) buf)"
      using rm n lt by (simp add: slice_def)
    then show ?thesis using unf False u(1) same_but_trans [OF t(2) u(2)] by auto
  qed
qed

end
