(* ===== verification/Fat_Write.thy ===== *)
theory Fat_Write
  imports Fat_File
begin

text \<open>
  Correctness of \<open>update_file\<close> (\<open>src/FAT/fat.c\<close>, lines 548 to 632) as a whole: the chain
  grows by exactly the clusters that are missing, the directory entry gets the new size, the
  bytes at the offset are replaced, and nothing else on the disk changes. When the free list
  is too short the call reports it and changes nothing, except that a request for one
  cluster more than there are is an access out of bounds.
\<close>

section \<open>Growing the chain\<close>

lemma of_nat_less_u32:
  "a < 2 ^ 32 \<Longrightarrow> b < 2 ^ 32 \<Longrightarrow> (of_nat a :: u32) < of_nat b \<longleftrightarrow> a < b"
  by (simp add: word_less_nat_alt unat_of_nat)

lemma unat_diff_of_nat:
  assumes "a < 2 ^ 32" and "b < 2 ^ 32" and "b \<le> a"
  shows "unat ((of_nat a :: u32) - of_nat b) = a - b"
proof -
  have "(of_nat a :: u32) - of_nat b = of_nat (a - b)" using assms(3) by (simp add: of_nat_diff)
  then show ?thesis using assms(1) by (simp add: unat_of_nat)
qed

lemma chain_length_u32: "geometry s \<Longrightarrow> chain s c cs \<Longrightarrow> length cs < 2 ^ 32"
  using chain_length(1) [of s c cs] unat_u32_bound [of "cluster_count (superblock s)"] by simp

definition grown :: "fs \<Rightarrow> u32 list \<Rightarrow> nat \<Rightarrow> u32 list \<Rightarrow> fs" where
  "grown s fl g fs = (if g = 0 then s else extended s fl g fs)"

lemma grown_simps [simp]:
  "byte_per_cluster (superblock (grown s fl g fs)) = byte_per_cluster (superblock s)"
  "root_cluster_start (superblock (grown s fl g fs)) = root_cluster_start (superblock s)"
  "heap_tail (grown s fl g fs) = heap_tail s" "clock (grown s fl g fs) = clock s"
  "data_cluster (grown s fl g fs) = data_cluster s"
  by (simp_all add: grown_def)

lemma grown_layout: "same_layout s (grown s fl g fs)"
  by (simp add: grown_def same_layout_iff)

lemma grow_file_ok:
  assumes "alloc_inv s fl (fs # cls)" and "need < 2 ^ 32" and "need - length fs \<le> length fl"
  shows "grow_file (hd fs) (of_nat (length fs)) (of_nat need) s =
    Inr (True, grown s fl (need - length fs) fs)"
proof (cases "length fs < need")
  case True
  note i = alloc_invD [OF assms(1)]
  let ?g = "need - length fs"
  have fs: "chain s (hd fs) fs" "fs \<noteq> []" "set fs \<inter> set fl = {}" using i(4-6) by auto
  have len: "length fs < 2 ^ 32" using i(1) fs(1) by (rule chain_length_u32)
  have g: "0 < ?g" using True by simp
  have ug: "unat ((of_nat need :: u32) - of_nat (length fs)) = ?g"
    using assms(2) len True by (intro unat_diff_of_nat) auto
  then have pos: "0 < (of_nat need :: u32) - of_nat (length fs)"
    using g by (simp add: word_less_nat_alt)
  have pop: "pop_free_clusters (of_nat need - of_nat (length fs)) s = Inr (hd fl, popped s fl ?g)"
    using pop_free_clusters_ok [OF i(1,3) pos] ug assms(3) by simp
  have "fl \<noteq> []" using assms(3) g by auto
  then have h: "hd fl \<noteq> 0"
    using i(3) unfolding free_list_def by (cases fl) (auto simp: chain_Cons data_cluster_def)
  have hf: "hd fs \<noteq> 0" using fs(1,2) by (rule chain_hd_not_0)
  have gp: "geometry (popped s fl ?g)" using i(1,3) g assms(3) by (rule popped_geometry)
  have lst: "get_last_cluster_in_chain (popped s fl ?g) (hd fs) = Inr (last fs)"
    using gp popped_other_chain [OF i(1,3) g assms(3) fs(1,3)] hf by (rule get_last_cluster_ok)
  have "data_cluster s (last fs)" using fs(1) hf by (rule chain_last)
  then have upd: "update_fat_entry (last fs) (hd fl) True (popped s fl ?g) = Inr (0, extended s fl ?g fs)"
    using gp by (simp add: update_fat_entry_through extended_def)
  show ?thesis
    unfolding grow_file_def of_nat_less_u32 [OF len assms(2)]
    using True g pop h lst upd by (simp add: END_OF_CHAIN_def grown_def)
next
  case False
  note i = alloc_invD [OF assms(1)]
  have len: "length fs < 2 ^ 32" using i(1,5) by (intro chain_length_u32) auto
  show ?thesis
    unfolding grow_file_def of_nat_less_u32 [OF len assms(2)] using False by (simp add: grown_def)
qed

lemma grow_file_full:
  assumes "alloc_inv s fl (fs # cls)" and "need < 2 ^ 32" and "length fl < need - length fs"
  shows "grow_file (hd fs) (of_nat (length fs)) (of_nat need) s =
    (if need - length fs = length fl + 1 then Inl Out_of_bounds else Inr (False, s))"
proof -
  note i = alloc_invD [OF assms(1)]
  have len: "length fs < 2 ^ 32" using i(1,5) by (intro chain_length_u32) auto
  have ug: "unat ((of_nat need :: u32) - of_nat (length fs)) = need - length fs"
    using assms(2,3) len by (intro unat_diff_of_nat) auto
  show ?thesis
    unfolding grow_file_def of_nat_less_u32 [OF len assms(2)]
    using assms(3) ug pop_free_clusters_one_more [OF i(1,3)] pop_free_clusters_short [OF i(1,3)] by simp
qed

lemma grown_inv:
  assumes "alloc_inv s fl (fs # cls)" and "g \<le> length fl"
  shows "alloc_inv (grown s fl g fs) (drop g fl) ((fs @ take g fl) # cls)"
    and "data_cluster s d \<Longrightarrow> d \<notin> set fl \<Longrightarrow> cluster_data (grown s fl g fs) d = cluster_data s d"
    and "file_bytes (grown s fl g fs) (fs @ take g fl) = file_bytes s fs @ replicate (g * sb_bpc s) 0"
proof -
  note i = alloc_invD [OF assms(1)]
  have fs: "chain s (hd fs) fs" "fs \<noteq> []" "set fs \<inter> set fl = {}" using i(4-6) by auto
  have hf: "hd fs \<noteq> 0" using fs(1,2) by (rule chain_hd_not_0)
  show "alloc_inv (grown s fl g fs) (drop g fl) ((fs @ take g fl) # cls)"
    using assms alloc_inv_extend [OF assms(1)] by (simp add: grown_def)
  have data: "cluster_data (grown s fl g fs) d =
      (if d \<in> set (take g fl) then get_new_cluster s else cluster_data s d)" if "data_cluster s d" for d
    using extended_facts(5) [OF i(1,3) _ assms(2) fs(1) hf fs(3) that] by (cases "g = 0") (auto simp: grown_def)
  show "cluster_data (grown s fl g fs) d = cluster_data s d" if "data_cluster s d" "d \<notin> set fl"
    using data [OF that(1)] that(2) by (auto dest: in_set_takeD)
  have m1: "map (cluster_data (grown s fl g fs)) fs = map (cluster_data s) fs"
    using data chain_data [OF fs(1)] fs(3) by (auto dest: in_set_takeD)
  have m2: "map (cluster_data (grown s fl g fs)) (take g fl) = map (\<lambda>_. get_new_cluster s) (take g fl)"
    using data free_list_take_data [OF i(3)] by auto
  have m3: "concat (map (\<lambda>_. get_new_cluster s) xs) = replicate (length xs * sb_bpc s) 0" for xs :: "u32 list"
    by (induction xs) (auto simp: get_new_cluster_def replicate_add)
  show "file_bytes (grown s fl g fs) (fs @ take g fl) = file_bytes s fs @ replicate (g * sb_bpc s) 0"
    unfolding file_bytes_def map_append concat_append m1 m2 m3 using assms(2) by simp
qed

section \<open>Recording the size\<close>

lemma alloc_inv_same_but:
  assumes "alloc_inv s fl cls" and "same_but s t cs"
  shows "alloc_inv t fl cls"
  using assms(1) same_butD [OF assms(2)] by (auto simp: alloc_inv_def free_list_def)

lemma dir_frame_same_but:
  assumes "same_but s t cs" and "\<forall>c \<in> set ds. data_cluster s c" and "set ds \<inter> set cs = {}"
  shows "dir_slots t ds = dir_slots s ds" and "dir_ok t ds = dir_ok s ds"
proof -
  note st = same_butD [OF assms(1)]
  have "cluster_data t c = cluster_data s c" if "c \<in> set ds" for c
    using st(8) assms(2,3) that by blast
  then show "dir_slots t ds = dir_slots s ds" "dir_ok t ds = dir_ok s ds"
    using st(1,4) by (intro dir_slots_frame dir_ok_frame; simp)+
qed

lemma lookup_cong: "dir_slots t ds = dir_slots s ds \<Longrightarrow> dir_lookup t ds = dir_lookup s ds"
  by (simp add: dir_lookup_def [abs_def])

lemma same_but_put_slot:
  assumes "geometry s" and "data_cluster s c" and "40 * k + length bs \<le> sb_bpc s" and "c \<in> set cs"
  shows "same_but s (put_slot s c k bs) cs"
  using assms put_slot_ok [OF assms(1-3)] by (auto simp: same_but_def)

definition sized :: "fs \<Rightarrow> fat_dir_entry \<Rightarrow> nat \<Rightarrow> fat_dir_entry" where
  "sized s e n = (if unat (de_size e) < n then e\<lparr>de_size := of_nat n, de_time := clock s\<rparr> else e)"

lemma sized_simps:
  "n < 2 ^ 32 \<Longrightarrow> unat (de_size (sized s e n)) = max (unat (de_size e)) n"
  "de_first_cluster (sized s e n) = de_first_cluster e" "de_type (sized s e n) = de_type e"
  by (simp_all add: sized_def unat_of_nat max_def)

lemma update_size_ok:
  assumes "geometry s" and "chain s p ps" and "p \<noteq> 0" and "dir_ok s ps"
    and "dir_lookup s ps nm = Some e" and "nm \<noteq> []" and "n < 2 ^ 32"
  shows "\<exists>t. update_size p e (of_nat n - 1) s = Inr t \<and> same_but s t ps \<and>
    dir_lookup t ps nm = Some (sized s e n) \<and>
    (\<forall>nm'. nm' \<noteq> nm \<longrightarrow> dir_lookup t ps nm' = dir_lookup s ps nm') \<and> dir_ok t ps \<and>
    (unique_names s ps \<longrightarrow> unique_names t ps)"
proof (cases "unat (de_size e) < n")
  case True
  let ?e = "e\<lparr>de_size := of_nat n, de_time := clock s\<rparr>"
  have lt: "de_size e < of_nat n" using True assms(7) by (simp add: word_less_nat_alt unat_of_nat)
  have nm: "de_name ?e = de_name e" by simp
  obtain j k where u: "j < length ps" "k < slot_count s" "40 * k + 40 \<le> sb_bpc s"
      "update_dir_entry p ?e False s = Inr (0, put_slot s (ps ! j) k (enc_dir_entry ?e))"
      "dir_lookup (put_slot s (ps ! j) k (enc_dir_entry ?e)) ps nm = Some ?e"
      "\<forall>nm'. nm' \<noteq> nm \<longrightarrow>
        dir_lookup (put_slot s (ps ! j) k (enc_dir_entry ?e)) ps nm' = dir_lookup s ps nm'"
      "dir_ok (put_slot s (ps ! j) k (enc_dir_entry ?e)) ps"
      "unique_names s ps \<longrightarrow> unique_names (put_slot s (ps ! j) k (enc_dir_entry ?e)) ps"
    using update_dir_entry_ok [OF assms(1-6) nm] by blast
  have "length (de_name ?e) = 22" using dir_lookup_slot(2) [OF assms(4,5)] by simp
  then have "40 * k + length (enc_dir_entry ?e) \<le> sb_bpc s" using u(3) by (simp add: dir_codec.enc_len)
  then have "same_but s (put_slot s (ps ! j) k (enc_dir_entry ?e)) ps"
    using assms(1) chain_data [OF assms(2)] u(1) by (intro same_but_put_slot) auto
  moreover have "update_size p e (of_nat n - 1) s = Inr (put_slot s (ps ! j) k (enc_dir_entry ?e))"
    using u(4) lt by (simp add: update_size_def)
  ultimately show ?thesis using u(5-8) True unfolding sized_def by (intro exI conjI) auto
next
  case False
  have "\<not> de_size e < of_nat n" using False assms(7) by (simp add: word_less_nat_alt unat_of_nat)
  then show ?thesis
    using assms(1,4,5) False by (simp add: update_size_def sized_def same_but_refl)
qed

section \<open>The whole update\<close>

definition clusters_for :: "fs \<Rightarrow> nat \<Rightarrow> nat" where
  "clusters_for s n = (n - 1) div sb_bpc s + 1"

lemma clusters_for_enough: "0 < sb_bpc s \<Longrightarrow> n \<le> clusters_for s n * sb_bpc s"
  unfolding clusters_for_def using dividend_less_div_times [of "sb_bpc s" "n - 1"]
  by (simp add: algebra_simps)

lemma clusters_for_fits:
  assumes "0 < sb_bpc s" and "g = clusters_for s n - length fs" and "g \<le> length fl"
  shows "n \<le> length (fs @ take g fl) * sb_bpc s"
proof -
  have "n \<le> clusters_for s n * sb_bpc s" using assms(1) by (rule clusters_for_enough)
  also have "\<dots> \<le> length (fs @ take g fl) * sb_bpc s"
    using assms(2,3) by (intro mult_le_mono1) simp
  finally show ?thesis .
qed

lemma clusters_for_word:
  fixes sz offset :: u64
  assumes "0 < unat (low32 sz)" and "unat (low32 offset) + unat (low32 sz) < 2 ^ 32"
    and "512 \<le> sb_bpc s"
  defines "n \<equiv> unat (low32 offset) + unat (low32 sz)"
  shows "low32 offset + low32 sz - 1 = of_nat n - 1"
    and "(of_nat n - 1) div byte_per_cluster (superblock s) + 1 = of_nat (clusters_for s n)"
    and "clusters_for s n < 2 ^ 32"
proof -
  show e: "low32 offset + low32 sz - 1 = of_nat n - 1" by (simp add: n_def)
  have n: "0 < n" "n < 2 ^ 32" using assms(1,2) by (auto simp: n_def)
  have m: "(of_nat n - 1 :: u32) = of_nat (n - 1)" using n(1) by (simp add: of_nat_diff)
  have "unat (of_nat n - 1 :: u32) = n - 1" unfolding m using n by (subst unat_of_nat) simp
  then have "unat ((of_nat n - 1 :: u32) div byte_per_cluster (superblock s)) = (n - 1) div sb_bpc s"
    by (simp add: unat_div_distrib)
  then have "(of_nat n - 1 :: u32) div byte_per_cluster (superblock s) = of_nat ((n - 1) div sb_bpc s)"
    by (metis unat_div_distrib of_nat_unat ucast_id)
  then show "(of_nat n - 1) div byte_per_cluster (superblock s) + 1 = of_nat (clusters_for s n)"
    by (simp add: clusters_for_def)
  have "(n - 1) div sb_bpc s \<le> (n - 1) div 512" using assms(3) by (rule div_le_mono2 [rotated]) simp
  then show "clusters_for s n < 2 ^ 32" using n by (simp add: clusters_for_def)
qed

lemma file_bytes_frame:
  "same_but s t ps \<Longrightarrow> chain s c cs \<Longrightarrow> set cs \<inter> set ps = {} \<Longrightarrow> file_bytes t cs = file_bytes s cs"
  unfolding file_bytes_def
  by (intro arg_cong [where f = concat] map_cong refl) (metis same_butD(8) chain_data disjoint_iff)

text \<open>The directory of a file that has grown is as before.\<close>

lemma grown_parent:
  assumes inv: "alloc_inv s fl (fs # ps # cls)" and room: "g \<le> length fl"
  defines "t \<equiv> grown s fl g fs"
  shows "chain t (hd ps) ps" and "hd ps \<noteq> 0" and "\<forall>c \<in> set ps. data_cluster s c"
    and "set ps \<inter> set (fs @ take g fl) = {}" and "set (fs @ take g fl) \<inter> set ps = {}"
    and "dir_slots t ps = dir_slots s ps" and "dir_ok t ps = dir_ok s ps"
    and "dir_lookup t ps nm = dir_lookup s ps nm"
proof -
  note i = alloc_invD [OF inv] and g1 = grown_inv [OF inv room, folded t_def]
  have ps: "chain s (hd ps) ps" "ps \<noteq> []" "set ps \<inter> set fl = {}" using i(4-6) by auto
  show "chain t (hd ps) ps" "set ps \<inter> set (fs @ take g fl) = {}" "set (fs @ take g fl) \<inter> set ps = {}"
    using alloc_invD(5) [OF g1(1)] alloc_inv_disjoint(1,2) [OF g1(1)] by auto
  show "hd ps \<noteq> 0" by (rule chain_hd_not_0 [OF ps(1,2)])
  show dps: "\<forall>c \<in> set ps. data_cluster s c" using ps(1) by (simp add: chain_def)
  have fr: "cluster_data t c = cluster_data s c" if "c \<in> set ps" for c
    using g1(2) dps ps(3) that by blast
  show d: "dir_slots t ps = dir_slots s ps" "dir_ok t ps = dir_ok s ps"
    by (intro dir_slots_frame dir_ok_frame fr; simp add: t_def)+
  show "dir_lookup t ps nm = dir_lookup s ps nm" using lookup_cong [OF d(1)] by simp
qed

lemma update_file_ok:
  fixes sz offset :: u64
  assumes inv: "alloc_inv s fl (fs # ps # cls)" and dir: "dir_ok s ps" "unique_names s ps"
    and ent: "dir_lookup s ps nm = Some e" "nm \<noteq> []"
    and isfile: "de_type e = DIR_ENTRY_TYPE_FILE" "de_first_cluster e = hd fs"
    and size: "0 < unat (low32 sz)" "unat (low32 sz) \<le> length buf"
      "unat (low32 offset) + unat (low32 sz) < 2 ^ 32"
  defines "n \<equiv> unat (low32 offset) + unat (low32 sz)"
  defines "g \<equiv> clusters_for s n - length fs"
  assumes room: "g \<le> length fl"
  shows "\<exists>t. update_file (hd ps) e buf sz offset s = Inr (sint (low32 sz), t) \<and>
    alloc_inv t (drop g fl) ((fs @ take g fl) # ps # cls) \<and>
    file_bytes t (fs @ take g fl) = splice (file_bytes s fs @ replicate (g * sb_bpc s) 0)
      (unat (low32 offset)) (take (unat (low32 sz)) buf) \<and>
    dir_lookup t ps nm = Some (sized s e n) \<and>
    (\<forall>nm'. nm' \<noteq> nm \<longrightarrow> dir_lookup t ps nm' = dir_lookup s ps nm') \<and>
    dir_ok t ps \<and> unique_names t ps \<and> same_layout s t \<and>
    (\<forall>d. data_cluster s d \<longrightarrow> d \<notin> set (fs @ ps @ fl) \<longrightarrow> cluster_data t d = cluster_data s d)"
proof -
  note i = alloc_invD [OF inv]
  let ?F = "fs @ take g fl" and ?s1 = "grown s fl g fs"
  have fs: "chain s (hd fs) fs" "fs \<noteq> []" using i(4,5) by auto
  have b: "0 < sb_bpc s" "byte_per_cluster (superblock s) \<noteq> 0"
    using geometryD(2) [OF i(1)] bpc_not_0 [OF i(1)] by auto
  note w = clusters_for_word [OF size(1,3) geometryD(2) [OF i(1)], folded n_def]
  have grow: "grow_file (hd fs) (of_nat (length fs)) (of_nat (clusters_for s n)) s = Inr (True, ?s1)"
    unfolding g_def using inv w(3) room [unfolded g_def] by (rule grow_file_ok)
  note g1 = grown_inv [OF inv room]
  note i1 = alloc_invD [OF g1(1)]
  have F: "chain ?s1 (hd fs) ?F" using i1(5) [of ?F] fs(2) by simp
  note gp = grown_parent [OF inv room]
  have pre: "dir_ok ?s1 ps" "dir_lookup ?s1 ps nm = Some e" using dir(1) ent(1) gp(7,8) by simp_all
  obtain s2 where s2: "update_size (hd ps) e (of_nat n - 1) ?s1 = Inr s2" "same_but ?s1 s2 ps"
      "dir_lookup s2 ps nm = Some (sized ?s1 e n)"
      "\<forall>nm'. nm' \<noteq> nm \<longrightarrow> dir_lookup s2 ps nm' = dir_lookup ?s1 ps nm'" "dir_ok s2 ps"
      "unique_names ?s1 ps \<longrightarrow> unique_names s2 ps"
    using update_size_ok [OF i1(1) gp(1,2) pre ent(2) size(3) [folded n_def]] by blast
  note st2 = same_butD [OF s2(2)]
  have un: "unique_names s2 ps" using s2(6) dir(2) gp(6) by (simp add: unique_names_def)
  have fits: "unat (low32 offset) + unat (low32 sz) \<le> length ?F * sb_bpc s2"
    using clusters_for_fits [OF b(1) g_def [THEN meta_eq_to_obj_eq] room] st2(1) by (simp add: n_def)
  have F2: "chain s2 (hd fs) ?F" "file_bytes s2 ?F = file_bytes s fs @ replicate (g * sb_bpc s) 0"
    using F st2(11) file_bytes_frame [OF s2(2) F gp(5)] g1(3) by simp_all
  obtain t where t: "write_file_data (hd fs) buf sz offset s2 = Inr t" "same_but s2 t ?F"
      "file_bytes t ?F = splice (file_bytes s2 ?F) (unat (low32 offset)) (take (unat (low32 sz)) buf)"
    using write_file_data_ok [OF st2(6) F2(1) size(1,2) fits] by blast
  have dt: "dir_slots t ps = dir_slots s2 ps" "dir_ok t ps = dir_ok s2 ps"
    using dir_frame_same_but [OF t(2) _ gp(4)] gp(3) st2(9) by simp_all
  have "update_file (hd ps) e buf sz offset s = Inr (sint (low32 sz), t)"
    using isfile b(2) count_cluster_ok [OF i(1) fs(1)] grow s2(1) t(1)
    by (simp only: update_file_def Let_def assert_res_True bind_res_Inr w(1,2) split_conv simp_thms if_False)
  moreover have "alloc_inv t (drop g fl) (?F # ps # cls)"
    by (rule alloc_inv_same_but [OF alloc_inv_same_but [OF g1(1) s2(2)] t(2)])
  moreover have "dir_lookup t ps nm = Some (sized s e n)" using s2(3) lookup_cong [OF dt(1)]
    by (simp add: sized_def)
  moreover have "dir_lookup t ps nm' = dir_lookup s ps nm'" if "nm' \<noteq> nm" for nm'
    using s2(4) that gp(8) lookup_cong [OF dt(1)] by simp
  moreover have "dir_ok t ps" "unique_names t ps" using dt s2(5) un by (simp_all add: unique_names_def)
  moreover have "same_layout s t"
    using grown_layout same_but_layout [OF s2(2)] same_but_layout [OF t(2)]
    by (blast intro: same_layout_trans)
  moreover have "cluster_data t d = cluster_data s d"
    if "data_cluster s d" "d \<notin> set (fs @ ps @ fl)" for d
    using same_butD(8) [OF t(2), of d] st2(8) [of d] st2(9) g1(2) [of d] that
    by (auto dest: in_set_takeD)
  ultimately show ?thesis using t(3) F2(2) by (intro exI [of _ t] conjI allI impI) simp_all
qed

lemma update_file_full:
  fixes sz offset :: u64
  assumes inv: "alloc_inv s fl (fs # cls)"
    and isfile: "de_type e = DIR_ENTRY_TYPE_FILE" "de_first_cluster e = hd fs"
    and size: "0 < unat (low32 sz)" "unat (low32 offset) + unat (low32 sz) < 2 ^ 32"
  defines "n \<equiv> unat (low32 offset) + unat (low32 sz)"
  defines "g \<equiv> clusters_for s n - length fs"
  assumes full: "length fl < g"
  shows "update_file p e buf sz offset s =
    (if g = length fl + 1 then Inl Out_of_bounds else Inr (- ENOMEM, s))"
proof -
  note i = alloc_invD [OF inv]
  have b: "byte_per_cluster (superblock s) \<noteq> 0" using bpc_not_0 [OF i(1)] .
  note w = clusters_for_word [OF size geometryD(2) [OF i(1)], folded n_def]
  have fs: "chain s (hd fs) fs" using i(5) by simp
  note grow = grow_file_full [OF inv w(3) full [unfolded g_def], folded g_def]
  show ?thesis
    using isfile b count_cluster_ok [OF i(1) fs] grow
    by (simp only: update_file_def Let_def assert_res_True bind_res_Inr w(1,2) split_conv simp_thms if_False)
      auto
qed

end
