(* ===== verification/Fat_Mount.thy ===== *)
theory Fat_Mount
  imports Fat_Create
begin

text \<open>
  Formatting and mounting (\<open>src/FAT/fat.c\<close>, lines 651 to 717): \<open>init_fat\<close> builds the chain
  of all free clusters or reads the table back, \<open>fat_init\<close> creates the disk file or opens the
  one there is. A new disk satisfies the invariants of the allocator and of directories, and
  mounting a disk again gives back the state whose writes went through to it.
\<close>

section \<open>Operations\<close>

lemma unat_inc: "i < n \<Longrightarrow> unat (i + 1 :: u32) = unat i + 1"
  using unat_u32_bound [of n] by (simp add: word_less_nat_alt unat_word_ariths)

text \<open>
  The loop \<open>for (i = free_cluster_start; i < cluster_count - 1; i++)\<close>; its body does not
  change the bound.
\<close>

function link_loop :: "u32 \<Rightarrow> u32 \<Rightarrow> fs \<Rightarrow> fs res" where
  "link_loop i n s =
     (if i < n
      then bind_res (update_fat_entry i (i + 1) False s) (\<lambda>(_, s). link_loop (i + 1) n s)
      else Inr s)"
  by pat_completeness auto

termination
  by (relation "measure (\<lambda>(i, n, _). unat n - unat i)")
    (auto simp: unat_inc word_less_nat_alt)

declare link_loop.simps [simp del]

definition init_fat :: "bool \<Rightarrow> fs \<Rightarrow> (int \<times> fs) res" where
  "init_fat first_time s =
     (let bpc = byte_per_cluster (superblock s);
          fat_size = bpc * cluster_per_fat (superblock s);
          s = s\<lparr>fat_table := replicate (unat fat_size) 0\<rparr>
      in if \<not> first_time then
           (let bs = pread (disk s) (unat fat_size) (unat bpc)
            in Inr (if int (length bs) < uint fat_size then -1 else 0,
                    s\<lparr>fat_table := splice (fat_table s) 0 bs\<rparr>))
         else
           bind_res (update_fat_entry (root_cluster_start (superblock s)) 0 False s) (\<lambda>(_, s).
           bind_res (update_fat_entry (cluster_count (superblock s) - 1) 0 False s) (\<lambda>(_, s).
           bind_res (link_loop (free_cluster_start (superblock s)) (cluster_count (superblock s) - 1) s)
            (\<lambda>s. Inr (if int (length (fat_table s)) < uint fat_size then -1 else 0,
                     s\<lparr>disk := pwrite (disk s) (fat_table s) (unat bpc)\<rparr>)))))"

text \<open>
  The disk file is \<open>None\<close> when \<open>access\<close> does not find it. The initial state holds the globals
  as the program starts.
\<close>

definition fat_init :: "byte list option \<Rightarrow> fs \<Rightarrow> fs res" where
  "fat_init file s =
     (case file of
        None \<Rightarrow>
          bind_res (init_superblock True (s\<lparr>disk := replicate FAT_DISK_SIZE 0\<rparr>)) (\<lambda>(r, s).
          assert_res (r \<noteq> -1)
           (bind_res (init_fat True s) (\<lambda>(r, s).
            assert_res (r \<noteq> -1)
             (bind_res (add_dir_entry_to_cluster (root_cluster_start (superblock s)) dot
                  (root_cluster_start (superblock s)) DIR_ENTRY_TYPE_SUBDIR s) (\<lambda>(r, s).
              assert_res (r \<noteq> -1)
               (bind_res (add_dir_entry_to_cluster (root_cluster_start (superblock s)) dotdot
                    (root_cluster_start (superblock s)) DIR_ENTRY_TYPE_SUBDIR s) (\<lambda>(r, s).
                assert_res (r \<noteq> -1) (Inr s))))))))
      | Some d \<Rightarrow>
          bind_res (init_superblock False (s\<lparr>disk := d\<rparr>)) (\<lambda>(r, s).
          assert_res (r \<noteq> -1)
           (bind_res (init_fat False s) (\<lambda>(r, s).
            assert_res (r \<noteq> -1) (Inr s)))))"

section \<open>The free chain of a new disk\<close>

lemma link_loop_ok:
  assumes "geometry s" and "1 + sb_fatlen s \<le> unat i" and "unat n \<le> sb_count s"
  shows "\<exists>tbl. link_loop i n s = Inr (s\<lparr>fat_table := tbl\<rparr>) \<and> geometry (s\<lparr>fat_table := tbl\<rparr>) \<and>
    fat_next (s\<lparr>fat_table := tbl\<rparr>) = (\<lambda>c. if i \<le> c \<and> c < n then c + 1 else fat_next s c)"
  using assms
proof (induction i n s rule: link_loop.induct)
  case (1 i n s)
  show ?case
  proof (cases "i < n")
    case False
    then have "(\<lambda>c. if i \<le> c \<and> c < n then c + 1 else fat_next s c) = fat_next s"
      by (intro ext) (metis order_le_less_trans)
    with False 1 show ?thesis
      by (intro exI [of _ "fat_table s"]) (simp add: link_loop.simps [of i n])
  next
    case True
    have i: "data_cluster s i" using True 1 by (simp add: data_cluster_def word_less_nat_alt)
    let ?t = "set_fat s i (i + 1)"
    have u: "update_fat_entry i (i + 1) False s = Inr (0, ?t)"
      using "1.prems"(1) i by (rule update_fat_entry_memory)
    have pre: "geometry ?t" "1 + sb_fatlen ?t \<le> unat (i + 1)" "unat n \<le> sb_count ?t"
      using 1 i unat_inc [OF True] by auto
    obtain tbl where tbl: "link_loop (i + 1) n ?t = Inr (?t\<lparr>fat_table := tbl\<rparr>)"
        "geometry (?t\<lparr>fat_table := tbl\<rparr>)" "fat_next (?t\<lparr>fat_table := tbl\<rparr>) =
          (\<lambda>c. if i + 1 \<le> c \<and> c < n then c + 1 else fat_next ?t c)"
      using "1.IH" [OF True u refl pre] by blast
    have t: "?t\<lparr>fat_table := tbl\<rparr> = s\<lparr>fat_table := tbl\<rparr>" by (simp add: set_fat_def)
    have "(\<lambda>c. if i + 1 \<le> c \<and> c < n then c + 1 else fat_next ?t c) =
        (\<lambda>c. if i \<le> c \<and> c < n then c + 1 else fat_next s c)"
    proof
      fix c :: u32
      have "i + 1 \<le> c \<longleftrightarrow> i < c"
        using unat_inc [OF True] by (auto simp: word_le_nat_alt word_less_nat_alt)
      then show "(if i + 1 \<le> c \<and> c < n then c + 1 else fat_next ?t c) =
          (if i \<le> c \<and> c < n then c + 1 else fat_next s c)"
        using True fat_next_set_fat [OF "1.prems"(1) i] by auto
    qed
    with True u tbl t show ?thesis
      by (intro exI [of _ tbl]) (simp add: link_loop.simps [of i n])
  qed
qed

lemma linked_upt:
  assumes "a < b" and "b \<le> 2 ^ 32" and "0 < a"
    and "\<And>i. a \<le> i \<Longrightarrow> i < b - 1 \<Longrightarrow> nx (of_nat i) = of_nat (Suc i)"
    and "nx (of_nat (b - 1)) = (0 :: u32)"
  shows "linked nx 0 (of_nat a) (map of_nat [a ..< b])"
  using assms
proof (induction "b - a" arbitrary: a)
  case (Suc k)
  have a: "(of_nat a :: u32) \<noteq> 0"
    using Suc.prems by (simp add: word_unat_eq_iff unat_of_nat)
  show ?case
  proof (cases "a = b - 1")
    case True
    then show ?thesis using Suc.prems a by (simp add: upt_conv_Cons)
  next
    case False
    then have "linked nx 0 (of_nat (Suc a)) (map of_nat [Suc a ..< b])"
      using Suc by (intro Suc.hyps) auto
    then show ?thesis using Suc.prems False a by (simp add: upt_conv_Cons)
  qed
qed simp

section \<open>A new disk\<close>

lemma default_superblock_simps [simp]:
  "byte_per_cluster default_superblock = 4096" "cluster_count default_superblock = 2560"
  "cluster_per_fat default_superblock = 3" "fat_type default_superblock = 32"
  "root_cluster_start default_superblock = 4" "free_cluster_start default_superblock = 5"
  by (simp_all add: default_superblock_def BYTE_PER_CLUSTER_def CLUSTER_COUNT_def
      CLUSTER_PER_FAT_def FAT_TYPE_def ROOT_CLUSTER_START_def FREE_CLUSTER_START_def)

lemma geometry_default:
  "superblock s = default_superblock \<Longrightarrow> length (sb_pad s) = 488 \<Longrightarrow>
   length (fat_table s) = 12288 \<Longrightarrow> length (disk s) = 10485760 \<Longrightarrow> geometry s"
  by (simp add: geometry_def)

text \<open>Lists of cluster numbers are not written out element by element.\<close>

declare upt_rec_numeral [simp del]

definition all_free :: "u32 list" where
  "all_free = map of_nat [5 ..< 2560]"

lemma set_all_free: "c \<in> set all_free \<longleftrightarrow> 5 \<le> unat c \<and> unat c < 2560"
proof -
  have "unat (of_nat i :: u32) = i" if "i < 2560" for i using that by (simp add: unat_of_nat)
  then have "unat ` set all_free = {5 ..< 2560}"
    unfolding all_free_def set_map set_upt image_image by force
  then have "unat c \<in> unat ` set all_free \<longleftrightarrow> 5 \<le> unat c \<and> unat c < 2560" by simp
  then show ?thesis by (simp add: inj_image_mem_iff inj_def word_unat_eq_iff)
qed

lemma distinct_all_free: "distinct all_free"
  unfolding all_free_def distinct_map
  by (rule conjI [OF distinct_upt inj_onI]) (auto simp: word_unat_eq_iff unat_of_nat)

text \<open>The table of a new disk, in memory: the root directory and the chain of the rest.\<close>

lemma link_new_table:
  assumes "superblock s = default_superblock" and "length (sb_pad s) = 488"
    and "length (disk s) = 10485760" and "fat_table s = replicate 12288 0"
  shows "\<exists>a b tbl. update_fat_entry 4 0 False s = Inr (0, a) \<and> superblock a = superblock s \<and>
    update_fat_entry 2559 0 False a = Inr (0, b) \<and> superblock b = superblock s \<and>
    link_loop 5 2559 b = Inr (s\<lparr>fat_table := tbl\<rparr>) \<and>
    geometry (s\<lparr>fat_table := tbl\<rparr>) \<and> free_list (s\<lparr>fat_table := tbl\<rparr>) all_free \<and>
    chain (s\<lparr>fat_table := tbl\<rparr>) 4 [4]"
proof -
  have g: "geometry s" using assms by (intro geometry_default) auto
  have d: "data_cluster s c \<longleftrightarrow> 4 \<le> unat c \<and> unat c < 2560" for c
    using assms(1) by (simp add: data_cluster_def)
  let ?a = "set_fat s 4 0"
  let ?b = "set_fat ?a 2559 0"
  have ab: "geometry ?a" "geometry ?b" using g by (simp_all add: d)
  have u: "update_fat_entry 4 0 False s = Inr (0, ?a)" "update_fat_entry 2559 0 False ?a = Inr (0, ?b)"
    using g ab(1) by (simp_all add: update_fat_entry_memory d)
  obtain tbl where t: "link_loop 5 2559 ?b = Inr (?b\<lparr>fat_table := tbl\<rparr>)"
      "geometry (?b\<lparr>fat_table := tbl\<rparr>)" "fat_next (?b\<lparr>fat_table := tbl\<rparr>) =
        (\<lambda>c. if 5 \<le> c \<and> c < 2559 then c + 1 else fat_next ?b c)"
    using link_loop_ok [OF ab(2), of 5 2559] assms(1) by auto
  let ?t = "s\<lparr>fat_table := tbl\<rparr>"
  have eq: "?b\<lparr>fat_table := tbl\<rparr> = ?t" by (simp add: set_fat_def)
  have "fat_next ?b = (fat_next s)(4 := 0, 2559 := 0)"
    using g ab(1) by (simp add: fat_next_set_fat d)
  with t(3) eq have nx: "fat_next ?t = (\<lambda>c. if 5 \<le> c \<and> c < 2559 then c + 1
      else if c = 2559 then 0 else if c = 4 then 0 else fat_next s c)" by auto
  have dt: "data_cluster ?t c \<longleftrightarrow> 4 \<le> unat c \<and> unat c < 2560" for c
    using assms(1) by (simp add: data_cluster_def)
  have "linked (fat_next ?t) 0 (of_nat 5) (map of_nat [5 ..< 2560])"
  proof (rule linked_upt)
    fix i :: nat assume "5 \<le> i" "i < 2560 - 1"
    then have "(5 :: u32) \<le> of_nat i" "(of_nat i :: u32) < 2559"
      by (simp_all add: word_le_nat_alt word_less_nat_alt unat_of_nat)
    then show "fat_next ?t (of_nat i) = of_nat (Suc i)" unfolding nx by (simp add: add.commute)
  qed (simp_all add: nx)
  moreover have "\<forall>c \<in> set all_free. data_cluster ?t c"
    by (simp add: set_all_free dt)
  ultimately have "free_list ?t all_free"
    using assms(1) by (simp add: free_list_def chain_def all_free_def)
  moreover have "chain ?t 4 [4]" by (simp add: chain_Cons dt nx)
  ultimately show ?thesis using u t(1,2) eq
    by (intro exI [of _ ?a] exI [of _ ?b] exI [of _ tbl]) simp
qed

lemma init_fat_new:
  assumes "superblock s = default_superblock" and "length (sb_pad s) = 488"
    and "disk s = splice (replicate 10485760 0) 0 b" and "length b = 4096" and "slice 0 512 b = sb_image s"
  shows "\<exists>t. init_fat True s = Inr (0, t) \<and> alloc_inv t all_free [[4]] \<and>
    superblock t = default_superblock \<and> heap_tail t = heap_tail s \<and> clock t = clock s \<and>
    (\<forall>c. data_cluster t c \<longrightarrow> cluster_data t c = get_new_cluster t)"
proof -
  let ?z = "replicate 10485760 0 :: byte list" and ?s = "s\<lparr>fat_table := replicate 12288 0\<rparr>"
  have dl: "length (disk s) = 10485760" using assms(3,4) by simp
  obtain a' b' tbl where u: "update_fat_entry 4 0 False ?s = Inr (0, a')" "superblock a' = superblock ?s"
      "update_fat_entry 2559 0 False a' = Inr (0, b')" "superblock b' = superblock ?s"
    and t: "link_loop 5 2559 b' = Inr (?s\<lparr>fat_table := tbl\<rparr>)" "geometry (?s\<lparr>fat_table := tbl\<rparr>)"
      "free_list (?s\<lparr>fat_table := tbl\<rparr>) all_free" "chain (?s\<lparr>fat_table := tbl\<rparr>) 4 [4]"
    using link_new_table [of ?s] assms(1,2) dl by auto
  let ?m = "s\<lparr>fat_table := tbl\<rparr>"
  have m: "?s\<lparr>fat_table := tbl\<rparr> = ?m" by simp
  have len: "length tbl = 12288" using geometryD(9) [OF t(2)] assms(1) by simp
  let ?t = "?m\<lparr>disk := splice (disk s) 4096 tbl\<rparr>"
  have init: "init_fat True s = Inr (0, ?t)"
    using u t(1) assms(1) dl len by (simp add: init_fat_def Let_def pwrite_inside)
  have g: "geometry ?t" using t(2) dl len by (simp add: geometry_def)
  have sync: "synced ?t"
  proof -
    have "slice 0 512 (splice (disk s) 4096 tbl) = slice 0 512 (disk s)"
      using dl len by (intro slice_splice_disjoint) auto
    also have "\<dots> = sb_image s"
      unfolding assms(3) using assms(4,5) by (subst slice_splice_inside) auto
    finally have "slice 0 512 (splice (disk s) 4096 tbl) = sb_image s" .
    moreover have "slice 4096 12288 (splice (disk s) 4096 tbl) = tbl"
      using slice_splice_same [of 4096 tbl "disk s"] dl len by simp
    ultimately show ?thesis using assms(1) by (simp add: synced_def sb_image_def)
  qed
  have nx: "fat_next ?t = fat_next ?m" by (rule fat_next_cong) simp_all
  have dc: "data_cluster ?t = data_cluster ?m" by (auto simp: data_cluster_def)
  have ch: "chain ?t = chain ?m" using nx dc by (simp add: chain_def [abs_def])
  have "(4 :: u32) \<notin> set all_free" by (simp add: set_all_free)
  then have "alloc_inv ?t all_free [[4]]"
    using g sync t(3,4) ch distinct_all_free by (simp add: alloc_inv_def free_list_def)
  moreover have "cluster_data ?t c = get_new_cluster ?t" if "data_cluster ?t c" for c
  proof -
    have c: "4 \<le> unat c" "unat c < 2560" using that assms(1) by (simp_all add: data_cluster_def)
    have "slice (unat c * 4096) 4096 (splice (splice ?z 0 b) 4096 tbl) = slice (unat c * 4096) 4096 ?z"
      using c len assms(4) by (subst slice_splice_disjoint; simp)+
    also have "\<dots> = replicate 4096 0" using c by (simp add: min_def)
    finally show ?thesis using assms(1,3) by (simp add: cluster_data_def get_new_cluster_def)
  qed
  ultimately show ?thesis using init assms(1) by (intro exI [of _ ?t]) simp
qed

lemma fat_init_new:
  assumes "length (sb_pad s) = 488"
  shows "\<exists>t. fat_init None s = Inr t \<and> alloc_inv t all_free [[4]] \<and>
    superblock t = default_superblock \<and> heap_tail t = heap_tail s \<and> clock t = clock s \<and>
    dir_ok t [4] \<and> unique_names t [4] \<and> dir_empty t [4] \<and> first_at t [4] slot_free 0 2 \<and>
    dir_lookup t [4] dot = Some (new_dir_entry s dot 4 DIR_ENTRY_TYPE_SUBDIR) \<and>
    dir_lookup t [4] dotdot = Some (new_dir_entry s dotdot 4 DIR_ENTRY_TYPE_SUBDIR)"
proof -
  let ?z = "s\<lparr>disk := replicate FAT_DISK_SIZE 0, superblock := default_superblock\<rparr>"
  have sb: "init_superblock True (s\<lparr>disk := replicate FAT_DISK_SIZE 0\<rparr>) = Inr (0, flush_superblock ?z)"
    using assms by (subst init_superblock_fresh) simp_all
  have img: "sb_image (flush_superblock ?z) = sb_image ?z" by (simp add: sb_image_def)
  have len: "length (sb_image ?z) = 512" using assms by simp
  obtain t where t: "init_fat True (flush_superblock ?z) = Inr (0, t)" "alloc_inv t all_free [[4]]"
      "superblock t = default_superblock" "heap_tail t = heap_tail s" "clock t = clock s"
      "\<forall>c. data_cluster t c \<longrightarrow> cluster_data t c = get_new_cluster t"
    using init_fat_new [of "flush_superblock ?z" "sb_image ?z @ replicate 3584 0"] assms img len
    by (auto simp: flush_superblock_def put_cluster_def FAT_DISK_SIZE_def slice_def)
  note i = alloc_invD [OF t(2)]
  have ch: "chain t 4 [4]" and d: "data_cluster t 4"
    using i(5) [of "[4]"] by (auto simp: chain_Cons)
  have zero: "cluster_data t 4 = get_new_cluster t" using t(6) d by simp
  have dots: "bind_res (add_dir_entry_to_cluster 4 dot 4 DIR_ENTRY_TYPE_SUBDIR t) (\<lambda>(r, s).
      bind_res (add_dir_entry_to_cluster 4 dotdot 4 DIR_ENTRY_TYPE_SUBDIR s) (\<lambda>(r', s).
        Inr ((r, r'), s))) = Inr ((0, 0), dot_entries t 4 4)"
    using i(1) ch zero d by (rule dot_entries_ok)
  then obtain u where u: "add_dir_entry_to_cluster 4 dot 4 DIR_ENTRY_TYPE_SUBDIR t = Inr (0, u)"
      "add_dir_entry_to_cluster 4 dotdot 4 DIR_ENTRY_TYPE_SUBDIR u = Inr (0, dot_entries t 4 4)"
    by (auto simp: bind_res_eq_Inr)
  have "superblock u = default_superblock"
    using add_entry_at [OF i(1) d dot_names(1) ch, of 0 0 DIR_ENTRY_TYPE_SUBDIR] u(1) zero
      slot_count_ge [OF i(1)] zero_cluster_free [OF zero, of 0] geometryD(2) [OF i(1)] t(3)
    by (auto simp: first_at_0 split: if_splits)
  then have "fat_init None s = Inr (dot_entries t 4 4)"
    using sb t(1,3) u by (simp add: fat_init_def)
  moreover have "alloc_inv (dot_entries t 4 4) all_free [[4]]" using t(2) d by (rule alloc_inv_dot_entries)
  moreover have "new_dir_entry t = new_dir_entry s" using t(5) by (rule new_entry_cong)
  ultimately show ?thesis
    using dot_entries_dir [OF i(1) d zero, where p = 4] t(3,4,5)
    by (intro exI [of _ "dot_entries t 4 4"]) simp
qed

section \<open>Mounting again\<close>

lemma fat_init_again:
  assumes "geometry s" and "synced s" and "length (sb_pad t) = 488"
  shows "fat_init (Some (disk s)) t = Inr (s\<lparr>heap_tail := heap_tail t, clock := clock t\<rparr>)"
proof -
  let ?u = "t\<lparr>disk := disk s, superblock := superblock s, sb_pad := sb_pad s\<rparr>"
  have sb: "init_superblock False (t\<lparr>disk := disk s\<rparr>) = Inr (0, ?u)"
    using init_superblock_reload [OF assms(1,2), of "t\<lparr>disk := disk s\<rparr>"] assms(3) by simp
  have "sb_bpc s * sb_fatlen s < 2 ^ 32"
    using fat_table_small [OF assms(1)] geometryD(9) [OF assms(1)] by (simp add: mult.commute)
  then have sz: "unat (byte_per_cluster (superblock s) * cluster_per_fat (superblock s)) =
      sb_fatlen s * sb_bpc s"
    by (simp add: unat_word_ariths mult.commute)
  then have ui: "uint (byte_per_cluster (superblock s) * cluster_per_fat (superblock s)) =
      int (sb_fatlen s * sb_bpc s)"
    by (metis uint_nat)
  have bs: "pread (disk s) (sb_fatlen s * sb_bpc s) (sb_bpc s) = fat_table s"
    using assms(2) by (simp add: pread_def synced_def)
  have tb: "splice (replicate (sb_fatlen s * sb_bpc s) 0) 0 (fat_table s) = fat_table s"
    using geometryD(9) [OF assms(1)] by (simp add: splice_def)
  have "init_fat False ?u = Inr (0, ?u\<lparr>fat_table := fat_table s\<rparr>)"
    using bs sz ui tb geometryD(9) [OF assms(1)] by (simp add: init_fat_def Let_def)
  then show ?thesis using sb by (simp add: fat_init_def)
qed

end
