(* ===== verification/Fat_Ops.thy ===== *)
theory Fat_Ops
  imports Fat_Write Fat_Mount
begin

text \<open>
  The handlers that the program registers with FUSE (\<open>src/FAT/fat.c\<close>, lines 720 to 996), each
  as a function from the arguments and the state to the return value, the results it stores
  through pointers, and the new state. Error numbers and mode bits are those of Linux.
\<close>

section \<open>Numbers of the interface\<close>

definition ENOENT :: int where "ENOENT = 2"
definition EACCES :: int where "EACCES = 13"
definition ENOTDIR :: int where "ENOTDIR = 20"
definition ENOTEMPTY :: int where "ENOTEMPTY = 39"

definition S_IFMT :: u32 where "S_IFMT = 0xF000"
definition S_IFDIR :: u32 where "S_IFDIR = 0x4000"
definition S_IFREG :: u32 where "S_IFREG = 0x8000"
definition S_IFLNK :: u32 where "S_IFLNK = 0xA000"
definition S_IRWXU :: u32 where "S_IRWXU = 448"
definition S_IRWXG :: u32 where "S_IRWXG = 56"
definition S_IRWXO :: u32 where "S_IRWXO = 7"

text \<open>The fields of \<open>struct stat\<close> and \<open>struct statvfs\<close> that are set; the rest is zeroed.\<close>

record stat =
  st_mode :: u32
  st_nlink :: int
  st_ino :: int
  st_size :: int
  st_mtime :: int

definition zero_stat :: stat where
  "zero_stat = \<lparr>st_mode = 0, st_nlink = 0, st_ino = 0, st_size = 0, st_mtime = 0\<rparr>"

record statvfs =
  f_blocks :: int
  f_bsize :: int
  f_bfree :: int
  f_bavail :: int
  f_ffree :: int
  f_favail :: int
  f_namemax :: int

section \<open>Queries\<close>

definition fat_getattr :: "cstring \<Rightarrow> stat \<Rightarrow> fs \<Rightarrow> (int \<times> stat) res" where
  "fat_getattr path stbuf s =
     (let bpc = byte_per_cluster (superblock s);
          root = root_cluster_start (superblock s) in
      if strcmp_sign path [slash] = 0
      then bind_res (count_cluster_in_chain s root) (\<lambda>count.
        Inr (0, zero_stat
          \<lparr>st_mode := or (or (or S_IFDIR S_IRWXU) S_IRWXG) S_IRWXO, st_nlink := 2,
           st_ino := uint root, st_size := uint (bpc * count)\<rparr>))
      else bind_res (find_dir_entry_by_path s path) (\<lambda>found. case found of
          None \<Rightarrow> Inr (- ENOENT, stbuf)
        | Some dir_entry \<Rightarrow>
            let stbuf = zero_stat
              \<lparr>st_nlink := 2, st_ino := uint (de_first_cluster dir_entry),
               st_mode := or (or S_IRWXU S_IRWXG) S_IRWXO, st_mtime := sint (de_time dir_entry)\<rparr>
            in
            if de_type dir_entry = DIR_ENTRY_TYPE_SUBDIR
            then bind_res (count_cluster_in_chain s (de_first_cluster dir_entry)) (\<lambda>count.
              Inr (0, stbuf\<lparr>st_mode := or (st_mode stbuf) S_IFDIR, st_size := uint (bpc * count)\<rparr>))
            else if de_type dir_entry = DIR_ENTRY_TYPE_FILE
            then Inr (0, stbuf\<lparr>st_mode := or (st_mode stbuf) S_IFREG, st_size := uint (de_size dir_entry)\<rparr>)
            else Inr (0, stbuf\<lparr>st_mode := or (st_mode stbuf) S_IFLNK\<rparr>)))"

definition fat_fgetattr :: "cstring \<Rightarrow> stat \<Rightarrow> fs \<Rightarrow> (int \<times> stat) res" where
  "fat_fgetattr path stbuf s = fat_getattr path stbuf s"

definition fat_access :: "cstring \<Rightarrow> fs \<Rightarrow> int res" where
  "fat_access path s =
     (if strcmp_sign path [slash] = 0 then Inr 0
      else bind_res (find_dir_entry_by_path s path) (\<lambda>found.
        Inr (if found = None then - ENOENT else 0)))"

definition fat_readdir :: "cstring \<Rightarrow> 'b \<Rightarrow> 'b filler \<Rightarrow> u64 \<Rightarrow> fs \<Rightarrow> (int \<times> 'b) res" where
  "fat_readdir path buf filler offset s =
     bind_res (find_first_cluster_by_path s path) (\<lambda>cluster_num.
     bind_res (read_dir_entries s cluster_num (low32 offset) buf filler) (\<lambda>buf. Inr (0, buf)))"

definition fat_statfs :: "fs \<Rightarrow> (int \<times> statvfs) res" where
  "fat_statfs s =
     bind_res (count_cluster_in_chain s (free_cluster_start (superblock s))) (\<lambda>free_block_count.
       Inr (0, \<lparr>f_blocks = uint (cluster_count (superblock s) - cluster_per_fat (superblock s) - 1),
                f_bsize = uint (byte_per_cluster (superblock s)),
                f_bfree = uint free_block_count, f_bavail = uint free_block_count,
                f_ffree = uint free_block_count, f_favail = uint free_block_count,
                f_namemax = int DIR_ENTRY_MAX_NAME_LEN\<rparr>))"

definition fat_open :: "cstring \<Rightarrow> fs \<Rightarrow> int res" where
  "fat_open path s =
     bind_res (find_dir_entry_by_path s path) (\<lambda>found. Inr (if found = None then - ENOENT else 0))"

definition fat_release :: "cstring \<Rightarrow> int" where
  "fat_release path = 0"

definition fat_utimens :: "cstring \<Rightarrow> int" where
  "fat_utimens path = 0"

section \<open>Changes\<close>

definition fat_mkdir :: "cstring \<Rightarrow> fs \<Rightarrow> (int \<times> fs) res" where
  "fat_mkdir path s =
     (if \<not> has_free_cluster s then Inr (- ENOMEM, s)
      else add_dir_entry path DIR_ENTRY_TYPE_SUBDIR s)"

definition S_ISREG :: "u32 \<Rightarrow> bool" where
  "S_ISREG mode \<longleftrightarrow> and mode S_IFMT = S_IFREG"

definition fat_mknod :: "cstring \<Rightarrow> u32 \<Rightarrow> fs \<Rightarrow> (int \<times> fs) res" where
  "fat_mknod path mode s =
     (if \<not> S_ISREG mode then Inr (- EACCES, s)
      else if \<not> has_free_cluster s then Inr (- ENOMEM, s)
      else add_dir_entry path DIR_ENTRY_TYPE_FILE s)"

definition fat_create :: "cstring \<Rightarrow> u32 \<Rightarrow> fs \<Rightarrow> (int \<times> fs) res" where
  "fat_create path mode s =
     bind_res (fat_mknod path (or mode S_IFREG) s) (\<lambda>(_, s). Inr (0, s))"

text \<open>
  What the handlers below have in common: the cluster of the parent directory and the entry of
  the target in it, which is asserted to exist.
\<close>

definition locate :: "cstring \<Rightarrow> fs \<Rightarrow> (u32 \<times> fat_dir_entry) res" where
  "locate path s =
     bind_res (get_parent_path path) (\<lambda>parent_path.
     bind_res (get_target_name path) (\<lambda>target_name.
     bind_res (find_first_cluster_by_path s parent_path) (\<lambda>parent_cluster.
     bind_res (find_dir_entry_by_name s parent_cluster target_name) (\<lambda>found. case found of
       None \<Rightarrow> Inl Assert_failed
     | Some dir_entry \<Rightarrow> Inr (parent_cluster, dir_entry)))))"

definition fat_rmdir :: "cstring \<Rightarrow> fs \<Rightarrow> (int \<times> fs) res" where
  "fat_rmdir path s =
     bind_res (locate path s) (\<lambda>(parent_cluster, dir_entry).
     bind_res (is_dir_empty s (de_first_cluster dir_entry)) (\<lambda>empty.
       if \<not> empty then Inr (- ENOTEMPTY, s)
       else if de_type dir_entry \<noteq> DIR_ENTRY_TYPE_SUBDIR then Inr (- ENOTDIR, s)
       else bind_res (free_cluster_chain (de_first_cluster dir_entry) s) (\<lambda>s.
         update_dir_entry parent_cluster dir_entry True s)))"

definition fat_unlink :: "cstring \<Rightarrow> fs \<Rightarrow> (int \<times> fs) res" where
  "fat_unlink path s =
     bind_res (locate path s) (\<lambda>(parent_cluster, dir_entry).
       if de_type dir_entry \<noteq> DIR_ENTRY_TYPE_FILE then Inr (-1, s)
       else bind_res (free_cluster_chain (de_first_cluster dir_entry) s) (\<lambda>s.
         update_dir_entry parent_cluster dir_entry True s))"

definition fat_write :: "cstring \<Rightarrow> byte list \<Rightarrow> u64 \<Rightarrow> u64 \<Rightarrow> fs \<Rightarrow> (int \<times> fs) res" where
  "fat_write path buf sz offset s =
     bind_res (locate path s) (\<lambda>(parent_cluster, dir_entry).
       update_file parent_cluster dir_entry buf sz offset s)"

text \<open>Cutting a chain behind the cluster with the new last byte.\<close>

definition shrink_chain :: "u32 \<Rightarrow> u32 \<Rightarrow> fs \<Rightarrow> fs res" where
  "shrink_chain first_cluster sz s =
     (if byte_per_cluster (superblock s) = 0 then Inl Div_by_zero
      else
        bind_res (walk_chain (unat (sz div byte_per_cluster (superblock s))) s first_cluster)
          (\<lambda>new_last_cluster.
        bind_res (read_fat_entry s new_last_cluster) (\<lambda>after_new_last_cluster.
        bind_res (update_fat_entry new_last_cluster END_OF_CHAIN True s) (\<lambda>(_, s).
          if after_new_last_cluster \<noteq> END_OF_CHAIN
          then
            bind_res (last_loop (chain_fuel s) s after_new_last_cluster) (\<lambda>previous_last_cluster.
            bind_res (update_fat_entry previous_last_cluster
                (free_cluster_start (superblock s)) True s) (\<lambda>(_, s).
            bind_res (write_superblock_to_disk (set_free_start s after_new_last_cluster)) (\<lambda>(ret, s).
              assert_res (ret \<noteq> -1) (Inr s))))
          else Inr s))))"

definition fat_truncate :: "cstring \<Rightarrow> u64 \<Rightarrow> fs \<Rightarrow> (int \<times> fs) res" where
  "fat_truncate path sz s =
     bind_res (locate path s) (\<lambda>(parent_cluster, dir_entry).
       if sint sz = uint (de_size dir_entry) then Inr (0, s)
       else if uint (de_size dir_entry) < sint sz
       then
         let num_zeros = low32 sz - de_size dir_entry in
         bind_res (update_file parent_cluster dir_entry (replicate (unat num_zeros) 0)
             (ucast num_zeros) (ucast (de_size dir_entry)) s) (\<lambda>(result, s).
           Inr (if result = sint num_zeros then 0 else -1, s))
       else
         bind_res (shrink_chain (de_first_cluster dir_entry) (low32 sz) s) (\<lambda>s.
         bind_res (update_dir_entry parent_cluster (dir_entry\<lparr>de_size := low32 sz\<rparr>) False s)
           (\<lambda>(ret, s). assert_res (ret \<noteq> -1) (Inr (0, s)))))"

end
