(* ===== verification/Fat_Ops_Correct.thy ===== *)
theory Fat_Ops_Correct
  imports Fat_Ops
begin

text \<open>
  Correctness of the handlers on a disk that satisfies the allocator invariant: what each
  call returns, what it changes in the directory it works on and in the free list, and what
  it leaves alone. The parent directory is given by the names that lead to it.
\<close>

section \<open>Finding the target\<close>

lemma locate_ok:
  assumes "geometry s" and "resolves s (root_cluster_start (superblock s)) nms (hd ps)"
    and "chain s (hd ps) ps" and "ps \<noteq> []"
    and "component nm" and "0 \<notin> set nm" and "length nm < 22"
  shows "locate (path_of (nms @ [nm])) s =
    (case dir_lookup s ps nm of None \<Rightarrow> Inl Assert_failed | Some e \<Rightarrow> Inr (hd ps, e))"
proof -
  have "hd ps \<noteq> 0" using assms(3,4) by (rule chain_hd_not_0)
  then show ?thesis
    using parent_and_target [OF assms(1,2,5)] find_dir_entry_ok [OF assms(1,6,7,3)]
    by (simp add: locate_def del: path_of_append split: option.splits)
qed

lemma locate_entry:
  assumes "alloc_inv s fl cls" and "ps \<in> set cls"
    and "resolves s (root_cluster_start (superblock s)) nms (hd ps)"
    and "dir_ok s ps" and "dir_lookup s ps nm = Some e" and "component nm"
  shows "locate (path_of (nms @ [nm])) s = Inr (hd ps, e)"
  using locate_ok [OF alloc_invD(1) [OF assms(1)] assms(3) alloc_invD(5,4) [OF assms(1,2)] assms(6)]
    dir_lookup_slot(3,4) [OF assms(4,5)] alloc_invD(4) [OF assms(1,2)] assms(5) by simp

section \<open>Removing\<close>

text \<open>Freeing the chain of the target and erasing its entry: the end of both removals.\<close>

lemma free_and_erase:
  assumes inv: "alloc_inv s fl (cs # ps # cls)" and dir: "dir_ok s ps" "unique_names s ps"
    and ent: "dir_lookup s ps nm = Some e" "nm \<noteq> []" and tgt: "de_first_cluster e = hd cs"
  shows "\<exists>t. bind_res (free_cluster_chain (de_first_cluster e) s) (\<lambda>s.
      update_dir_entry (hd ps) e True s) = Inr (0, t) \<and>
    alloc_inv t (cs @ fl) (ps # cls) \<and> dir_lookup t ps nm = None \<and>
    (\<forall>nm'. nm' \<noteq> nm \<longrightarrow> nm' \<noteq> [] \<longrightarrow> dir_lookup t ps nm' = dir_lookup s ps nm') \<and>
    dir_ok t ps \<and> unique_names t ps \<and> same_layout s t \<and>
    (\<forall>d. data_cluster s d \<longrightarrow> d \<notin> set ps \<longrightarrow> cluster_data t d = cluster_data s d)"
proof -
  note i = alloc_invD [OF inv]
  let ?u = "freed s cs"
  have cs: "chain s (hd cs) cs" "cs \<noteq> []" "hd cs \<noteq> 0" using i(4,5) chain_hd_not_0 by auto
  have free: "free_cluster_chain (hd cs) s = Inr ?u"
    using i(1) cs(1,3) by (rule free_cluster_chain_ok)
  have iu: "alloc_inv ?u (cs @ fl) (ps # cls)" using inv by (rule alloc_inv_free)
  note u = alloc_invD [OF iu]
  have ps: "chain ?u (hd ps) ps" "hd ps \<noteq> 0" "\<forall>c \<in> set ps. data_cluster s c"
    using u(4,5) chain_hd_not_0 [of ?u ps] chain_data [of s "hd ps" ps] i(5) by auto
  have same: "cluster_data ?u d = cluster_data s d" if "data_cluster s d" for d
    using freed_facts(4) [OF i(1) cs(1,3) that] .
  have d: "dir_slots ?u ps = dir_slots s ps" "dir_ok ?u ps = dir_ok s ps"
    using ps(3) by (intro dir_slots_frame dir_ok_frame same; simp)+
  have pre: "dir_ok ?u ps" "unique_names ?u ps" "dir_lookup ?u ps nm = Some e"
    using dir ent(1) d by (simp_all add: unique_names_def dir_lookup_def)
  obtain j k where r: "j < length ps" "k < slot_count ?u"
      "update_dir_entry (hd ps) e True ?u = Inr (0, put_slot ?u (ps ! j) k [0])"
      "dir_lookup (put_slot ?u (ps ! j) k [0]) ps nm = None"
      "\<forall>nm'. nm' \<noteq> nm \<longrightarrow> nm' \<noteq> [] \<longrightarrow>
        dir_lookup (put_slot ?u (ps ! j) k [0]) ps nm' = dir_lookup ?u ps nm'"
      "dir_ok (put_slot ?u (ps ! j) k [0]) ps" "unique_names (put_slot ?u (ps ! j) k [0]) ps"
    using remove_dir_entry_ok [OF u(1) ps(1,2) pre ent(2)] by blast
  let ?t = "put_slot ?u (ps ! j) k [0]"
  have fit: "40 * k + length [0 :: byte] \<le> sb_bpc ?u" using slot_inside [OF r(2)] by simp
  have dj: "data_cluster ?u (ps ! j)" using ps(3) r(1) by simp
  have "alloc_inv ?t (cs @ fl) (ps # cls)" using iu dj fit by (rule alloc_inv_put_slot)
  moreover have "cluster_data ?t d = cluster_data s d" if "data_cluster s d" "d \<notin> set ps" for d
  proof -
    have "d \<noteq> ps ! j" using that(2) r(1) by auto
    then show ?thesis using put_slot_ok(4) [OF u(1) dj fit] same [OF that(1)] that(1) by simp
  qed
  moreover have "same_layout s ?t" by (simp add: same_layout_iff)
  moreover have "bind_res (free_cluster_chain (de_first_cluster e) s) (\<lambda>s.
      update_dir_entry (hd ps) e True s) = Inr (0, ?t)"
    using free r(3) tgt by simp
  ultimately show ?thesis
    using r(4-7) lookup_cong [OF d(1)] by (intro exI [of _ ?t] conjI allI impI) simp_all
qed

lemma fat_unlink_ok:
  assumes inv: "alloc_inv s fl (cs # ps # cls)" and dir: "dir_ok s ps" "unique_names s ps"
    and par: "resolves s (root_cluster_start (superblock s)) nms (hd ps)" and nm: "component nm" "nm \<noteq> []"
    and ent: "dir_lookup s ps nm = Some e" "de_type e = DIR_ENTRY_TYPE_FILE" "de_first_cluster e = hd cs"
  shows "\<exists>t. fat_unlink (path_of (nms @ [nm])) s = Inr (0, t) \<and>
    alloc_inv t (cs @ fl) (ps # cls) \<and> dir_lookup t ps nm = None \<and>
    (\<forall>nm'. nm' \<noteq> nm \<longrightarrow> nm' \<noteq> [] \<longrightarrow> dir_lookup t ps nm' = dir_lookup s ps nm') \<and>
    dir_ok t ps \<and> unique_names t ps \<and> same_layout s t \<and>
    (\<forall>d. data_cluster s d \<longrightarrow> d \<notin> set ps \<longrightarrow> cluster_data t d = cluster_data s d)"
  using free_and_erase [OF inv dir ent(1) nm(2) ent(3)]
    locate_entry [OF inv _ par dir(1) ent(1) nm(1)] ent(2)
  by (simp add: fat_unlink_def del: path_of_append)

lemma fat_rmdir_ok:
  assumes inv: "alloc_inv s fl (cs # ps # cls)" and dir: "dir_ok s ps" "unique_names s ps"
    and par: "resolves s (root_cluster_start (superblock s)) nms (hd ps)" and nm: "component nm" "nm \<noteq> []"
    and ent: "dir_lookup s ps nm = Some e" "de_type e = DIR_ENTRY_TYPE_SUBDIR" "de_first_cluster e = hd cs"
  shows "dir_empty s cs \<Longrightarrow> \<exists>t. fat_rmdir (path_of (nms @ [nm])) s = Inr (0, t) \<and>
    alloc_inv t (cs @ fl) (ps # cls) \<and> dir_lookup t ps nm = None \<and>
    (\<forall>nm'. nm' \<noteq> nm \<longrightarrow> nm' \<noteq> [] \<longrightarrow> dir_lookup t ps nm' = dir_lookup s ps nm') \<and>
    dir_ok t ps \<and> unique_names t ps \<and> same_layout s t \<and>
    (\<forall>d. data_cluster s d \<longrightarrow> d \<notin> set ps \<longrightarrow> cluster_data t d = cluster_data s d)"
    and "\<not> dir_empty s cs \<Longrightarrow> fat_rmdir (path_of (nms @ [nm])) s = Inr (- ENOTEMPTY, s)"
proof -
  note i = alloc_invD [OF inv]
  have "chain s (hd cs) cs" "hd cs \<noteq> 0" using i(4,5) chain_hd_not_0 by auto
  then have e: "is_dir_empty s (hd cs) = Inr (dir_empty s cs)" using i(1) by (intro is_dir_empty_ok)
  note l = locate_entry [OF inv _ par dir(1) ent(1) nm(1)]
  have *: "fat_rmdir (path_of (nms @ [nm])) s =
      (if dir_empty s cs then bind_res (free_cluster_chain (de_first_cluster e) s) (\<lambda>s.
         update_dir_entry (hd ps) e True s) else Inr (- ENOTEMPTY, s))"
    using l e ent(2,3) by (simp add: fat_rmdir_def del: path_of_append)
  then show "\<not> dir_empty s cs \<Longrightarrow> fat_rmdir (path_of (nms @ [nm])) s = Inr (- ENOTEMPTY, s)" by simp
  assume "dir_empty s cs"
  then show "\<exists>t. fat_rmdir (path_of (nms @ [nm])) s = Inr (0, t) \<and>
    alloc_inv t (cs @ fl) (ps # cls) \<and> dir_lookup t ps nm = None \<and>
    (\<forall>nm'. nm' \<noteq> nm \<longrightarrow> nm' \<noteq> [] \<longrightarrow> dir_lookup t ps nm' = dir_lookup s ps nm') \<and>
    dir_ok t ps \<and> unique_names t ps \<and> same_layout s t \<and>
    (\<forall>d. data_cluster s d \<longrightarrow> d \<notin> set ps \<longrightarrow> cluster_data t d = cluster_data s d)"
    unfolding * using free_and_erase [OF inv dir ent(1) nm(2) ent(3)] by simp
qed

section \<open>Reading\<close>

lemma file_block:
  assumes "geometry s" and "chain s c cs" and "i < length cs" and "k \<le> sb_bpc s"
  shows "slice (i * sb_bpc s) k (file_bytes s cs) = take k (cluster_data s (cs ! i))"
proof -
  have "\<forall>xs \<in> set (map (cluster_data s) cs). length xs = sb_bpc s"
    using assms(1) chain_data [OF assms(2)] by auto
  then show ?thesis
    using slice_concat [of "map (cluster_data s) cs" "sb_bpc s" i k] assms(3,4)
    by (simp add: file_bytes_def)
qed

lemma unat_min_u32 [simp]: "unat (min_u32 a b) = min (unat a) (unat b)"
  by (simp add: min_u32_def word_less_nat_alt min_def)

lemma read_loop_step:
  fixes rm w :: u32
  assumes "geometry s" and "chain s c cs" and "i < length cs" and "unat w < sb_bpc s" and "rm \<noteq> 0"
  defines "m \<equiv> min_u32 rm (byte_per_cluster (superblock s) - w)"
  shows "read_loop (Suc n) s (cs ! i) w rm =
      bind_res (read_loop n s (fat_next s (cs ! i)) 0 (rm - m)) (\<lambda>rest.
        Inr (slice (i * sb_bpc s) (unat m) (file_bytes s cs) @ rest))"
    and "unat m = min (unat rm) (sb_bpc s - unat w)" and "unat (rm - m) = unat rm - unat m"
proof -
  have bw: "unat (byte_per_cluster (superblock s) - w) = sb_bpc s - unat w"
    using assms(4) by (simp add: unat_sub word_le_nat_alt)
  then show m: "unat m = min (unat rm) (sb_bpc s - unat w)" by (simp add: m_def)
  then show "unat (rm - m) = unat rm - unat m" by (simp add: unat_sub word_le_nat_alt)
  have i: "data_cluster s (cs ! i)" using chain_data [OF assms(2)] assms(3) by simp
  have "read_cluster_from_disk s (cs ! i) 0 m = Inr (0, take (unat m) (cluster_data s (cs ! i)))"
    using assms(1) i m by (intro read_cluster_start_ok) auto
  then show "read_loop (Suc n) s (cs ! i) w rm =
      bind_res (read_loop n s (fat_next s (cs ! i)) 0 (rm - m)) (\<lambda>rest.
        Inr (slice (i * sb_bpc s) (unat m) (file_bytes s cs) @ rest))"
    using assms(5) read_fat_entry_ok [OF assms(1) i] file_block [OF assms(1-3), of "unat m"] m
    by (simp add: m_def [symmetric])
qed

lemma chain_step:
  assumes "chain s c cs" and "Suc i < length cs"
  shows "fat_next s (cs ! i) = cs ! Suc i"
proof -
  have "linked (fat_next s) 0 c cs" using assms(1) by (simp add: chain_def)
  then show ?thesis
    using linked_nth [of "fat_next s" 0 c cs "Suc i"] linked_nth [of "fat_next s" 0 c cs i] assms(2)
    by simp
qed

lemma read_loop_aligned:
  assumes "geometry s" and "chain s c cs" and "i * sb_bpc s + unat rm \<le> length cs * sb_bpc s"
    and "i < length cs \<longrightarrow> cur = cs ! i" and "unat rm < n"
  shows "read_loop n s cur 0 rm = Inr (slice (i * sb_bpc s) (unat rm) (file_bytes s cs))"
  using assms(3-5)
proof (induction n arbitrary: i cur rm)
  case (Suc n)
  have b: "0 < sb_bpc s" using geometryD(2) [OF assms(1)] by simp
  show ?case
  proof (cases "rm = 0")
    case False
    then have pos: "0 < unat rm" by (simp add: unat_gt_0)
    have i: "i < length cs" using Suc.prems(1) pos by (rule block_index_less)
    let ?m = "min_u32 rm (byte_per_cluster (superblock s) - 0)"
    have w: "unat (0 :: u32) < sb_bpc s" using b by simp
    note st = read_loop_step [OF assms(1,2) i w False]
    have m: "unat ?m = min (unat rm) (sb_bpc s)" using st(2) by simp
    have rest: "read_loop n s (fat_next s (cs ! i)) 0 (rm - ?m) =
        Inr (slice (Suc i * sb_bpc s) (unat (rm - ?m)) (file_bytes s cs))"
      using Suc.prems pos m st(3) chain_step [OF assms(2)] b mult_le_mono1 [of "Suc i" "length cs" "sb_bpc s"] i
      by (intro Suc.IH) (auto simp: min_def split: if_splits)
    have "slice (i * sb_bpc s) (unat ?m) F @ slice (Suc i * sb_bpc s) (unat rm - unat ?m) F =
        slice (i * sb_bpc s) (unat rm) F" for F :: "byte list"
    proof (cases "unat rm \<le> sb_bpc s")
      case True
      then show ?thesis using m by (simp add: slice_def)
    next
      case False
      then show ?thesis using m slice_adjacent [of "i * sb_bpc s" "sb_bpc s" F] by (simp add: add.commute)
    qed
    then show ?thesis using st(1) [of n] rest st(3) i Suc.prems(2) by simp
  qed (simp add: slice_def)
qed simp

text \<open>
  The bytes a read returns, for every offset inside the file: the part taken from the first
  cluster starts at the beginning of that cluster, whatever the offset inside it is.
\<close>

definition read_result :: "fs \<Rightarrow> u32 list \<Rightarrow> nat \<Rightarrow> nat \<Rightarrow> byte list" where
  "read_result s cs off n =
     (let b = sb_bpc s; m = min n (b - off mod b)
      in slice (off div b * b) m (file_bytes s cs) @
         slice (Suc (off div b) * b) (n - m) (file_bytes s cs))"

lemma read_loop_ok:
  fixes off rm :: u32
  assumes "geometry s" and "chain s c cs" and "unat off + unat rm \<le> length cs * sb_bpc s" and "rm \<noteq> 0"
  shows "bind_res (walk_chain (unat (off div byte_per_cluster (superblock s))) s c) (\<lambda>cur.
      bind_res (read_loop (Suc (unat rm)) s cur (off mod byte_per_cluster (superblock s)) rm)
        (\<lambda>bs. Inr (sint rm, bs))) = Inr (sint rm, read_result s cs (unat off) (unat rm))"
proof -
  let ?b = "byte_per_cluster (superblock s)"
  define i where "i = unat off div sb_bpc s"
  have b: "0 < sb_bpc s" using geometryD(2) [OF assms(1)] by simp
  have d: "unat (off div ?b) = i" "unat (off mod ?b) = unat off mod sb_bpc s"
    by (simp_all add: i_def unat_div_distrib unat_mod_distrib)
  have O: "unat off = i * sb_bpc s + unat off mod sb_bpc s" by (simp add: i_def)
  have pos: "0 < unat rm" using assms(4) by (simp add: unat_gt_0)
  have i: "i < length cs"
    by (rule block_index_less [of _ "sb_bpc s" "unat off mod sb_bpc s + unat rm"]) (use assms(3) O pos in simp_all)
  have w: "unat (off mod ?b) < sb_bpc s" using b by (simp add: d(2))
  let ?m = "min_u32 rm (?b - off mod ?b)"
  note st = read_loop_step [OF assms(1,2) i w assms(4)]
  have fuel: "unat (rm - ?m) < unat rm" using st(2,3) pos w by simp
  have "Suc i * sb_bpc s + unat (rm - ?m) \<le> length cs * sb_bpc s"
  proof (cases "unat rm \<le> sb_bpc s - unat (off mod ?b)")
    case True
    then show ?thesis using st(2,3) mult_le_mono1 [of "Suc i" "length cs" "sb_bpc s"] i by simp
  next
    case False
    then show ?thesis using st(2,3) O assms(3) w d(2) by simp
  qed
  then have "read_loop (unat rm) s (fat_next s (cs ! i)) 0 (rm - ?m) =
      Inr (slice (Suc i * sb_bpc s) (unat (rm - ?m)) (file_bytes s cs))"
    using assms(1,2) fuel chain_step [OF assms(2), of i] by (intro read_loop_aligned) auto
  then show ?thesis
    using walk_chain_ok [OF assms(1,2) i] st d
    by (simp add: read_result_def Let_def i_def [symmetric] del: read_loop.simps)
qed

lemma read_result_aligned:
  "off mod sb_bpc s = 0 \<Longrightarrow> read_result s cs off n = slice off n (file_bytes s cs)"
proof -
  assume a: "off mod sb_bpc s = 0"
  then have o: "off div sb_bpc s * sb_bpc s = off" using div_mult_mod_eq [of off "sb_bpc s"] by simp
  have e: "Suc (off div sb_bpc s) * sb_bpc s = off + sb_bpc s" using o by simp
  show ?thesis
    unfolding read_result_def Let_def e o a
    using slice_adjacent [of off "sb_bpc s" "file_bytes s cs" "n - sb_bpc s"]
    by (cases "n \<le> sb_bpc s") (simp_all add: slice_def [of _ 0])
qed

lemma read_result_first_cluster:
  "off + n \<le> sb_bpc s \<Longrightarrow> 0 < n \<Longrightarrow> read_result s cs off n = slice 0 n (file_bytes s cs)"
  by (simp add: read_result_def Let_def slice_def [of _ 0])

lemma fat_read_ok:
  fixes sz offset :: u64
  assumes inv: "geometry s" "chain s (hd ps) ps" "ps \<noteq> []" "dir_ok s ps"
    and par: "resolves s (root_cluster_start (superblock s)) nms (hd ps)" and nm: "component nm" "nm \<noteq> []"
    and ent: "dir_lookup s ps nm = Some e" "chain s (de_first_cluster e) cs"
      "unat (de_size e) \<le> length cs * sb_bpc s"
    and size: "0 < unat sz" "unat sz < 2 ^ 32" "unat offset < unat (de_size e)"
  defines "n \<equiv> min (unat (de_size e) - unat offset) (unat sz)"
  shows "fat_read (path_of (nms @ [nm])) sz offset s =
    Inr (sint (of_nat n :: u32), read_result s cs (unat offset) n)"
proof -
  have off: "unat offset < 2 ^ 32" using size(3) unat_u32_bound [of "de_size e"] by simp
  have lo: "unat (low32 offset) = unat offset" "unat (low32 sz) = unat sz"
    using off size(2) by (simp_all add: low32_def unsigned_ucast_eq take_bit_nat_eq_self)
  have "sint offset = int (unat offset)" using off by (intro sint_u64) simp
  moreover have "uint (de_size e) = int (unat (de_size e))" by simp
  ultimately have inside: "\<not> uint (de_size e) \<le> sint offset" using size(3) by linarith
  have sz0: "sz \<noteq> 0" using size(1) by auto
  let ?n = "min_u32 (de_size e - low32 offset) (low32 sz)"
  have un: "unat ?n = n" using size(3) lo by (simp add: n_def unat_sub word_le_nat_alt)
  then have nn: "?n = of_nat n" by (metis of_nat_unat ucast_id)
  have "n \<noteq> 0" using size by (simp add: n_def)
  then have n0: "?n \<noteq> 0" using un by (metis unat_0)
  have le: "unat (low32 offset) + unat ?n \<le> length cs * sb_bpc s"
    using un lo(1) ent(3) size(3) by (simp add: n_def)
  have hd: "hd ps \<noteq> 0" using inv(2,3) by (rule chain_hd_not_0)
  have find: "find_dir_entry_by_path s (path_of (nms @ [nm])) = Inr (Some e)"
    using find_by_path_ok [OF inv(1) par inv(2) hd nm] dir_lookup_slot(3,4) [OF inv(4) ent(1)] ent(1) by simp
  show ?thesis
    unfolding fat_read_def Let_def path_not_root [OF nm(2)] find bind_res_Inr option.case
    using inside sz0 bpc_not_0 [OF inv(1)] read_loop_ok [OF inv(1) ent(2) le n0] lo(1) un
    by (simp add: nn del: read_loop.simps)
qed

section \<open>Writing and truncating\<close>

lemma fat_write_locates:
  assumes "alloc_inv s fl (fs # ps # cls)" and "dir_ok s ps"
    and "resolves s (root_cluster_start (superblock s)) nms (hd ps)" and "component nm"
    and "dir_lookup s ps nm = Some e"
  shows "fat_write (path_of (nms @ [nm])) buf sz offset s = update_file (hd ps) e buf sz offset s"
  using locate_entry [OF assms(1) _ assms(3,2,5,4)] by (simp add: fat_write_def del: path_of_append)

text \<open>The chain after a cut behind its first clusters \<open>xs\<close>.\<close>

definition shrunk :: "fs \<Rightarrow> u32 list \<Rightarrow> u32 list \<Rightarrow> fs" where
  "shrunk s xs ys =
     (if ys = [] then store_fat s (last xs) 0 else freed (store_fat s (last xs) 0) ys)"

lemma shrunk_simps [simp]:
  "byte_per_cluster (superblock (shrunk s xs ys)) = byte_per_cluster (superblock s)"
  "root_cluster_start (superblock (shrunk s xs ys)) = root_cluster_start (superblock s)"
  "heap_tail (shrunk s xs ys) = heap_tail s" "clock (shrunk s xs ys) = clock s"
  "data_cluster (shrunk s xs ys) = data_cluster s"
  by (simp_all add: shrunk_def)

lemma chain_split_last:
  assumes "chain s c (xs @ ys)" and "xs \<noteq> []"
  shows "fat_next s (last xs) = (if ys = [] then 0 else hd ys)"
proof (cases ys)
  case Nil
  then show ?thesis using assms by (auto simp: chain_def intro: linked_last)
next
  case (Cons y zs)
  have "linked (fat_next s) 0 (fat_next s (last xs)) ys"
    using assms by (intro linked_cut_back [of _ _ c]) (auto simp: chain_def)
  then show ?thesis using Cons by simp
qed

lemma shrink_chain_ok:
  fixes sz :: u32
  assumes g: "geometry s" and c: "chain s c (xs @ ys)" and xs: "length xs = Suc (unat sz div sb_bpc s)"
  shows "shrink_chain c sz s = Inr (shrunk s xs ys)"
proof -
  have ne: "xs \<noteq> []" using xs by auto
  have i: "unat (sz div byte_per_cluster (superblock s)) = length xs - 1"
    using xs by (simp add: unat_div_distrib One_nat_def)
  have walk: "walk_chain (length xs - 1) s c = Inr (last xs)"
    using walk_chain_ok [OF g c, of "length xs - 1"] xs ne
    by (simp add: nth_append last_conv_nth)
  have l: "data_cluster s (last xs)" using chain_data [OF c] ne by simp
  let ?t = "store_fat s (last xs) 0"
  have cut: "read_fat_entry s (last xs) = Inr (fat_next s (last xs))"
    "update_fat_entry (last xs) END_OF_CHAIN True s = Inr (0, ?t)"
    using g l by (simp_all add: read_fat_entry_ok update_fat_entry_through END_OF_CHAIN_def)
  note cf = cut_facts [OF g c ne]
  show ?thesis
  proof (cases "ys = []")
    case True
    then show ?thesis
      using walk i cut chain_split_last [OF c ne] bpc_not_0 [OF g]
      by (simp add: shrink_chain_def shrunk_def END_OF_CHAIN_def)
  next
    case False
    have hy: "fat_next s (last xs) = hd ys" using chain_split_last [OF c ne] False by simp
    have cy: "chain ?t (hd ys) ys" using cf(4) hy by simp
    have h0: "hd ys \<noteq> 0" using cy False by (rule chain_hd_not_0)
    have ll: "last_loop (chain_fuel ?t) ?t (hd ys) = Inr (last ys)"
      using cf(1) cy h0 by (rule last_loop_fuel_ok)
    let ?u = "store_fat ?t (last ys) (free_cluster_start (superblock ?t))"
    have dl: "data_cluster ?t (last ys)" using cy h0 by (rule chain_last)
    have up: "update_fat_entry (last ys) (free_cluster_start (superblock ?t)) True ?t = Inr (0, ?u)"
      using cf(1) dl by (rule update_fat_entry_through)
    have "geometry (set_free_start ?u (hd ys))" using cf(1) dl by simp
    then have "write_superblock_to_disk (set_free_start ?u (hd ys)) = Inr (0, store_free_start ?u (hd ys))"
      unfolding store_free_start_def by (rule write_superblock_ok)
    then show ?thesis
      using walk i cut hy h0 ll up bpc_not_0 [OF g] False
      by (simp add: shrink_chain_def shrunk_def END_OF_CHAIN_def freed_def)
  qed
qed

lemma shrunk_facts:
  assumes inv: "alloc_inv s fl ((xs @ ys) # cls)" and xs: "xs \<noteq> []"
  shows "alloc_inv (shrunk s xs ys) (ys @ fl) (xs # cls)"
    and "data_cluster s d \<Longrightarrow> cluster_data (shrunk s xs ys) d = cluster_data s d"
proof -
  note i = alloc_invD [OF inv]
  have c: "chain s (hd xs) (xs @ ys)" using i(5) [of "xs @ ys"] xs by simp
  note cf = cut_facts [OF i(1) c xs]
  show "cluster_data (shrunk s xs ys) d = cluster_data s d" if d: "data_cluster s d"
  proof (cases "ys = []")
    case False
    have "fat_next s (last xs) = hd ys" using chain_split_last [OF c xs] False by simp
    then have cy: "chain (store_fat s (last xs) 0) (hd ys) ys" using cf(4) by simp
    then have "hd ys \<noteq> 0" using False by (rule chain_hd_not_0)
    then show ?thesis
      using freed_facts(4) [OF cf(1) cy, of d] cf(5) [OF d] d False by (simp add: shrunk_def)
  qed (use cf(5) [OF d] in \<open>simp add: shrunk_def\<close>)
  show "alloc_inv (shrunk s xs ys) (ys @ fl) (xs # cls)"
  proof (cases "ys = []")
    case True
    have "chain (store_fat s (last xs) 0) (hd ds) ds" if "ds \<in> set cls" for ds
      using alloc_inv_disjoint(2,4) [OF inv that] True by (intro cf(6)) auto
    moreover have "free_list (store_fat s (last xs) 0) fl"
      using i(3) i(6) [of "xs @ ys"] cf(6) unfolding free_list_def by auto
    ultimately show ?thesis
      using True cf(1,2,3) i xs by (auto simp: shrunk_def alloc_inv_def)
  next
    case False
    then show ?thesis using alloc_inv_cut [OF inv xs] by (simp add: shrunk_def)
  qed
qed

lemma unat_low32: "unat (x :: u64) < 2 ^ 32 \<Longrightarrow> unat (low32 x) = unat x"
  by (simp add: low32_def unsigned_ucast_eq take_bit_nat_eq_self)

lemma off_t_compare:
  fixes sz :: u64 and n :: u32
  assumes "unat sz < 2 ^ 32"
  shows "sint sz = uint n \<longleftrightarrow> unat sz = unat n" and "uint n < sint sz \<longleftrightarrow> unat n < unat sz"
proof -
  define a b where "a = unat sz" and "b = unat n"
  have "sint sz = int a" unfolding a_def using assms by (intro sint_u64) simp
  moreover have "uint n = int b" by (simp add: b_def)
  ultimately show "sint sz = uint n \<longleftrightarrow> unat sz = unat n" "uint n < sint sz \<longleftrightarrow> unat n < unat sz"
    by (simp_all add: a_def [symmetric] b_def [symmetric])
qed

lemma file_bytes_same:
  "(\<And>c. c \<in> set cs \<Longrightarrow> cluster_data t c = cluster_data s c) \<Longrightarrow> file_bytes t cs = file_bytes s cs"
  unfolding file_bytes_def by (intro arg_cong [where f = concat] map_cong) auto

lemma fat_truncate_shrink_ok:
  fixes sz :: u64
  assumes inv: "alloc_inv s fl ((xs @ ys) # ps # cls)" and dir: "dir_ok s ps" "unique_names s ps"
    and par: "resolves s (root_cluster_start (superblock s)) nms (hd ps)" and nm: "component nm" "nm \<noteq> []"
    and ent: "dir_lookup s ps nm = Some e" "de_first_cluster e = hd xs"
    and size: "unat sz < unat (de_size e)" "length xs = Suc (unat sz div sb_bpc s)"
  shows "\<exists>t. fat_truncate (path_of (nms @ [nm])) sz s = Inr (0, t) \<and>
    alloc_inv t (ys @ fl) (xs # ps # cls) \<and> file_bytes t xs = file_bytes s xs \<and>
    dir_lookup t ps nm = Some (e\<lparr>de_size := low32 sz\<rparr>) \<and>
    (\<forall>nm'. nm' \<noteq> nm \<longrightarrow> dir_lookup t ps nm' = dir_lookup s ps nm') \<and> dir_ok t ps \<and> unique_names t ps \<and>
    same_layout s t \<and>
    (\<forall>b. data_cluster s b \<longrightarrow> b \<notin> set ps \<longrightarrow> cluster_data t b = cluster_data s b)"
proof -
  note i = alloc_invD [OF inv]
  have xs: "xs \<noteq> []" using size(2) by auto
  have c: "chain s (hd xs) (xs @ ys)" using i(5) [of "xs @ ys"] xs by simp
  have sz: "unat sz < 2 ^ 32" using size(1) unat_u32_bound [of "de_size e"] by simp
  let ?u = "shrunk s xs ys" and ?e = "e\<lparr>de_size := low32 sz\<rparr>"
  have shrink: "shrink_chain (hd xs) (low32 sz) s = Inr ?u"
    using i(1) c size(2) unat_low32 [OF sz] by (intro shrink_chain_ok) auto
  note sf = shrunk_facts [OF inv xs]
  note u = alloc_invD [OF sf(1)]
  have ps: "chain ?u (hd ps) ps" "hd ps \<noteq> 0" "\<forall>c \<in> set ps. data_cluster s c"
    using u(4,5) chain_hd_not_0 [of ?u ps] chain_data [of s "hd ps" ps] i(5) by auto
  have d: "dir_slots ?u ps = dir_slots s ps" "dir_ok ?u ps = dir_ok s ps"
    using ps(3) by (intro dir_slots_frame dir_ok_frame sf(2); simp)+
  have pre: "dir_ok ?u ps" "dir_lookup ?u ps nm = Some e" "de_name ?e = de_name e" "unique_names ?u ps"
    using dir ent(1) d by (simp_all add: unique_names_def dir_lookup_def)
  obtain j k where r: "j < length ps" "40 * k + 40 \<le> sb_bpc ?u"
      "update_dir_entry (hd ps) ?e False ?u = Inr (0, put_slot ?u (ps ! j) k (enc_dir_entry ?e))"
      "dir_lookup (put_slot ?u (ps ! j) k (enc_dir_entry ?e)) ps nm = Some ?e"
      "\<forall>nm'. nm' \<noteq> nm \<longrightarrow>
        dir_lookup (put_slot ?u (ps ! j) k (enc_dir_entry ?e)) ps nm' = dir_lookup ?u ps nm'"
      "dir_ok (put_slot ?u (ps ! j) k (enc_dir_entry ?e)) ps"
      "unique_names (put_slot ?u (ps ! j) k (enc_dir_entry ?e)) ps"
    using update_dir_entry_ok [OF u(1) ps(1,2) pre(1,2) nm(2) pre(3)] pre(4) by blast
  let ?t = "put_slot ?u (ps ! j) k (enc_dir_entry ?e)"
  have fit: "40 * k + length (enc_dir_entry ?e) \<le> sb_bpc ?u"
    using r(2) dir_lookup_slot(2) [OF dir(1) ent(1)] by (simp add: dir_codec.enc_len)
  have dj: "data_cluster ?u (ps ! j)" using ps(3) r(1) by simp
  have "alloc_inv ?t (ys @ fl) (xs # ps # cls)" using sf(1) dj fit by (rule alloc_inv_put_slot)
  moreover have fr: "cluster_data ?t b = cluster_data s b" if "data_cluster s b" "b \<notin> set ps" for b
  proof -
    have "b \<noteq> ps ! j" using that(2) r(1) by auto
    then show ?thesis using put_slot_ok(4) [OF u(1) dj fit] sf(2) [OF that(1)] that(1) by simp
  qed
  moreover have "file_bytes ?t xs = file_bytes s xs"
    using alloc_inv_disjoint(1) [OF inv, of ps] chain_data [OF c] by (intro file_bytes_same fr) auto
  moreover have "same_layout s ?t" by (simp add: same_layout_iff shrunk_def)
  moreover have "fat_truncate (path_of (nms @ [nm])) sz s = Inr (0, ?t)"
    using locate_entry [OF inv _ par dir(1) ent(1) nm(1)] off_t_compare [OF sz, of "de_size e"]
      size(1) shrink r(3) ent(2) by (simp add: fat_truncate_def del: path_of_append)
  ultimately show ?thesis
    using r(4-7) lookup_cong [OF d(1)] by (intro exI [of _ ?t] conjI allI impI) simp_all
qed

section \<open>Creating\<close>

lemma create_ok:
  assumes inv: "alloc_inv s fl (cs # cls)" and fl: "fl \<noteq> []" "root_cluster_start (superblock s) \<notin> set fl"
    and par: "resolves s (root_cluster_start (superblock s)) nms (hd cs)"
    and nm: "name_ok nm" "component nm"
    and slot: "first_at s cs slot_free j k" "40 * k + 40 \<le> sb_bpc s"
  shows "fat_mkdir (path_of (nms @ [nm])) s =
      Inr (0, entry_added s fl (hd cs) (cs ! j) k nm DIR_ENTRY_TYPE_SUBDIR)"
    and "S_ISREG mode \<Longrightarrow> fat_mknod (path_of (nms @ [nm])) mode s =
      Inr (0, entry_added s fl (hd cs) (cs ! j) k nm DIR_ENTRY_TYPE_FILE)"
proof -
  have "has_free_cluster s"
    using has_free_cluster_iff [OF alloc_invD(1,3) [OF inv] fl(2)] fl(1) by simp
  then show "fat_mkdir (path_of (nms @ [nm])) s =
      Inr (0, entry_added s fl (hd cs) (cs ! j) k nm DIR_ENTRY_TYPE_SUBDIR)"
    "S_ISREG mode \<Longrightarrow> fat_mknod (path_of (nms @ [nm])) mode s =
      Inr (0, entry_added s fl (hd cs) (cs ! j) k nm DIR_ENTRY_TYPE_FILE)"
    using add_dir_entry_ok [OF inv fl(1) par nm slot]
    by (simp_all add: fat_mkdir_def fat_mknod_def del: path_of_append)
qed

lemma create_full:
  assumes "alloc_inv s [] cls" and "root_cluster_start (superblock s) \<notin> set ([] :: u32 list)"
  shows "fat_mkdir path s = Inr (- ENOMEM, s)" and "fat_create path mode s = Inr (0, s)"
proof -
  have "\<not> has_free_cluster s"
    using has_free_cluster_iff [OF alloc_invD(1,3) [OF assms(1)] assms(2)] by simp
  then show "fat_mkdir path s = Inr (- ENOMEM, s)" "fat_create path mode s = Inr (0, s)"
    by (simp_all add: fat_mkdir_def fat_create_def fat_mknod_def)
qed

section \<open>Queries\<close>

lemma uint_count:
  assumes "geometry s" and "chain s c cs"
  shows "uint (word_of_nat (length cs) :: u32) = int (length cs)"
  using unat_count [OF assms] by (metis of_nat_unat ucast_id uint_nat)

lemma fat_statfs_ok:
  assumes "geometry s" and "free_list s fl"
  shows "fat_statfs s = Inr (0,
    \<lparr>f_blocks = int (sb_count s) - int (sb_fatlen s) - 1, f_bsize = int (sb_bpc s),
     f_bfree = int (length fl), f_bavail = int (length fl), f_ffree = int (length fl),
     f_favail = int (length fl), f_namemax = 21\<rparr>)"
proof -
  let ?c = "cluster_count (superblock s)" and ?f = "cluster_per_fat (superblock s)"
  have lt: "1 + sb_fatlen s < sb_count s" by (rule geometryD(5) [OF assms(1)])
  then have "unat (?c - ?f) = sb_count s - sb_fatlen s" by (simp add: unat_sub word_le_nat_alt)
  moreover from this lt have "unat (?c - ?f - 1) = unat (?c - ?f) - 1"
    by (intro unat_sub [of 1, simplified]) (simp add: word_le_nat_alt)
  ultimately have "int (unat (?c - ?f - 1)) = int (sb_count s) - int (sb_fatlen s) - 1"
    using lt by simp
  then show ?thesis
    using count_cluster_ok [OF assms(1) assms(2) [unfolded free_list_def]]
      uint_count [OF assms(1) assms(2) [unfolded free_list_def]]
    by (simp add: fat_statfs_def DIR_ENTRY_MAX_NAME_LEN_def)
qed

lemma fat_access_ok:
  assumes "geometry s" and "resolves s (root_cluster_start (superblock s)) nms (hd ps)"
    and "chain s (hd ps) ps" and "ps \<noteq> []" and "component nm" and "name_ok nm"
  shows "fat_access (path_of (nms @ [nm])) s = Inr (if dir_lookup s ps nm = None then - ENOENT else 0)"
    and "fat_open (path_of (nms @ [nm])) s = Inr (if dir_lookup s ps nm = None then - ENOENT else 0)"
proof -
  have nm: "nm \<noteq> []" using assms(6) by (simp add: name_ok_def)
  have "hd ps \<noteq> 0" using assms(3,4) by (rule chain_hd_not_0)
  then have "find_dir_entry_by_path s (path_of (nms @ [nm])) = Inr (dir_lookup s ps nm)"
    using find_by_path_ok [OF assms(1-3) _ assms(5) nm] name_ok_lookup [OF assms(6)] by simp
  then show "fat_access (path_of (nms @ [nm])) s = Inr (if dir_lookup s ps nm = None then - ENOENT else 0)"
    "fat_open (path_of (nms @ [nm])) s = Inr (if dir_lookup s ps nm = None then - ENOENT else 0)"
    using path_not_root [OF nm, of nms] by (simp_all add: fat_access_def fat_open_def del: path_of_append)
qed

lemma fat_readdir_ok:
  assumes "geometry s" and "resolves s (root_cluster_start (superblock s)) nms (hd ps)"
    and "chain s (hd ps) ps" and "ps \<noteq> []" and "dir_ok s ps"
  shows "fat_readdir (path_of nms) buf filler 0 s =
    Inr (0, snd (snd (list_slots filler (dir_slots s ps) 0 buf)))"
proof -
  have "hd ps \<noteq> 0" using assms(3,4) by (rule chain_hd_not_0)
  then show ?thesis
    using find_first_cluster_ok(1) [OF assms(1,2)]
    by (simp add: fat_readdir_def low32_def read_dir_entries_ok [OF assms(1,3) _ assms(5)])
qed

lemma fat_getattr_file:
  assumes "geometry s" and "resolves s (root_cluster_start (superblock s)) nms (hd ps)"
    and "chain s (hd ps) ps" and "ps \<noteq> []" and "component nm" and "name_ok nm"
    and "dir_lookup s ps nm = Some e" and "de_type e = DIR_ENTRY_TYPE_FILE"
  shows "fat_getattr (path_of (nms @ [nm])) stbuf s =
    Inr (0, \<lparr>st_mode = or (or (or S_IRWXU S_IRWXG) S_IRWXO) S_IFREG, st_nlink = 2,
      st_ino = int (unat (de_first_cluster e)), st_size = int (unat (de_size e)),
      st_mtime = sint (de_time e)\<rparr>)"
proof -
  have nm: "nm \<noteq> []" using assms(6) by (simp add: name_ok_def)
  have "hd ps \<noteq> 0" using assms(3,4) by (rule chain_hd_not_0)
  then have "find_dir_entry_by_path s (path_of (nms @ [nm])) = Inr (Some e)"
    using find_by_path_ok [OF assms(1-3) _ assms(5) nm] name_ok_lookup [OF assms(6)] assms(7) by simp
  then show ?thesis
    using path_not_root [OF nm, of nms] assms(8)
    by (simp add: fat_getattr_def Let_def zero_stat_def DIR_ENTRY_TYPE_FILE_def
        DIR_ENTRY_TYPE_SUBDIR_def del: path_of_append)
qed

lemma fat_getattr_absent:
  assumes "geometry s" and "resolves s (root_cluster_start (superblock s)) nms (hd ps)"
    and "chain s (hd ps) ps" and "ps \<noteq> []" and "component nm" and "name_ok nm"
    and "dir_lookup s ps nm = None"
  shows "fat_getattr (path_of (nms @ [nm])) stbuf s = Inr (- ENOENT, stbuf)"
proof -
  have nm: "nm \<noteq> []" using assms(6) by (simp add: name_ok_def)
  have "hd ps \<noteq> 0" using assms(3,4) by (rule chain_hd_not_0)
  then have "find_dir_entry_by_path s (path_of (nms @ [nm])) = Inr None"
    using find_by_path_ok [OF assms(1-3) _ assms(5) nm] name_ok_lookup [OF assms(6)] assms(7) by simp
  then show ?thesis
    using path_not_root [OF nm, of nms] by (simp add: fat_getattr_def Let_def del: path_of_append)
qed

text \<open>A name that does not fit: the call reports success, the cluster it took is lost.\<close>

lemma mknod_long_name:
  assumes inv: "alloc_inv s fl (cs # cls)" and fl: "fl \<noteq> []" "root_cluster_start (superblock s) \<notin> set fl"
    and par: "resolves s (root_cluster_start (superblock s)) nms (hd cs)"
    and nm: "length nm > DIR_ENTRY_MAX_NAME_LEN" "component nm" and mode: "S_ISREG mode"
  shows "fat_mknod (path_of (nms @ [nm])) mode s = Inr (0, popped s fl 1)"
proof -
  note i = alloc_invD [OF inv]
  have len: "0 < (1 :: nat)" "1 \<le> length fl" using fl(1) by (cases fl; auto)+
  have pop: "pop_free_clusters 1 s = Inr (hd fl, popped s fl 1)"
    using pop_free_clusters_ok [OF i(1,3), of 1] len by simp
  have "data_cluster s (hd fl)"
    using i(3) fl(1) chain_data [of s _ fl "hd fl"] unfolding free_list_def by simp
  then have add: "add_dir_entry_to_cluster (hd cs) nm (hd fl) DIR_ENTRY_TYPE_FILE (popped s fl 1) =
      Inr (-1, popped s fl 1)"
    using popped_geometry [OF i(1,3) len] nm(1) by (intro add_entry_bad_name) auto
  have "add_dir_entry (path_of (nms @ [nm])) DIR_ENTRY_TYPE_FILE s = Inr (0, popped s fl 1)"
    unfolding add_dir_entry_def parent_and_target(1,2) [OF i(1) par nm(2)] bind_res_Inr
      find_first_cluster_ok(2) [OF i(1) par] pop split_conv add
    by (simp add: DIR_ENTRY_TYPE_FILE_def DIR_ENTRY_TYPE_SUBDIR_def)
  then show ?thesis
    using has_free_cluster_iff [OF i(1,3) fl(2)] fl(1) mode
    by (simp add: fat_mknod_def del: path_of_append)
qed

end
