(* ===== verification/Fat_Example.thy ===== *)
theory Fat_Example
  imports Fat_Ops_Correct
begin

text \<open>
  Concrete states, built by running the program's own operations from the state in which the
  process starts: a newly formatted disk, the same disk with a file, with a directory, and
  with three bytes written to the file. The properties are instantiated at these states.
\<close>

section \<open>A new disk\<close>

definition boot_state :: fs where
  "boot_state =
     \<lparr>superblock = \<lparr>byte_per_cluster = 0, cluster_count = 0, cluster_per_fat = 0, fat_type = 0,
        root_cluster_start = 0, free_cluster_start = 0\<rparr>,
      sb_pad = replicate 488 0, fat_table = [], disk = [], heap_tail = (\<lambda>_. 0), clock = 1000\<rparr>"

definition run :: "(int \<times> fs) res \<Rightarrow> fs \<Rightarrow> fs" where
  "run r s = (case r of Inl _ \<Rightarrow> s | Inr (_, t) \<Rightarrow> t)"

definition new_disk :: fs where
  "new_disk = (case fat_init None boot_state of Inl _ \<Rightarrow> boot_state | Inr t \<Rightarrow> t)"

lemma new_disk_facts:
  shows "fat_init None boot_state = Inr new_disk" and "alloc_inv new_disk all_free [[4]]"
    and "superblock new_disk = default_superblock" and "clock new_disk = 1000"
    and "dir_ok new_disk [4]" and "unique_names new_disk [4]" and "dir_empty new_disk [4]"
    and "first_at new_disk [4] slot_free 0 2"
    and "dir_lookup new_disk [4] dot = Some (new_dir_entry boot_state dot 4 DIR_ENTRY_TYPE_SUBDIR)"
    and "dir_lookup new_disk [4] dotdot = Some (new_dir_entry boot_state dotdot 4 DIR_ENTRY_TYPE_SUBDIR)"
    and "heap_tail new_disk = (\<lambda>_. 0)"
proof -
  have "length (sb_pad boot_state) = 488" by (simp add: boot_state_def)
  from fat_init_new [OF this] obtain t where t: "fat_init None boot_state = Inr t"
      "alloc_inv t all_free [[4]]" "superblock t = default_superblock" "clock t = clock boot_state"
      "dir_ok t [4]" "unique_names t [4]" "dir_empty t [4]" "first_at t [4] slot_free 0 2"
      "dir_lookup t [4] dot = Some (new_dir_entry boot_state dot 4 DIR_ENTRY_TYPE_SUBDIR)"
      "dir_lookup t [4] dotdot = Some (new_dir_entry boot_state dotdot 4 DIR_ENTRY_TYPE_SUBDIR)"
      "heap_tail t = heap_tail boot_state"
    by blast
  moreover have "new_disk = t" using t(1) by (simp add: new_disk_def)
  ultimately show "fat_init None boot_state = Inr new_disk" "alloc_inv new_disk all_free [[4]]"
    "superblock new_disk = default_superblock" "clock new_disk = 1000"
    "dir_ok new_disk [4]" "unique_names new_disk [4]" "dir_empty new_disk [4]"
    "first_at new_disk [4] slot_free 0 2"
    "dir_lookup new_disk [4] dot = Some (new_dir_entry boot_state dot 4 DIR_ENTRY_TYPE_SUBDIR)"
    "dir_lookup new_disk [4] dotdot = Some (new_dir_entry boot_state dotdot 4 DIR_ENTRY_TYPE_SUBDIR)"
    "heap_tail new_disk = (\<lambda>_. 0)"
    by (simp_all add: boot_state_def)
qed

lemma all_free_Cons: "all_free = 5 # map of_nat [6 ..< 2560]"
  by (simp add: all_free_def upt_conv_Cons)

lemma all_free_simps [simp]:
  "hd all_free = 5" "all_free \<noteq> []" "length all_free = 2555" "4 \<notin> set all_free"
proof -
  show "4 \<notin> set all_free" by (simp add: set_all_free)
qed (simp_all add: all_free_Cons)

lemma new_disk_geometry: "geometry new_disk" "synced new_disk" "free_list new_disk all_free" "chain new_disk 4 [4]"
  using alloc_invD(1-3) [OF new_disk_facts(2)] alloc_invD(5) [OF new_disk_facts(2), of "[4]"]
  by simp_all

lemma new_disk_absent: "nm \<noteq> dot \<Longrightarrow> nm \<noteq> dotdot \<Longrightarrow> nm \<noteq> [] \<Longrightarrow> dir_lookup new_disk [4] nm = None"
  using new_disk_facts(7) unfolding dir_lookup_def dir_empty_def find_None_iff by auto

section \<open>A file and a directory\<close>

definition name_a :: cstring where "name_a = [97]"

lemma name_a [simp]:
  "name_ok name_a" "component name_a" "name_a \<noteq> []" "name_a \<noteq> dot" "name_a \<noteq> dotdot"
  by (auto simp: name_a_def name_ok_def component_def slash_def dot_def dotdot_def DIR_ENTRY_MAX_NAME_LEN_def)

lemma resolves_root: "resolves s c [] c" by (rule resolves.here)

definition disk_a :: fs where
  "disk_a = run (fat_mknod (path_of ([] @ [name_a])) S_IFREG new_disk) new_disk"

definition disk_d :: fs where
  "disk_d = run (fat_mkdir (path_of ([] @ [name_a])) new_disk) new_disk"

lemmas new_disk_slot = new_disk_facts(8)

lemma new_disk_fits: "40 * 2 + 40 \<le> sb_bpc new_disk"
  by (simp add: new_disk_facts(3))

lemmas create_new =
  create_ok [OF new_disk_facts(2) all_free_simps(2) _ _ name_a(1,2) new_disk_slot new_disk_fits, of "[]"]

lemma disk_a_eq:
  "fat_mknod (path_of ([] @ [name_a])) S_IFREG new_disk = Inr (0, disk_a)"
  "disk_a = entry_added new_disk all_free 4 4 2 name_a DIR_ENTRY_TYPE_FILE"
  using create_new(2) [of S_IFREG]
  by (simp_all add: disk_a_def run_def new_disk_facts(3) resolves_root S_ISREG_def S_IFREG_def S_IFMT_def)

lemma disk_d_eq:
  "fat_mkdir (path_of ([] @ [name_a])) new_disk = Inr (0, disk_d)"
  "disk_d = entry_added new_disk all_free 4 4 2 name_a DIR_ENTRY_TYPE_SUBDIR"
  using create_new(1) by (simp_all add: disk_d_def run_def new_disk_facts(3) resolves_root)

lemmas new_disk_added = entry_added_inv [OF new_disk_facts(2) all_free_simps(2) new_disk_slot new_disk_fits]
  and new_disk_parent = entry_added_parent [OF new_disk_facts(2) all_free_simps(2) new_disk_slot
    new_disk_fits new_disk_facts(5) name_a(1) new_disk_absent [OF name_a(4,5,3)]]

lemma disk_a_facts:
  shows "alloc_inv disk_a (tl all_free) [[5], [4]]" and "dir_ok disk_a [4]" and "unique_names disk_a [4]"
    and "dir_lookup disk_a [4] name_a = Some (new_dir_entry new_disk name_a 5 DIR_ENTRY_TYPE_FILE)"
    and "cluster_data disk_a 5 = replicate 4096 0"
    and "byte_per_cluster (superblock disk_a) = 4096" and "root_cluster_start (superblock disk_a) = 4"
  using new_disk_added(1,3) [where nm = name_a and ty = DIR_ENTRY_TYPE_FILE]
    new_disk_parent(1,3,5) [where ty = DIR_ENTRY_TYPE_FILE] new_disk_facts(3,6)
  by (simp_all add: disk_a_eq(2) get_new_cluster_def DIR_ENTRY_TYPE_FILE_def DIR_ENTRY_TYPE_SUBDIR_def)

lemma disk_d_facts:
  shows "alloc_inv disk_d (tl all_free) [[5], [4]]" and "dir_ok disk_d [4]" and "unique_names disk_d [4]"
    and "dir_lookup disk_d [4] name_a = Some (new_dir_entry new_disk name_a 5 DIR_ENTRY_TYPE_SUBDIR)"
    and "dir_ok disk_d [5]" and "unique_names disk_d [5]" and "dir_empty disk_d [5]"
    and "first_at disk_d [5] slot_free 0 2"
    and "byte_per_cluster (superblock disk_d) = 4096" and "root_cluster_start (superblock disk_d) = 4"
  using new_disk_added(1,4) [where nm = name_a and ty = DIR_ENTRY_TYPE_SUBDIR]
    new_disk_parent(1,3,5) [where ty = DIR_ENTRY_TYPE_SUBDIR] new_disk_facts(3,6)
  by (simp_all add: disk_d_eq(2))

section \<open>A file with contents\<close>

definition entry_a :: fat_dir_entry where
  "entry_a = new_dir_entry new_disk name_a 5 DIR_ENTRY_TYPE_FILE"

lemma entry_a_simps [simp]:
  "de_type entry_a = DIR_ENTRY_TYPE_FILE" "de_first_cluster entry_a = 5" "de_size entry_a = 0"
  by (simp_all add: entry_a_def new_dir_entry_def)

definition disk_data :: fs where
  "disk_data = run (fat_write (path_of ([] @ [name_a])) [1, 2, 3] 3 0 disk_a) disk_a"

lemma disk_a_file: "file_bytes disk_a [5] = replicate 4096 0"
  by (simp add: file_bytes_def disk_a_facts(5))

lemma low32_simps [simp]: "low32 3 = 3" "low32 0 = 0"
  by (simp_all add: low32_def)

lemma disk_data_facts:
  shows "fat_write (path_of ([] @ [name_a])) [1, 2, 3] 3 0 disk_a = Inr (3, disk_data)"
    and "alloc_inv disk_data (tl all_free) [[5], [4]]" and "dir_ok disk_data [4]" and "unique_names disk_data [4]"
    and "dir_lookup disk_data [4] name_a = Some (entry_a\<lparr>de_size := 3, de_time := 1000\<rparr>)"
    and "file_bytes disk_data [5] = [1, 2, 3] @ replicate 4093 0"
    and "byte_per_cluster (superblock disk_data) = 4096" and "root_cluster_start (superblock disk_data) = 4"
proof -
  have g: "clusters_for disk_a (unat (low32 0) + unat (low32 3)) - length [5 :: u32] = 0"
    by (simp add: clusters_for_def disk_a_facts(6))
  have res: "resolves disk_a (root_cluster_start (superblock disk_a)) [] (hd [4])"
    by (simp add: disk_a_facts(7) resolves_root)
  have w: "fat_write (path_of ([] @ [name_a])) [1, 2, 3] 3 0 disk_a =
      update_file (hd [4]) entry_a [1, 2, 3] 3 0 disk_a"
    using disk_a_facts(4) [folded entry_a_def]
    by (rule fat_write_locates [OF disk_a_facts(1,2) res name_a(2)])
  obtain t where t: "update_file (hd [4]) entry_a [1, 2, 3] 3 0 disk_a = Inr (sint (low32 3), t)"
      "alloc_inv t (drop 0 (tl all_free)) [[5] @ take 0 (tl all_free), [4]]"
      "file_bytes t ([5] @ take 0 (tl all_free)) =
        splice (file_bytes disk_a [5] @ replicate (0 * sb_bpc disk_a) 0) (unat (low32 0))
          (take (unat (low32 3)) [1, 2, 3])"
      "dir_lookup t [4] name_a = Some (sized disk_a entry_a (unat (low32 0) + unat (low32 3)))"
      "dir_ok t [4]" "unique_names t [4]" "same_layout disk_a t"
    using update_file_ok [OF disk_a_facts(1-3) disk_a_facts(4) [folded entry_a_def] name_a(3), of 3 "[1, 2, 3]" 0]
    unfolding g by auto
  have d: "disk_data = t" using w t(1) by (simp add: disk_data_def run_def)
  show "fat_write (path_of ([] @ [name_a])) [1, 2, 3] 3 0 disk_a = Inr (3, disk_data)"
    using w t(1) d by simp
  show "alloc_inv disk_data (tl all_free) [[5], [4]]" "dir_ok disk_data [4]" "unique_names disk_data [4]"
    using t(2,5,6) d by simp_all
  have "clock disk_a = 1000" by (simp add: disk_a_eq(2) new_disk_facts(4))
  then show "dir_lookup disk_data [4] name_a = Some (entry_a\<lparr>de_size := 3, de_time := 1000\<rparr>)"
    using t(4) d by (simp add: sized_def)
  show "file_bytes disk_data [5] = [1, 2, 3] @ replicate 4093 0"
    using t(3) d by (simp add: disk_a_file splice_def)
  show "byte_per_cluster (superblock disk_data) = 4096" "root_cluster_start (superblock disk_data) = 4"
    using same_layoutD(1,4) [OF t(7)] d disk_a_facts(6,7) by simp_all
qed

end
