(* ===== verification/Fat_Properties.thy ===== *)
theory Fat_Properties
  imports Fat_Example
begin

text \<open>
  The properties of the layers below the handlers: the superblock and the directory entries
  on disk, the chains of the table, the allocator, directories and paths. Each is stated over
  the model's definitions and instantiated at a state that the program itself produces.
\<close>

section \<open>The allocator\<close>



text \<open>
  C19. Taking \<open>n\<close> clusters that the free list has returns its head; the first \<open>n\<close> clusters of
  the list become a chain of their own with zeroed contents, the list continues behind them,
  and no other data cluster changes.
\<close>

theorem pop_free_clusters_correct:
  assumes "alloc_inv s fl cls" and "0 < n" and "unat n \<le> length fl"
  shows "\<exists>t. pop_free_clusters n s = Inr (hd fl, t) \<and>
    alloc_inv t (drop (unat n) fl) (take (unat n) fl # cls) \<and>
    (\<forall>d. data_cluster s d \<longrightarrow> cluster_data t d =
       (if d \<in> set (take (unat n) fl) then get_new_cluster s else cluster_data s d))"
proof -
  note i = alloc_invD [OF assms(1)]
  have n: "0 < unat n" using assms(2) by (simp add: word_less_nat_alt)
  show ?thesis
    using pop_free_clusters_ok [OF i(1,3) assms(2,3)] alloc_inv_pop [OF assms(1) n assms(3)]
      popped_data [OF i(1,3) n assms(3)] by blast
qed

theorem pop_free_clusters_correct_witness:
  "\<exists>t. pop_free_clusters 2 new_disk = Inr (5, t) \<and>
    alloc_inv t (drop 2 all_free) [take 2 all_free, [4]]"
  using pop_free_clusters_correct [OF new_disk_facts(2), of 2] by auto

text \<open>
  Clusters that are taken and given back leave the free list as it was.
\<close>

theorem take_give_back:
  assumes "alloc_inv s fl cls" and "0 < n" and "unat n \<le> length fl"
  shows "\<exists>s1 s2. pop_free_clusters n s = Inr (hd fl, s1) \<and> free_cluster_chain (hd fl) s1 = Inr s2 \<and>
    alloc_inv s2 fl cls"
  using assms by (rule fat_alloc.take_give)

theorem take_give_back_witness:
  "\<exists>s1 s2. pop_free_clusters 3 new_disk = Inr (5, s1) \<and> free_cluster_chain 5 s1 = Inr s2 \<and>
    alloc_inv s2 all_free [[4]]"
  using take_give_back [OF new_disk_facts(2), of 3] by auto

text \<open>
  C20. A request for more clusters than there are: the function reports it and changes nothing,
  except for exactly one cluster too many, where the loop ends on the end-of-chain mark with
  the count used up and the table is read in front of its first entry.
\<close>

theorem pop_free_clusters_too_many:
  assumes "alloc_inv s fl cls" and "length fl < unat n"
  shows "pop_free_clusters n s =
    (if unat n = length fl + 1 then Inl Out_of_bounds else Inr (END_OF_CHAIN, s))"
  using pop_free_clusters_one_more [OF alloc_invD(1,3) [OF assms(1)]]
    pop_free_clusters_short [OF alloc_invD(1,3) [OF assms(1)]] assms(2) by auto

theorem pop_free_clusters_too_many_witness:
  "pop_free_clusters 2556 new_disk = Inl Out_of_bounds \<and>
   pop_free_clusters 2557 new_disk = Inr (END_OF_CHAIN, new_disk)"
  using pop_free_clusters_too_many [OF new_disk_facts(2), of 2556]
    pop_free_clusters_too_many [OF new_disk_facts(2), of 2557] by simp

section \<open>Chains\<close>



text \<open>
  On a chain the last cluster and the number of clusters are found, without wrap-around.
\<close>

theorem chain_walks:
  assumes "geometry s" and "chain s c cs" and "c \<noteq> 0"
  shows "get_last_cluster_in_chain s c = Inr (last cs) \<and>
    (\<exists>n. count_cluster_in_chain s c = Inr n \<and> unat n = length cs)"
  using get_last_cluster_ok [OF assms] count_cluster_ok [OF assms(1,2)] unat_count [OF assms(1,2)]
  by blast

theorem chain_walks_witness:
  "get_last_cluster_in_chain new_disk 4 = Inr 4 \<and>
   (\<exists>n. count_cluster_in_chain new_disk 4 = Inr n \<and> unat n = 1)"
  using chain_walks [OF new_disk_geometry(1,4)] by (simp add: One_nat_def)

section \<open>The disk format\<close>

text \<open>
  The superblock and the directory entries read back from their bytes as they were written.
\<close>

theorem disk_records_roundtrip:
  "dec_superblock (enc_superblock b @ rest) = b \<and>
   (length (de_name e) = 22 \<longrightarrow> length (enc_dir_entry e) = DIR_ENTRY_SIZE \<and>
     dec_dir_entry (enc_dir_entry e) = e)"
  by (simp add: dec_superblock_append dir_codec.enc_len dir_codec.dec_inv DIR_ENTRY_SIZE_def)

theorem disk_records_roundtrip_witness:
  "dec_dir_entry (enc_dir_entry entry_a) = entry_a"
  using disk_records_roundtrip [of default_superblock "[]" entry_a]
  by (simp add: entry_a_def)

text \<open>
  The status of a cluster read: a short count is an error, but the value -1 with which
  \<open>pread\<close> reports a failure becomes the largest unsigned number and counts as success.
\<close>

theorem failed_read_is_success:
  "cluster_read_status (-1) sz = 0 \<and>
   (n < unat sz \<longrightarrow> cluster_read_status (int n) sz = -1)"
proof -
  have "\<not> (word_of_int (-1) :: u32) < sz" by simp
  moreover have "(word_of_nat n :: u32) < sz" if "n < unat sz"
    using that less_trans [OF that unat_u32_bound [of sz]] by (simp add: word_less_nat_alt unat_of_nat)
  ultimately show ?thesis by (simp add: cluster_read_status_def)
qed

theorem failed_read_is_success_witness:
  "cluster_read_status (-1) 4096 = 0 \<and> cluster_read_status 100 4096 = -1"
  using failed_read_is_success [of 4096 100] by simp

section \<open>Directories\<close>

text \<open>
  C22. Searching a directory by name finds the first entry with that name in its slots.
\<close>

theorem lookup_searches_slots:
  assumes "geometry s" and "chain s c cs" and "c \<noteq> 0" and "0 \<notin> set nm" and "length nm < 22"
  shows "find_dir_entry_by_name s c nm = Inr (List.find (\<lambda>e. entry_name e = nm) (dir_slots s cs))"
  using find_dir_entry_ok [OF assms(1,4,5,2,3)] by (simp add: dir_lookup_def)

theorem lookup_searches_slots_witness:
  "find_dir_entry_by_name new_disk 4 dot =
   Inr (Some (new_dir_entry boot_state dot 4 DIR_ENTRY_TYPE_SUBDIR))"
  using lookup_searches_slots [OF new_disk_geometry(1,4), of dot] new_disk_facts(9)
  by (simp add: dir_lookup_def dot_def)

text \<open>
  Adding an entry to a directory: it goes to the first free slot and nothing is reported;
  if that slot crosses the end of the cluster, the entry is written past the buffer.
\<close>

theorem add_entry_first_free:
  assumes "geometry s" and "data_cluster s first" and "name_ok nm"
    and "chain s c cs" and "first_at s cs slot_free j k"
  shows "add_dir_entry_to_cluster c nm first ty s =
    (if 40 * k + 40 \<le> sb_bpc s
     then Inr (0, put_slot s (cs ! j) k (enc_dir_entry (new_dir_entry s nm first ty)))
     else Inl Out_of_bounds)"
  using assms by (rule add_entry_at)

theorem add_entry_first_free_witness:
  "add_dir_entry_to_cluster 4 name_a 4 0 new_disk =
   Inr (0, put_slot new_disk 4 2 (enc_dir_entry (new_dir_entry new_disk name_a 4 0)))"
  using add_entry_first_free [OF new_disk_geometry(1) chain_data [OF new_disk_geometry(4)]
      name_a(1) new_disk_geometry(4) new_disk_slot, of 4 0] new_disk_fits by simp

text \<open>
  Updating the entry of a name that a directory has changes that entry and no other name.
\<close>

theorem update_entry_correct:
  assumes "geometry s" and "chain s c cs" and "c \<noteq> 0" and "dir_ok s cs"
    and "dir_lookup s cs nm = Some old" and "nm \<noteq> []" and "de_name e = de_name old"
  shows "\<exists>t. update_dir_entry c e False s = Inr (0, t) \<and> dir_lookup t cs nm = Some e \<and>
    (\<forall>nm'. nm' \<noteq> nm \<longrightarrow> dir_lookup t cs nm' = dir_lookup s cs nm') \<and> dir_ok t cs"
  using update_dir_entry_ok [OF assms] by blast

theorem update_entry_correct_witness:
  "\<exists>t. update_dir_entry 4 (entry_a\<lparr>de_size := 7\<rparr>) False disk_a = Inr (0, t) \<and>
    dir_lookup t [4] name_a = Some (entry_a\<lparr>de_size := 7\<rparr>)"
proof -
  have "chain disk_a 4 [4]" using alloc_invD(5) [OF disk_a_facts(1), of "[4]"] by simp
  from update_entry_correct [OF alloc_invD(1) [OF disk_a_facts(1)] this _ disk_a_facts(2)
      disk_a_facts(4) [folded entry_a_def] name_a(3), of "entry_a\<lparr>de_size := 7\<rparr>"]
  show ?thesis by auto
qed

text \<open>
  A directory counts as empty exactly when its slots hold no names but its own and its
  parent's; listing it passes every name in order to the callback.
\<close>

theorem empty_and_listing:
  assumes "geometry s" and "chain s c cs" and "c \<noteq> 0" and "dir_ok s cs"
  shows "is_dir_empty s c = Inr (\<forall>e \<in> set (dir_slots s cs). entry_name e \<in> {[], dot, dotdot}) \<and>
    read_dir_entries s c 0 [] (\<lambda>b nm off. (0, b @ [nm])) =
      Inr (map entry_name (filter (\<lambda>e. entry_name e \<noteq> []) (dir_slots s cs)))"
  using is_dir_empty_ok [OF assms(1-3)]
  by (simp add: read_dir_entries_ok [OF assms] list_slots_names dir_empty_def)

theorem empty_and_listing_witness:
  "is_dir_empty new_disk 4 = Inr True \<and>
   read_dir_entries new_disk 4 0 [] (\<lambda>b nm off. (0, b @ [nm])) =
     Inr (map entry_name (filter (\<lambda>e. entry_name e \<noteq> []) (dir_slots new_disk [4])))"
  using empty_and_listing [OF new_disk_geometry(1,4) _ new_disk_facts(5)] new_disk_facts(7)
  by (simp only: dir_empty_def) simp

section \<open>Paths\<close>

text \<open>
  A path is split at its last slash; one without a slash is read in front of its start.
\<close>

theorem path_split:
  "(component nm \<longrightarrow> get_parent_path (p @ slash # nm) = Inr p \<and>
     get_target_name (p @ slash # nm) = Inr nm) \<and>
   (component p \<longrightarrow> get_parent_path p = Inl Out_of_bounds)"
  using get_parent_path_ok get_target_name_ok split_no_slash by blast

theorem path_split_witness:
  "get_parent_path [47, 97, 47, 98] = Inr [47, 97] \<and> get_target_name [47, 97, 47, 98] = Inr [98] \<and>
   get_parent_path [97] = Inl Out_of_bounds"
  using path_split [of "[98]" "[47, 97]"] path_split [of "[98]" "[97]"]
  by (simp add: component_def slash_def)

text \<open>
  Looking up a path whose directories resolve is the search for its last name in the
  directory they lead to.
\<close>

theorem path_lookup:
  assumes "geometry s" and "resolves s (root_cluster_start (superblock s)) nms c"
    and "chain s c cs" and "c \<noteq> 0" and "component nm" and "name_ok nm"
  shows "find_dir_entry_by_path s (path_of (nms @ [nm])) = Inr (dir_lookup s cs nm)"
  using find_by_path_ok [OF assms(1-5)] assms(6) name_ok_lookup by (simp add: name_ok_def)

theorem path_lookup_witness:
  "find_dir_entry_by_path disk_d (path_of [name_a, dot]) = Inr (dir_lookup disk_d [5] dot)"
proof -
  let ?e = "new_dir_entry new_disk name_a 5 DIR_ENTRY_TYPE_SUBDIR"
  note i = alloc_invD [OF disk_d_facts(1)]
  have "chain disk_d 4 [4]" "chain disk_d 5 [5]" using i(5) [of "[4]"] i(5) [of "[5]"] by simp_all
  moreover have "resolves disk_d 4 [name_a] 5"
    using resolves.down [of disk_d 4 "[4]" name_a ?e "[]" 5] calculation(1) disk_d_facts(4)
    by (simp add: new_dir_entry_def resolves_root)
  ultimately show ?thesis
    using path_lookup [OF i(1), of "[name_a]" 5 "[5]" dot] disk_d_facts(10) by simp
qed

end
