(* ===== verification/Fat_Spec.thy ===== *)
theory Fat_Spec
  imports Fat_Ops
begin

text \<open>
  What the file system promises, without clusters, tables and entries: a tree of folders and
  files as a partial map from paths to objects, and the relation \<open>fs_spec\<close> between a tree, an
  operation, its return value and the tree after it. \<open>fat_exec\<close> runs the handler of
  \<open>src/FAT/fat.c\<close> for an operation. The theories \<open>Fat_Tree\<close> and \<open>Fat_Refine\<close> show that the
  handlers implement the specification.
\<close>

section \<open>Trees\<close>

type_synonym fs_path = "cstring list"

datatype obj = Folder | Plain "byte list"

type_synonym tree = "fs_path \<Rightarrow> obj option"

definition children :: "tree \<Rightarrow> fs_path \<Rightarrow> cstring set" where
  "children T d = {nm. T (d @ [nm]) \<noteq> None}"

text \<open>Only folders have children, and there is a root.\<close>

definition tree_wf :: "tree \<Rightarrow> bool" where
  "tree_wf T \<longleftrightarrow> T [] = Some Folder \<and> (\<forall>d nm. T (d @ [nm]) \<noteq> None \<longrightarrow> T d = Some Folder)"

text \<open>The names that an entry can hold and that lead to no other place.\<close>

definition plain_name :: "cstring \<Rightarrow> bool" where
  "plain_name nm \<longleftrightarrow> name_ok nm \<and> component nm \<and> nm \<noteq> dot \<and> nm \<noteq> dotdot"

lemma plain_nameD:
  assumes "plain_name nm"
  shows "name_ok nm" and "component nm" and "nm \<noteq> dot" and "nm \<noteq> dotdot" and "nm \<noteq> []"
    and "0 \<notin> set nm" and "length nm < 22"
  using assms name_ok_lookup [of nm] by (auto simp: plain_name_def name_ok_def)

section \<open>Operations\<close>

datatype fs_op =
    Mkdir fs_path
  | Mknod fs_path u32
  | Create fs_path u32
  | Write fs_path "byte list" nat
  | Truncate fs_path nat
  | Unlink fs_path
  | Rmdir fs_path

fun fat_exec :: "fs_op \<Rightarrow> fs \<Rightarrow> (int \<times> fs) res" where
  "fat_exec (Mkdir p) s = fat_mkdir (path_of p) s"
| "fat_exec (Mknod p mode) s = fat_mknod (path_of p) mode s"
| "fat_exec (Create p mode) s = fat_create (path_of p) mode s"
| "fat_exec (Write p data offset) s = fat_write (path_of p) data (of_nat (length data)) (of_nat offset) s"
| "fat_exec (Truncate p n) s = fat_truncate (path_of p) (of_nat n) s"
| "fat_exec (Unlink p) s = fat_unlink (path_of p) s"
| "fat_exec (Rmdir p) s = fat_rmdir (path_of p) s"

text \<open>
  A write puts the data at the offset; when it starts behind the end of the file, the bytes in
  between are not specified. Truncation to a larger size fills with zeros.
\<close>

inductive fs_spec :: "tree \<Rightarrow> fs_op \<Rightarrow> int \<Rightarrow> tree \<Rightarrow> bool" where
  mkdir: "T d = Some Folder \<Longrightarrow> T (d @ [nm]) = None \<Longrightarrow>
    fs_spec T (Mkdir (d @ [nm])) 0 (T(d @ [nm] \<mapsto> Folder))"
| mkdir_full: "fs_spec T (Mkdir p) (- ENOMEM) T"
| mknod: "T d = Some Folder \<Longrightarrow> T (d @ [nm]) = None \<Longrightarrow> S_ISREG mode \<Longrightarrow>
    fs_spec T (Mknod (d @ [nm]) mode) 0 (T(d @ [nm] \<mapsto> Plain []))"
| mknod_other: "\<not> S_ISREG mode \<Longrightarrow> fs_spec T (Mknod p mode) (- EACCES) T"
| mknod_full: "S_ISREG mode \<Longrightarrow> fs_spec T (Mknod p mode) (- ENOMEM) T"
| create: "T d = Some Folder \<Longrightarrow> T (d @ [nm]) = None \<Longrightarrow>
    fs_spec T (Create (d @ [nm]) mode) 0 (T(d @ [nm] \<mapsto> Plain []))"
| write_data: "T p = Some (Plain bs) \<Longrightarrow> length gap = offset - length bs \<Longrightarrow>
    fs_spec T (Write p data offset) (int (length data)) (T(p \<mapsto> Plain (splice (bs @ gap) offset data)))"
| write_full: "T p = Some (Plain bs) \<Longrightarrow> fs_spec T (Write p data offset) (- ENOMEM) T"
| truncate: "T p = Some (Plain bs) \<Longrightarrow>
    fs_spec T (Truncate p n) 0 (T(p \<mapsto> Plain (take n bs @ replicate (n - length bs) 0)))"
| truncate_full: "T p = Some (Plain bs) \<Longrightarrow> length bs < n \<Longrightarrow> fs_spec T (Truncate p n) (-1) T"
| unlink: "T p = Some (Plain bs) \<Longrightarrow> fs_spec T (Unlink p) 0 (T(p := None))"
| unlink_folder: "T p = Some Folder \<Longrightarrow> fs_spec T (Unlink p) (-1) T"
| rmdir: "T p = Some Folder \<Longrightarrow> p \<noteq> [] \<Longrightarrow> children T p = {} \<Longrightarrow>
    fs_spec T (Rmdir p) 0 (T(p := None))"
| rmdir_full: "T p = Some Folder \<Longrightarrow> children T p \<noteq> {} \<Longrightarrow> fs_spec T (Rmdir p) (- ENOTEMPTY) T"

inductive_cases fs_spec_MkdirE: "fs_spec T (Mkdir p) r T'"
inductive_cases fs_spec_WriteE: "fs_spec T (Write p data offset) r T'"

lemma tree_wf_update:
  assumes "tree_wf T" and "T p = Some Folder \<longrightarrow> p \<noteq> [] \<and> children T p = {}"
    and "x \<noteq> None \<longrightarrow> T p = None \<longrightarrow> p \<noteq> [] \<and> T (butlast p) = Some Folder"
  shows "tree_wf (T(p := x))"
proof -
  have leaf: "T (p @ [nm]) = None" for nm
    using assms(1,2) by (cases "T (p @ [nm])") (auto simp: tree_wf_def children_def)
  have root: "p \<noteq> []" using assms(1,2) by (auto simp: tree_wf_def)
  have kid: "T d = Some Folder \<and> d \<noteq> p" if "(T(p := x)) (d @ [nm]) \<noteq> None" for d nm
  proof (cases "d @ [nm] = p")
    case True
    then have "T d = Some Folder"
      using that assms(1,3) by (cases "T p") (auto simp: tree_wf_def)
    then show ?thesis using True by auto
  next
    case False
    then show ?thesis using that assms(1) leaf [of nm] by (auto simp: tree_wf_def split: if_splits)
  qed
  show ?thesis
    unfolding tree_wf_def
  proof (intro conjI allI impI)
    show "(T(p := x)) [] = Some Folder" using assms(1) root by (simp add: tree_wf_def)
    show "(T(p := x)) d = Some Folder" if "(T(p := x)) (d @ [nm]) \<noteq> None" for d nm
      using kid [OF that] by simp
  qed
qed

lemma fs_spec_wf: "fs_spec T opr r T' \<Longrightarrow> tree_wf T \<Longrightarrow> tree_wf T'"
  by (induction rule: fs_spec.induct) (auto intro!: tree_wf_update)

end
