(* ===== verification/Fat_Tree.thy ===== *)
theory Fat_Tree
  imports Fat_Ops_Correct Fat_Spec
begin

text \<open>
  The invariant of the whole file system and the tree it represents. A layout says for every
  path which clusters its object has; \<open>tree_inv s fl L\<close> says that the disk is laid out that way:
  chains and free list share no cluster and together have all of them, the slots of every
  directory are the entries of its children, its own and its parent's. \<open>tree_update\<close> is the
  lemma behind all handlers that change one object.
\<close>

section \<open>Layouts\<close>

text \<open>
  A directory has one cluster: with the cluster size of this file system the last slot crosses
  the end of the cluster, so that a directory never gets a second one.
\<close>

datatype node = Dir_node u32 | File_node "u32 list" nat

type_synonym layout = "fs_path \<Rightarrow> node option"

fun node_chain :: "node \<Rightarrow> u32 list" where
  "node_chain (Dir_node c) = [c]"
| "node_chain (File_node cs n) = cs"

definition chain_of :: "layout \<Rightarrow> fs_path \<Rightarrow> u32 list" where
  "chain_of L p = (case L p of None \<Rightarrow> [] | Some n \<Rightarrow> node_chain n)"

fun entry_for :: "fat_dir_entry \<Rightarrow> node \<Rightarrow> bool" where
  "entry_for e (Dir_node c) \<longleftrightarrow> de_type e = DIR_ENTRY_TYPE_SUBDIR \<and> de_first_cluster e = c"
| "entry_for e (File_node cs n) \<longleftrightarrow>
     de_type e = DIR_ENTRY_TYPE_FILE \<and> de_first_cluster e = hd cs \<and> unat (de_size e) = n"

fun obj_of :: "fs \<Rightarrow> node \<Rightarrow> obj" where
  "obj_of s (Dir_node c) = Folder"
| "obj_of s (File_node cs n) = Plain (take n (file_bytes s cs))"

definition tree_of :: "fs \<Rightarrow> layout \<Rightarrow> tree" where
  "tree_of s L p = map_option (obj_of s) (L p)"

definition special :: "cstring \<Rightarrow> bool" where
  "special nm \<longleftrightarrow> nm = [] \<or> nm = dot \<or> nm = dotdot"

text \<open>What an entry lookup finds: the entry of the child, or nothing.\<close>

definition entry_matches :: "fat_dir_entry option \<Rightarrow> node option \<Rightarrow> bool" where
  "entry_matches found x \<longleftrightarrow>
     (case x of None \<Rightarrow> found = None | Some n \<Rightarrow> \<exists>e. found = Some e \<and> entry_for e n)"

definition dir_holds :: "fs \<Rightarrow> layout \<Rightarrow> fs_path \<Rightarrow> u32 \<Rightarrow> bool" where
  "dir_holds s L p c \<longleftrightarrow>
     dir_ok s [c] \<and> unique_names s [c] \<and>
     entry_matches (dir_lookup s [c] dot) (Some (Dir_node c)) \<and>
     entry_matches (dir_lookup s [c] dotdot) (L (butlast p)) \<and>
     (\<forall>nm. \<not> special nm \<longrightarrow> entry_matches (dir_lookup s [c] nm) (L (p @ [nm])))"

text \<open>Every object owns its chain.\<close>

definition layout_alloc :: "fs \<Rightarrow> u32 list \<Rightarrow> layout \<Rightarrow> bool" where
  "layout_alloc s fl L \<longleftrightarrow>
     (\<exists>ps. distinct ps \<and> set ps = dom L \<and> alloc_inv s fl (map (chain_of L) ps))"

definition layout_covers :: "fs \<Rightarrow> u32 list \<Rightarrow> layout \<Rightarrow> bool" where
  "layout_covers s fl L \<longleftrightarrow> (\<forall>c. data_cluster s c \<longrightarrow> c \<in> set fl \<or> (\<exists>p. c \<in> set (chain_of L p)))"

definition tree_inv :: "fs \<Rightarrow> u32 list \<Rightarrow> layout \<Rightarrow> bool" where
  "tree_inv s fl L \<longleftrightarrow>
     layout_alloc s fl L \<and> layout_covers s fl L \<and>
     L [] = Some (Dir_node (root_cluster_start (superblock s))) \<and>
     (\<forall>p nm. L (p @ [nm]) \<noteq> None \<longrightarrow> plain_name nm \<and> (\<exists>c. L p = Some (Dir_node c))) \<and>
     (\<forall>p c. L p = Some (Dir_node c) \<longrightarrow> dir_holds s L p c) \<and>
     (\<forall>p cs n. L p = Some (File_node cs n) \<longrightarrow> n \<le> length cs * sb_bpc s)"

text \<open>The state \<open>s\<close> represents the tree \<open>T\<close>.\<close>

definition represents :: "fs \<Rightarrow> tree \<Rightarrow> bool" where
  "represents s T \<longleftrightarrow> (\<exists>fl L. tree_inv s fl L \<and> T = tree_of s L)"

section \<open>First consequences\<close>

lemma plain_not_special: "plain_name nm \<Longrightarrow> \<not> special nm"
  by (auto simp: special_def dest: plain_nameD)

lemma chain_of_simps [simp]:
  "L p = Some n \<Longrightarrow> chain_of L p = node_chain n" "L p = None \<Longrightarrow> chain_of L p = []"
  "chain_of (L(p := x)) q = (if q = p then case x of None \<Rightarrow> [] | Some n \<Rightarrow> node_chain n else chain_of L q)"
  by (simp_all add: chain_of_def)

lemma map_chain_of_upd: "p \<notin> set qs \<Longrightarrow> map (chain_of (L(p := x))) qs = map (chain_of L) qs"
  by (induction qs) auto

lemma tree_invD:
  assumes "tree_inv s fl L"
  shows "layout_alloc s fl L" and "layout_covers s fl L"
    and "L [] = Some (Dir_node (root_cluster_start (superblock s)))"
    and "L (p @ [nm]) = Some n \<Longrightarrow> plain_name nm" and "L (p @ [nm]) = Some n \<Longrightarrow> \<exists>c. L p = Some (Dir_node c)"
    and "L p = Some (Dir_node c) \<Longrightarrow> dir_holds s L p c"
    and "L p = Some (File_node cs k) \<Longrightarrow> k \<le> length cs * sb_bpc s"
  using assms unfolding tree_inv_def by blast+

lemma dir_holdsD:
  assumes "dir_holds s L p c"
  shows "dir_ok s [c]" and "unique_names s [c]"
    and "entry_matches (dir_lookup s [c] dot) (Some (Dir_node c))"
    and "entry_matches (dir_lookup s [c] dotdot) (L (butlast p))"
    and "\<not> special nm \<Longrightarrow> entry_matches (dir_lookup s [c] nm) (L (p @ [nm]))"
  using assms unfolding dir_holds_def by blast+

lemma entry_matches_simps [simp]:
  "entry_matches found None \<longleftrightarrow> found = None"
  "entry_matches None (Some n) \<longleftrightarrow> False"
  "entry_matches (Some e) x \<longleftrightarrow> (\<exists>n. x = Some n \<and> entry_for e n)"
  by (auto simp: entry_matches_def split: option.splits)

lemma entry_matchesE:
  assumes "entry_matches found (Some n)"
  obtains e where "found = Some e" "entry_for e n"
  using assms by (auto simp: entry_matches_def)

text \<open>Taking the chain of an object, or of two, out of the allocation.\<close>

lemma layout_pick:
  assumes "layout_alloc s fl L" and "L p = Some n"
  obtains qs where "distinct qs" "p \<notin> set qs" "set qs = dom L - {p}"
    "alloc_inv s fl (node_chain n # map (chain_of L) qs)"
proof -
  obtain ps where ps: "distinct ps" "set ps = dom L" "alloc_inv s fl (map (chain_of L) ps)"
    using assms(1) by (auto simp: layout_alloc_def)
  have "p \<in> set ps" using ps(2) assms(2) by auto
  then obtain xs ys where xs: "ps = xs @ p # ys" by (auto simp: in_set_conv_decomp)
  have "alloc_inv s fl (node_chain n # map (chain_of L) (xs @ ys))"
    by (rule alloc_inv_perm [OF ps(3)]) (simp add: xs assms(2))
  then show ?thesis using that [of "xs @ ys"] ps(1,2) xs by auto
qed

lemma layout_pick2:
  assumes "layout_alloc s fl L" and "L p = Some m" and "L d = Some n" and "p \<noteq> d"
  obtains qs where "distinct qs" "p \<notin> set qs" "d \<notin> set qs" "set qs = dom L - {p, d}"
    "alloc_inv s fl (node_chain m # node_chain n # map (chain_of L) qs)"
proof -
  obtain qs where qs: "distinct qs" "p \<notin> set qs" "set qs = dom L - {p}"
      "alloc_inv s fl (node_chain m # map (chain_of L) qs)"
    using layout_pick [OF assms(1,2)] .
  have "d \<in> set qs" using qs(3) assms(3,4) by auto
  then obtain xs ys where xs: "qs = xs @ d # ys" by (auto simp: in_set_conv_decomp)
  have "alloc_inv s fl (node_chain m # node_chain n # map (chain_of L) (xs @ ys))"
    by (rule alloc_inv_perm [OF qs(4)]) (simp add: xs assms(3))
  then show ?thesis using that [of "xs @ ys"] qs(1-3) xs by auto
qed

text \<open>And putting what an operation made of it back.\<close>

lemma layout_put:
  assumes "distinct qs" and "p \<notin> set qs" and "d \<notin> set qs" and "p \<noteq> d"
    and "set qs = dom L - {p, d}" and "L d = Some n"
    and "alloc_inv t fl (case x of None \<Rightarrow> node_chain n # map (chain_of L) qs
      | Some m \<Rightarrow> node_chain m # node_chain n # map (chain_of L) qs)"
  shows "layout_alloc t fl (L(p := x))"
proof (cases x)
  case None
  have "alloc_inv t fl (map (chain_of (L(p := x))) (d # qs))"
    using assms(2,4,6,7) None by (simp add: map_chain_of_upd)
  moreover have "distinct (d # qs)" "set (d # qs) = dom (L(p := x))"
    using assms(1,3-6) None by auto
  ultimately show ?thesis unfolding layout_alloc_def by blast
next
  case (Some m)
  have "alloc_inv t fl (map (chain_of (L(p := x))) (p # d # qs))"
    using assms(2,4,6,7) Some by (simp add: map_chain_of_upd)
  moreover have "distinct (p # d # qs)" "set (p # d # qs) = dom (L(p := x))"
    using assms(1-6) Some by auto
  ultimately show ?thesis unfolding layout_alloc_def by blast
qed

lemma layout_chain:
  assumes "layout_alloc s fl L" and "L p = Some n"
  shows "geometry s" and "synced s" and "free_list s fl" and "node_chain n \<noteq> []"
    and "chain s (hd (node_chain n)) (node_chain n)" and "set (node_chain n) \<inter> set fl = {}"
proof -
  obtain qs where "alloc_inv s fl (node_chain n # map (chain_of L) qs)"
    using layout_pick [OF assms] .
  from alloc_invD [OF this] show "geometry s" "synced s" "free_list s fl" "node_chain n \<noteq> []"
    "chain s (hd (node_chain n)) (node_chain n)" "set (node_chain n) \<inter> set fl = {}"
    by auto
qed

lemma layout_disjoint:
  assumes "layout_alloc s fl L" and "L p = Some m" and "L d = Some n" and "p \<noteq> d"
  shows "set (node_chain m) \<inter> set (node_chain n) = {}"
proof -
  obtain qs where "alloc_inv s fl (node_chain m # node_chain n # map (chain_of L) qs)"
    using layout_pick2 [OF assms] .
  then show ?thesis by (auto dest: alloc_inv_disjoint(1) [of s fl _ _ "node_chain n"])
qed

section \<open>Directories and paths of a layout\<close>

lemma layout_dir:
  assumes "tree_inv s fl L" and "L p = Some (Dir_node c)"
  shows "geometry s" and "chain s c [c]" and "c \<noteq> 0" and "data_cluster s c" and "c \<notin> set fl"
    and "dir_ok s [c]" and "unique_names s [c]"
proof -
  note lc = layout_chain [OF tree_invD(1) [OF assms(1)] assms(2)]
  show "geometry s" by (rule lc(1))
  show c: "chain s c [c]" using lc(5) by simp
  then show "data_cluster s c" by (simp add: chain_Cons)
  then show "c \<noteq> 0" by (rule data_cluster_not_0)
  show "c \<notin> set fl" using lc(6) by simp
  show "dir_ok s [c]" "unique_names s [c]" using dir_holdsD(1,2) [OF tree_invD(6) [OF assms]] .
qed

lemma layout_lookup:
  assumes "tree_inv s fl L" and "L p = Some (Dir_node c)" and "plain_name nm"
  shows "entry_matches (dir_lookup s [c] nm) (L (p @ [nm]))"
    and "find_dir_entry_by_name s c nm = Inr (dir_lookup s [c] nm)"
proof -
  show "entry_matches (dir_lookup s [c] nm) (L (p @ [nm]))"
    using dir_holdsD(5) [OF tree_invD(6) [OF assms(1,2)] plain_not_special [OF assms(3)]] .
  show "find_dir_entry_by_name s c nm = Inr (dir_lookup s [c] nm)"
    using layout_dir(1-3) [OF assms(1,2)] plain_nameD(6,7) [OF assms(3)]
    by (intro find_dir_entry_ok) auto
qed

lemma resolves_snoc:
  assumes "resolves s a xs b" and "chain s b cs" and "b \<noteq> 0" and "name_ok nm" and "component nm"
    and "dir_lookup s cs nm = Some e" and "de_type e = DIR_ENTRY_TYPE_SUBDIR" and "de_first_cluster e = d"
  shows "resolves s a (xs @ [nm]) d"
  using assms
proof (induction rule: resolves.induct)
  case (here s c)
  then show ?case using resolves.down [OF here(1-6)] resolves.here by auto
next
  case (down s c cs' nm' e' nms d')
  then show ?case by (auto intro: resolves.down)
qed

lemma layout_resolves:
  assumes "tree_inv s fl L"
  shows "L p = Some (Dir_node c) \<Longrightarrow> resolves s (root_cluster_start (superblock s)) p c"
proof (induction p arbitrary: c rule: rev_induct)
  case Nil
  then show ?case using tree_invD(3) [OF assms] by (simp add: resolves.here)
next
  case (snoc nm p)
  note nm = tree_invD(4) [OF assms snoc.prems]
  obtain b where b: "L p = Some (Dir_node b)" using tree_invD(5) [OF assms snoc.prems] by blast
  obtain e where e: "dir_lookup s [b] nm = Some e" "entry_for e (Dir_node c)"
    using layout_lookup(1) [OF assms b nm] snoc.prems by (auto elim: entry_matchesE)
  then show ?case
    using resolves_snoc [OF snoc.IH [OF b] layout_dir(2,3) [OF assms b] plain_nameD(1,2) [OF nm]] by simp
qed

lemma layout_no_parent:
  assumes "tree_inv s fl L" and "\<nexists>c. L p = Some (Dir_node c)"
  shows "L (p @ q) = None \<or> q = []"
proof (induction q rule: rev_induct)
  case (snoc nm q)
  have "\<nexists>c. L (p @ q) = Some (Dir_node c)" using snoc assms(2) by auto
  then have "L ((p @ q) @ [nm]) = None" using tree_invD(5) [OF assms(1), of "p @ q" nm] by fastforce
  then show ?case by simp
qed simp

text \<open>Walking down a path reaches the folder at it, and fails if there is none.\<close>

lemma layout_walk:
  assumes "tree_inv s fl L"
  shows "L p = Some (Dir_node c) \<Longrightarrow> \<forall>nm \<in> set q. plain_name nm \<Longrightarrow>
    path_loop s (snd (strsep (Some (path_of q)))) c =
      Inr (case L (p @ q) of Some (Dir_node d) \<Rightarrow> Some d | _ \<Rightarrow> None)"
proof (induction q arbitrary: p c)
  case Nil
  then show ?case by (simp add: path_loop.simps)
next
  case (Cons nm q)
  have nm: "plain_name nm" using Cons.prems(2) by simp
  have sep: "strsep (snd (strsep (Some (path_of (nm # q))))) = (Some nm, snd (strsep (Some (path_of q))))"
    using strsep_component [OF plain_nameD(2) [OF nm], of q] by simp
  note look = layout_lookup [OF assms Cons.prems(1) nm]
  show ?case
  proof (cases "\<exists>d. L (p @ [nm]) = Some (Dir_node d)")
    case True
    then obtain d where d: "L (p @ [nm]) = Some (Dir_node d)" by blast
    then obtain e where e: "dir_lookup s [c] nm = Some e" "entry_for e (Dir_node d)"
      using look(1) by (auto elim: entry_matchesE)
    show ?thesis
      using sep look(2) e Cons.IH [OF d] Cons.prems(2) by (subst path_loop.simps) simp
  next
    case False
    then have "L (p @ nm # q) = None \<or> q = []"
      using layout_no_parent [OF assms, of "p @ [nm]" q] by simp
    then have none: "(case L (p @ nm # q) of Some (Dir_node d) \<Rightarrow> Some d | _ \<Rightarrow> None) = None"
      using False by (auto split: option.split node.split)
    have "dir_lookup s [c] nm = None \<or>
        (\<exists>e. dir_lookup s [c] nm = Some e \<and> de_type e \<noteq> DIR_ENTRY_TYPE_SUBDIR)"
    proof (cases "L (p @ [nm])")
      case (Some n)
      then obtain cs k where "n = File_node cs k" using False by (cases n) auto
      then show ?thesis
        using look(1) Some by (auto simp: DIR_ENTRY_TYPE_FILE_def DIR_ENTRY_TYPE_SUBDIR_def elim: entry_matchesE)
    qed (use look(1) in simp)
    then show ?thesis
      unfolding none using sep look(2) by (subst path_loop.simps) auto
  qed
qed

lemma layout_find:
  assumes "tree_inv s fl L" and "\<forall>nm \<in> set (p @ [nm]). plain_name nm"
  shows "\<exists>found. find_dir_entry_by_path s (path_of (p @ [nm])) = Inr found \<and>
    entry_matches found (L (p @ [nm]))"
proof -
  have nm: "plain_name nm" using assms(2) by simp
  have "\<not> strcmp_sign (path_of (p @ [nm])) [slash] \<le> 0"
    using path_not_root [OF plain_nameD(5) [OF nm], of p] by simp
  moreover have "path_loop s (snd (strsep (Some (path_of p)))) (root_cluster_start (superblock s)) =
      Inr (case L p of Some (Dir_node d) \<Rightarrow> Some d | _ \<Rightarrow> None)"
    using layout_walk [OF assms(1) tree_invD(3) [OF assms(1)], of p] assms(2) by simp
  ultimately have f: "find_dir_entry_by_path s (path_of (p @ [nm])) =
      (case (case L p of Some (Dir_node d) \<Rightarrow> Some d | _ \<Rightarrow> None) of None \<Rightarrow> Inr None
       | Some c \<Rightarrow> find_dir_entry_by_name s c nm)"
    unfolding find_dir_entry_by_path_def path_of_snoc
    by (simp add: get_parent_path_ok [OF plain_nameD(2) [OF nm]] get_target_name_ok [OF plain_nameD(2) [OF nm]]
        del: strsep.simps)
  show ?thesis
  proof (cases "\<exists>c. L p = Some (Dir_node c)")
    case True
    then obtain c where c: "L p = Some (Dir_node c)" by blast
    then show ?thesis using f layout_lookup [OF assms(1) c nm] by simp
  next
    case False
    then have "L (p @ [nm]) = None" using layout_no_parent [OF assms(1), of p "[nm]"] by simp
    moreover have "(case L p of Some (Dir_node d) \<Rightarrow> Some d | _ \<Rightarrow> None) = None"
      using False by (auto split: option.split node.split)
    ultimately show ?thesis using f by simp
  qed
qed

section \<open>The tree is determined by the state\<close>

lemma layout_root_free: "tree_inv s fl L \<Longrightarrow> root_cluster_start (superblock s) \<notin> set fl"
  using layout_dir(5) tree_invD(3) by blast

lemma entry_node_unique:
  assumes "entry_for e m" and "entry_for e n"
    and "chain s (hd (node_chain m)) (node_chain m)" and "chain s (hd (node_chain n)) (node_chain n)"
  shows "m = n"
  using assms chain_unique [of s "hd (node_chain m)" "node_chain m" "node_chain n"]
  by (cases m; cases n) (auto simp: DIR_ENTRY_TYPE_FILE_def DIR_ENTRY_TYPE_SUBDIR_def)

lemma layout_unique:
  assumes "tree_inv s fl L" and "tree_inv s fl' L'"
  shows "L = L'"
proof -
  have "L p = L' p" for p
  proof (induction p rule: rev_induct)
    case Nil
    then show ?case using assms tree_invD(3) by metis
  next
    case (snoc nm p)
    show ?case
    proof (cases "L (p @ [nm]) = None \<and> L' (p @ [nm]) = None")
      case False
      then have nm: "plain_name nm" and "\<exists>c. L p = Some (Dir_node c)"
        using snoc tree_invD(4,5) [OF assms(1), of p nm] tree_invD(4,5) [OF assms(2), of p nm] by auto
      then obtain c where c: "L p = Some (Dir_node c)" "L' p = Some (Dir_node c)" using snoc by auto
      have look: "entry_matches (dir_lookup s [c] nm) (L (p @ [nm]))"
          "entry_matches (dir_lookup s [c] nm) (L' (p @ [nm]))"
        using layout_lookup(1) [OF assms(1) c(1) nm] layout_lookup(1) [OF assms(2) c(2) nm] .
      then obtain e m n where e: "L (p @ [nm]) = Some m" "L' (p @ [nm]) = Some n" "entry_for e m" "entry_for e n"
        using False by (cases "dir_lookup s [c] nm") (auto simp: entry_matches_def split: option.splits)
      have "m = n"
        using e(3,4) layout_chain(5) [OF tree_invD(1) [OF assms(1)] e(1)]
          layout_chain(5) [OF tree_invD(1) [OF assms(2)] e(2)] by (rule entry_node_unique)
      then show ?thesis using e by simp
    qed simp
  qed
  then show ?thesis by (rule ext)
qed

lemma free_unique:
  assumes "tree_inv s fl L" and "tree_inv s fl' L'"
  shows "fl = fl'"
  using layout_chain(3) [OF tree_invD(1,3) [OF assms(1)]] layout_chain(3) [OF tree_invD(1,3) [OF assms(2)]]
  by (rule free_list_unique)

lemma represents_unique: "represents s T \<Longrightarrow> represents s T' \<Longrightarrow> T = T'"
  unfolding represents_def using layout_unique by blast

lemma represents_tree: "tree_inv s fl L \<Longrightarrow> represents s T \<longleftrightarrow> T = tree_of s L"
  using represents_unique unfolding represents_def by blast

lemma tree_of_simps [simp]:
  "L p = None \<Longrightarrow> tree_of s L p = None" "L p = Some n \<Longrightarrow> tree_of s L p = Some (obj_of s n)"
  "tree_of s L p = None \<longleftrightarrow> L p = None"
  by (simp_all add: tree_of_def)

lemma tree_of_Folder: "tree_of s L p = Some Folder \<longleftrightarrow> (\<exists>c. L p = Some (Dir_node c))"
  by (cases "L p"; cases "the (L p)") (auto simp: tree_of_def)

lemma tree_of_Plain: "tree_of s L p = Some (Plain bs) \<longleftrightarrow>
    (\<exists>cs n. L p = Some (File_node cs n) \<and> bs = take n (file_bytes s cs))"
  by (cases "L p"; cases "the (L p)") (auto simp: tree_of_def)

lemma children_tree: "children (tree_of s L) p = {nm. L (p @ [nm]) \<noteq> None}"
  by (simp add: children_def)

lemma represents_wf: "represents s T \<Longrightarrow> tree_wf T"
  by (auto simp: represents_def tree_wf_def tree_of_Folder dest: tree_invD(3))
    (metis not_None_eq tree_invD(5) tree_of_simps(3))

section \<open>Changing one object\<close>

lemma dir_holds_frame:
  assumes "dir_holds s L p c" and "cluster_data t c = cluster_data s c" and "same_layout s t"
    and "L' (butlast p) = L (butlast p)" and "\<And>nm. L' (p @ [nm]) = L (p @ [nm])"
  shows "dir_holds t L' p c"
proof -
  note lay = same_layoutD [OF assms(3)]
  have "dir_slots t [c] = dir_slots s [c]" "dir_ok t [c] = dir_ok s [c]"
    by (rule dir_slots_frame dir_ok_frame; use assms(2) lay in simp)+
  then show ?thesis
    using assms(1,4,5) lookup_cong [of t "[c]" s] by (simp add: dir_holds_def unique_names_def)
qed

text \<open>
  \<open>changes_at s fl L p x t fl'\<close>: what an operation on the object at \<open>p\<close> does to the disk when
  it replaces the object by \<open>x\<close>. Only clusters of the parent, of the object and free ones
  change, no cluster is lost, and the parent's entry for the name is the new one.
\<close>

definition changes_at ::
  "fs \<Rightarrow> u32 list \<Rightarrow> layout \<Rightarrow> fs_path \<Rightarrow> node option \<Rightarrow> fs \<Rightarrow> u32 list \<Rightarrow> bool" where
  "changes_at s fl L p x t fl' \<longleftrightarrow>
     (\<exists>d nm c. p = d @ [nm] \<and> L d = Some (Dir_node c) \<and> plain_name nm \<and>
       layout_alloc t fl' (L(p := x)) \<and> same_layout s t \<and>
       set fl \<union> set (chain_of L p) \<subseteq> set fl' \<union> set (chain_of (L(p := x)) p) \<and>
       (\<forall>b. data_cluster s b \<longrightarrow> b \<noteq> c \<longrightarrow> b \<notin> set (chain_of L p) \<longrightarrow> b \<notin> set fl \<longrightarrow>
         cluster_data t b = cluster_data s b) \<and>
       dir_ok t [c] \<and> unique_names t [c] \<and> entry_matches (dir_lookup t [c] nm) x \<and>
       (\<forall>nm'. nm' \<noteq> nm \<longrightarrow> nm' \<noteq> [] \<longrightarrow> dir_lookup t [c] nm' = dir_lookup s [c] nm'))"

lemma data_cluster_layout: "same_layout s t \<Longrightarrow> data_cluster t = data_cluster s"
  by (simp add: data_cluster_def [abs_def] same_layoutD)

lemma changes_atE:
  assumes "changes_at s fl L p x t fl'"
  obtains d nm c where "p = d @ [nm]" and "L d = Some (Dir_node c)" and "plain_name nm"
    and "layout_alloc t fl' (L(p := x))" and "same_layout s t"
    and "set fl \<union> set (chain_of L p) \<subseteq> set fl' \<union> set (chain_of (L(p := x)) p)"
    and "\<And>b. data_cluster s b \<Longrightarrow> b \<noteq> c \<Longrightarrow> b \<notin> set (chain_of L p) \<Longrightarrow> b \<notin> set fl \<Longrightarrow>
      cluster_data t b = cluster_data s b"
    and "dir_ok t [c]" and "unique_names t [c]" and "entry_matches (dir_lookup t [c] nm) x"
    and "\<And>nm'. nm' \<noteq> nm \<Longrightarrow> nm' \<noteq> [] \<Longrightarrow> dir_lookup t [c] nm' = dir_lookup s [c] nm'"
  using assms unfolding changes_at_def by blast

text \<open>The clusters of all other objects are as before.\<close>

lemma update_others_same:
  assumes inv: "tree_inv s fl L" and ch: "changes_at s fl L (d @ [nm]) x t fl'"
    and n: "L q = Some n" "q \<noteq> d @ [nm]" "q \<noteq> d" "b \<in> set (node_chain n)"
  shows "cluster_data t b = cluster_data s b"
proof -
  obtain c where d: "L d = Some (Dir_node c)"
    and fr: "\<And>b. data_cluster s b \<Longrightarrow> b \<noteq> c \<Longrightarrow> b \<notin> set (chain_of L (d @ [nm])) \<Longrightarrow> b \<notin> set fl \<Longrightarrow>
      cluster_data t b = cluster_data s b"
    using ch by (rule changes_atE) auto
  note al = tree_invD(1) [OF inv]
  show ?thesis
  proof (rule fr)
    show "data_cluster s b" using chain_data [OF layout_chain(5) [OF al n(1)] n(4)] .
    show "b \<noteq> c" using layout_disjoint [OF al n(1) d n(3)] n(4) by auto
    show "b \<notin> set fl" using layout_chain(6) [OF al n(1)] n(4) by auto
    show "b \<notin> set (chain_of L (d @ [nm]))"
      using layout_disjoint [OF al n(1) _ n(2)] n(4) by (cases "L (d @ [nm])") auto
  qed
qed

lemma update_parent_holds:
  assumes inv: "tree_inv s fl L" and ch: "changes_at s fl L (d @ [nm]) x t fl'"
    and c: "L d = Some (Dir_node c)"
  shows "dir_holds t (L(d @ [nm] := x)) d c"
proof -
  have nm: "plain_name nm" and ps: "dir_ok t [c]" "unique_names t [c]"
    "entry_matches (dir_lookup t [c] nm) x"
    and other: "\<And>nm'. nm' \<noteq> nm \<Longrightarrow> nm' \<noteq> [] \<Longrightarrow> dir_lookup t [c] nm' = dir_lookup s [c] nm'"
    using ch c by (auto elim!: changes_atE)
  note h = dir_holdsD [OF tree_invD(6) [OF inv c]]
  have "length (butlast d) < length (d @ [nm])" by simp
  then have b: "butlast d \<noteq> d @ [nm]" by (metis less_irrefl)
  have dots: "dir_lookup t [c] dot = dir_lookup s [c] dot" "dir_lookup t [c] dotdot = dir_lookup s [c] dotdot"
    using other plain_nameD(3,4) [OF nm] by simp_all
  have "entry_matches (dir_lookup t [c] nm') ((L(d @ [nm] := x)) (d @ [nm']))" if "\<not> special nm'" for nm'
    using ps(3) other [of nm'] h(5) [OF that] that by (cases "nm' = nm") (simp_all add: special_def)
  then show ?thesis using h(3,4) ps(1,2) b dots unfolding dir_holds_def by simp
qed

lemma update_holds:
  assumes inv: "tree_inv s fl L" and leaf: "\<And>nm'. L (d @ [nm, nm']) = None"
    and ch: "changes_at s fl L (d @ [nm]) x t fl'"
    and dir: "\<And>k. x = Some (Dir_node k) \<Longrightarrow> dir_holds t (L(d @ [nm] := x)) (d @ [nm]) k"
    and q: "(L(d @ [nm] := x)) q = Some (Dir_node k)"
  shows "dir_holds t (L(d @ [nm] := x)) q k"
proof -
  consider "q = d @ [nm]" | "q = d" | "q \<noteq> d @ [nm]" "q \<noteq> d" by blast
  then show ?thesis
  proof cases
    case 1
    then show ?thesis using dir q by simp
  next
    case 2
    then show ?thesis using update_parent_holds [OF inv ch, of k] q by simp
  next
    case 3
    then have L: "L q = Some (Dir_node k)" using q by simp
    have b: "butlast q \<noteq> d @ [nm]"
      using leaf [of "last q"] L by (cases q rule: rev_cases) auto
    have "same_layout s t" using ch by (auto elim!: changes_atE)
    note frame = dir_holds_frame [OF tree_invD(6) [OF inv L] update_others_same [OF inv ch L 3] this]
    show ?thesis
    proof (rule frame)
      show "(L(d @ [nm] := x)) (butlast q) = L (butlast q)" using b by simp
      show "(L(d @ [nm] := x)) (q @ [nm']) = L (q @ [nm'])" for nm' using 3(2) by simp
    qed simp
  qed
qed

lemma update_covers:
  assumes inv: "tree_inv s fl L" and ch: "changes_at s fl L p x t fl'"
  shows "layout_covers t fl' (L(p := x))"
proof -
  have lay: "same_layout s t"
    and cov: "set fl \<union> set (chain_of L p) \<subseteq> set fl' \<union> set (chain_of (L(p := x)) p)"
    using ch by (auto elim!: changes_atE)
  show ?thesis
    unfolding layout_covers_def data_cluster_layout [OF lay]
  proof (intro allI impI)
    fix b assume "data_cluster s b"
    then have "b \<in> set fl \<or> (\<exists>q. b \<in> set (chain_of L q))"
      using tree_invD(2) [OF inv] by (simp add: layout_covers_def)
    then consider "b \<in> set fl \<union> set (chain_of L p)" | q where "q \<noteq> p" "b \<in> set (chain_of L q)"
      by (metis UnI1 UnI2)
    then show "b \<in> set fl' \<or> (\<exists>q. b \<in> set (chain_of (L(p := x)) q))"
    proof cases
      case 1
      then show ?thesis using cov by blast
    next
      case 2
      then have "b \<in> set (chain_of (L(p := x)) q)" by simp
      then show ?thesis by (intro disjI2 exI)
    qed
  qed
qed

lemma tree_update:
  assumes inv: "tree_inv s fl L" and leaf: "\<And>nm. L (p @ [nm]) = None"
    and ch: "changes_at s fl L p x t fl'"
    and dir: "\<And>k. x = Some (Dir_node k) \<Longrightarrow> dir_holds t (L(p := x)) p k"
    and fits: "\<And>cs n. x = Some (File_node cs n) \<Longrightarrow> n \<le> length cs * sb_bpc s"
  shows "tree_inv t fl' (L(p := x))"
    and "tree_of t (L(p := x)) = (tree_of s L)(p := map_option (obj_of t) x)"
proof -
  obtain d nm c where p: "p = d @ [nm]" and d: "L d = Some (Dir_node c)" and nm: "plain_name nm"
    and al: "layout_alloc t fl' (L(p := x))" and lay: "same_layout s t"
    using ch by (rule changes_atE)
  note lay' = same_layoutD [OF lay]
  have holds: "dir_holds t (L(p := x)) q k" if "(L(p := x)) q = Some (Dir_node k)" for q k
    using update_holds [OF inv _ ch [unfolded p] dir [unfolded p], of q k] leaf that by (simp add: p)
  show "tree_inv t fl' (L(p := x))"
    unfolding tree_inv_def
  proof (intro conjI allI impI)
    show "(L(p := x)) [] = Some (Dir_node (root_cluster_start (superblock t)))"
      using tree_invD(3) [OF inv] p lay'(4) by simp
    show "plain_name nm'" if "(L(p := x)) (q @ [nm']) \<noteq> None" for q nm'
      using that nm p tree_invD(4) [OF inv, of q nm'] by (auto split: if_splits)
    show "\<exists>k. (L(p := x)) q = Some (Dir_node k)" if "(L(p := x)) (q @ [nm']) \<noteq> None" for q nm'
      using that d p tree_invD(5) [OF inv, of q nm'] leaf [of nm'] by (auto split: if_splits)
    show "n \<le> length cs * sb_bpc t" if "(L(p := x)) q = Some (File_node cs n)" for q cs n
      using that tree_invD(7) [OF inv, of q] fits lay'(1) by (auto split: if_splits)
  qed (use al update_covers [OF inv ch] holds in auto)
  have "obj_of t n = obj_of s n" if "L q = Some n" "q \<noteq> p" for q n
  proof (cases n)
    case (File_node cs k)
    then have "q \<noteq> d" using that d by auto
    then show ?thesis
      using update_others_same [OF inv ch [unfolded p] that(1) that(2) [unfolded p]] File_node
        file_bytes_same [of cs t s] by simp
  qed simp
  then show "tree_of t (L(p := x)) = (tree_of s L)(p := map_option (obj_of t) x)"
    by (auto simp: fun_eq_iff tree_of_def intro!: option.map_cong0 [of "L _"] split: option.splits)
qed

end
