(* ===== verification/Fat_Refine.thy ===== *)
theory Fat_Refine
  imports Fat_Tree
begin

text \<open>
  The handlers implement the specification: for every operation, from a state that represents a
  tree, within the limits \<open>op_ok\<close>, the handler returns, the state after it represents a tree, and
  \<open>fs_spec\<close> relates the two. The runs of the file system, formatting and mounting again included,
  are the relation \<open>fs_run\<close> of \<open>Fat_Runs\<close>.
\<close>

section \<open>The object at a path\<close>

lemma object_context:
  assumes "tree_inv s fl L" and "L (d @ [nm]) = Some n"
  obtains c e qs where "L d = Some (Dir_node c)" and "plain_name nm"
    and "dir_lookup s [c] nm = Some e" and "entry_for e n"
    and "distinct qs" and "d @ [nm] \<notin> set qs" and "d \<notin> set qs" and "set qs = dom L - {d @ [nm], d}"
    and "alloc_inv s fl (node_chain n # [c] # map (chain_of L) qs)"
proof -
  obtain c where c: "L d = Some (Dir_node c)" using tree_invD(5) [OF assms] by blast
  note nm = tree_invD(4) [OF assms]
  obtain e where e: "dir_lookup s [c] nm = Some e" "entry_for e n"
    using layout_lookup(1) [OF assms(1) c nm] assms(2) by (auto elim: entry_matchesE)
  have "d @ [nm] \<noteq> d" by simp
  then obtain qs where "distinct qs" "d @ [nm] \<notin> set qs" "d \<notin> set qs" "set qs = dom L - {d @ [nm], d}"
      "alloc_inv s fl (node_chain n # node_chain (Dir_node c) # map (chain_of L) qs)"
    using layout_pick2 [OF tree_invD(1) [OF assms(1)] assms(2) c] by blast
  then show ?thesis using that [OF c nm e, of qs] by simp
qed

lemma folder_context:
  assumes "tree_inv s fl L" and "L d = Some (Dir_node c)" and "L p = None"
  obtains qs where "distinct qs" and "p \<notin> set qs" and "d \<notin> set qs" and "set qs = dom L - {p, d}"
    and "alloc_inv s fl ([c] # map (chain_of L) qs)"
proof -
  obtain qs where "distinct qs" "d \<notin> set qs" "set qs = dom L - {d}"
      "alloc_inv s fl (node_chain (Dir_node c) # map (chain_of L) qs)"
    using layout_pick [OF tree_invD(1) [OF assms(1)] assms(2)] .
  then show ?thesis using that [of qs] assms(3) by auto
qed

lemma folder_resolves:
  "tree_inv s fl L \<Longrightarrow> L d = Some (Dir_node c) \<Longrightarrow>
    resolves s (root_cluster_start (superblock s)) d (hd [c])"
  using layout_resolves by simp

lemma file_leaf: "tree_inv s fl L \<Longrightarrow> L p = Some (File_node cs n) \<Longrightarrow> L (p @ [x]) = None"
  using tree_invD(5) [of s fl L p x] by (cases "L (p @ [x])") auto

lemma absent_leaf: "tree_inv s fl L \<Longrightarrow> L p = None \<Longrightarrow> L (p @ [x]) = None"
  using tree_invD(5) [of s fl L p x] by (cases "L (p @ [x])") auto

lemma changes_atI:
  assumes "L d = Some (Dir_node c)" and "plain_name nm"
    and "distinct qs" and "d @ [nm] \<notin> set qs" and "d \<notin> set qs" and "set qs = dom L - {d @ [nm], d}"
    and "alloc_inv t fl' (case x of None \<Rightarrow> [c] # map (chain_of L) qs
      | Some m \<Rightarrow> node_chain m # [c] # map (chain_of L) qs)"
    and "same_layout s t"
    and "set fl \<union> set (chain_of L (d @ [nm])) \<subseteq> set fl' \<union> (case x of None \<Rightarrow> {} | Some m \<Rightarrow> set (node_chain m))"
    and "\<And>b. data_cluster s b \<Longrightarrow> b \<noteq> c \<Longrightarrow> b \<notin> set (chain_of L (d @ [nm])) \<Longrightarrow> b \<notin> set fl \<Longrightarrow>
      cluster_data t b = cluster_data s b"
    and "dir_ok t [c]" and "unique_names t [c]" and "entry_matches (dir_lookup t [c] nm) x"
    and "\<And>nm'. nm' \<noteq> nm \<Longrightarrow> nm' \<noteq> [] \<Longrightarrow> dir_lookup t [c] nm' = dir_lookup s [c] nm'"
  shows "changes_at s fl L (d @ [nm]) x t fl'"
proof -
  have ne: "d @ [nm] \<noteq> d" by simp
  have "layout_alloc t fl' (L(d @ [nm] := x))"
    using layout_put [OF assms(3-5) ne assms(6,1)] assms(7) by (cases x) auto
  moreover have "set fl \<union> set (chain_of L (d @ [nm])) \<subseteq> set fl' \<union> set (chain_of (L(d @ [nm] := x)) (d @ [nm]))"
    using assms(9) by (cases x) auto
  ultimately show ?thesis
    unfolding changes_at_def using assms(1,2,8,10-14)
    by (intro exI [of _ d] exI [of _ nm] exI [of _ c] conjI allI impI) (rule refl | assumption | simp)+
qed

section \<open>Removing\<close>

lemma exec_unlink:
  assumes inv: "tree_inv s fl L" and f: "L (d @ [nm]) = Some (File_node cs k)"
  shows "\<exists>t. fat_unlink (path_of (d @ [nm])) s = Inr (0, t) \<and> tree_inv t (cs @ fl) (L(d @ [nm] := None)) \<and>
    tree_of t (L(d @ [nm] := None)) = (tree_of s L)(d @ [nm] := None)"
proof -
  obtain c e qs where c: "L d = Some (Dir_node c)" and nm: "plain_name nm"
      and e: "dir_lookup s [c] nm = Some e" "entry_for e (File_node cs k)"
      and qs: "distinct qs" "d @ [nm] \<notin> set qs" "d \<notin> set qs" "set qs = dom L - {d @ [nm], d}"
      and al: "alloc_inv s fl (node_chain (File_node cs k) # [c] # map (chain_of L) qs)"
    using object_context [OF inv f] .
  note al = al [unfolded node_chain.simps]
  obtain t where t: "fat_unlink (path_of (d @ [nm])) s = Inr (0, t)"
      "alloc_inv t (cs @ fl) ([c] # map (chain_of L) qs)" "dir_lookup t [c] nm = None"
      "\<forall>nm'. nm' \<noteq> nm \<longrightarrow> nm' \<noteq> [] \<longrightarrow> dir_lookup t [c] nm' = dir_lookup s [c] nm'"
      "dir_ok t [c]" "unique_names t [c]" "same_layout s t"
      "\<forall>b. data_cluster s b \<longrightarrow> b \<notin> set [c] \<longrightarrow> cluster_data t b = cluster_data s b"
    using fat_unlink_ok [OF al layout_dir(6,7) [OF inv c] folder_resolves [OF inv c]
        plain_nameD(2,5) [OF nm] e(1)] e(2) by auto
  have "changes_at s fl L (d @ [nm]) None t (cs @ fl)"
    using t f by (intro changes_atI [OF c nm qs]) auto
  from tree_update [OF inv file_leaf [OF inv f] this] t(1) show ?thesis by simp
qed

lemma slot_lookup: "e \<in> set (dir_slots s cs) \<Longrightarrow> dir_lookup s cs (entry_name e) \<noteq> None"
  by (auto simp: dir_lookup_def find_None_iff)

lemma lookup_slot: "dir_lookup s cs nm = Some e \<Longrightarrow> e \<in> set (dir_slots s cs) \<and> entry_name e = nm"
  by (auto simp: dir_lookup_def find_Some_iff)

lemma dir_empty_layout:
  assumes "tree_inv s fl L" and "L p = Some (Dir_node c)"
  shows "dir_empty s [c] \<longleftrightarrow> (\<forall>nm. L (p @ [nm]) = None)"
proof
  assume empty: "dir_empty s [c]"
  show "\<forall>nm. L (p @ [nm]) = None"
  proof (rule allI, rule ccontr)
    fix nm assume "L (p @ [nm]) \<noteq> None"
    then obtain n where n: "L (p @ [nm]) = Some n" by blast
    note nm = tree_invD(4) [OF assms(1) n]
    obtain e where "dir_lookup s [c] nm = Some e"
      using layout_lookup(1) [OF assms nm] n by (auto elim: entry_matchesE)
    then show False
      using empty lookup_slot plain_nameD(3-5) [OF nm] unfolding dir_empty_def by blast
  qed
next
  assume none: "\<forall>nm. L (p @ [nm]) = None"
  show "dir_empty s [c]"
    unfolding dir_empty_def
  proof (rule ballI, rule ccontr)
    fix e assume e: "e \<in> set (dir_slots s [c])" "entry_name e \<notin> {[], dot, dotdot}"
    have "entry_matches (dir_lookup s [c] (entry_name e)) (L (p @ [entry_name e]))"
      using dir_holdsD(5) [OF tree_invD(6) [OF assms]] e(2) by (simp add: special_def)
    then show False using none slot_lookup [OF e(1)] by simp
  qed
qed

lemma exec_rmdir:
  assumes inv: "tree_inv s fl L" and f: "L (d @ [nm]) = Some (Dir_node k)"
  shows "children (tree_of s L) (d @ [nm]) = {} \<Longrightarrow>
      \<exists>t. fat_rmdir (path_of (d @ [nm])) s = Inr (0, t) \<and> tree_inv t (k # fl) (L(d @ [nm] := None)) \<and>
      tree_of t (L(d @ [nm] := None)) = (tree_of s L)(d @ [nm] := None)"
    and "children (tree_of s L) (d @ [nm]) \<noteq> {} \<Longrightarrow> fat_rmdir (path_of (d @ [nm])) s = Inr (- ENOTEMPTY, s)"
proof -
  obtain c e qs where c: "L d = Some (Dir_node c)" and nm: "plain_name nm"
      and e: "dir_lookup s [c] nm = Some e" "entry_for e (Dir_node k)"
      and qs: "distinct qs" "d @ [nm] \<notin> set qs" "d \<notin> set qs" "set qs = dom L - {d @ [nm], d}"
      and al: "alloc_inv s fl (node_chain (Dir_node k) # [c] # map (chain_of L) qs)"
    using object_context [OF inv f] .
  have ent: "de_type e = DIR_ENTRY_TYPE_SUBDIR" "de_first_cluster e = hd [k]" using e(2) by simp_all
  note rm = fat_rmdir_ok [OF al [unfolded node_chain.simps] layout_dir(6,7) [OF inv c]
      folder_resolves [OF inv c] plain_nameD(2,5) [OF nm] e(1) ent]
  have empty: "dir_empty s [k] \<longleftrightarrow> children (tree_of s L) (d @ [nm]) = {}"
    unfolding dir_empty_layout [OF inv f] children_tree by auto
  show "fat_rmdir (path_of (d @ [nm])) s = Inr (- ENOTEMPTY, s)" if "children (tree_of s L) (d @ [nm]) \<noteq> {}"
    using rm(2) empty that by simp
  assume none: "children (tree_of s L) (d @ [nm]) = {}"
  then have leaf: "L ((d @ [nm]) @ [x]) = None" for x by (auto simp: children_tree)
  obtain t where t: "fat_rmdir (path_of (d @ [nm])) s = Inr (0, t)"
      "alloc_inv t ([k] @ fl) ([c] # map (chain_of L) qs)" "dir_lookup t [c] nm = None"
      "\<forall>nm'. nm' \<noteq> nm \<longrightarrow> nm' \<noteq> [] \<longrightarrow> dir_lookup t [c] nm' = dir_lookup s [c] nm'"
      "dir_ok t [c]" "unique_names t [c]" "same_layout s t"
      "\<forall>b. data_cluster s b \<longrightarrow> b \<notin> set [c] \<longrightarrow> cluster_data t b = cluster_data s b"
    using rm(1) none empty by auto
  have "changes_at s fl L (d @ [nm]) None t (k # fl)"
    using t f by (intro changes_atI [OF c nm qs]) auto
  from tree_update [OF inv leaf this] t(1)
  show "\<exists>t. fat_rmdir (path_of (d @ [nm])) s = Inr (0, t) \<and> tree_inv t (k # fl) (L(d @ [nm] := None)) \<and>
      tree_of t (L(d @ [nm] := None)) = (tree_of s L)(d @ [nm] := None)" by simp
qed

section \<open>Room in a directory\<close>

text \<open>
  How many children a directory can have: the slots that lie within the cluster, less the two
  entries for itself and its parent.
\<close>

definition max_children :: "fs \<Rightarrow> nat" where
  "max_children s = sb_bpc s div 40 - 2"

lemma finite_children: "tree_inv s fl L \<Longrightarrow> finite (children (tree_of s L) p)"
proof -
  assume "tree_inv s fl L"
  then have fin: "finite (dom L)"
    using tree_invD(1) [of s fl L] unfolding layout_alloc_def by (metis List.finite_set)
  have "(\<lambda>nm. p @ [nm]) ` children (tree_of s L) p \<subseteq> dom L" by (auto simp: children_tree)
  then have "finite ((\<lambda>nm. p @ [nm]) ` children (tree_of s L) p)" using fin by (rule finite_subset)
  moreover have "inj_on (\<lambda>nm. p @ [nm]) (children (tree_of s L) p)" by (simp add: inj_on_def)
  ultimately show ?thesis by (rule finite_imageD)
qed

lemma has_room:
  assumes inv: "tree_inv s fl L" and c: "L d = Some (Dir_node c)"
    and few: "card (children (tree_of s L) d) < max_children s"
  obtains k where "first_at s [c] slot_free 0 k" and "40 * k + 40 \<le> sb_bpc s"
proof -
  define n where "n = sb_bpc s div 40"
  let ?nm = "\<lambda>k. entry_name (cluster_slots s c ! k)"
  have n: "n \<le> slot_count s" by (simp add: n_def slot_count_def div_le_mono)
  have "\<exists>k < n. slot_free (cluster_slots s c ! k)"
  proof (rule ccontr)
    assume "\<not> (\<exists>k < n. slot_free (cluster_slots s c ! k))"
    then have full: "\<forall>k < n. ?nm k \<noteq> []"
      using n by (auto simp: entry_name_Nil nth_cluster_slots)
    have "?nm k \<in> {dot, dotdot} \<union> children (tree_of s L) d" if k: "k < n" for k
    proof (cases "special (?nm k)")
      case False
      have "cluster_slots s c ! k \<in> set (dir_slots s [c])"
        using k n by (simp add: dir_slots_single)
      then have "dir_lookup s [c] (?nm k) \<noteq> None" by (rule slot_lookup)
      moreover have "entry_matches (dir_lookup s [c] (?nm k)) (L (d @ [?nm k]))"
        using dir_holdsD(5) [OF tree_invD(6) [OF inv c] False] .
      ultimately show ?thesis by (auto simp: children_tree entry_matches_def split: option.splits)
    qed (use full k in \<open>auto simp: special_def\<close>)
    then have "?nm ` {..< n} \<subseteq> {dot, dotdot} \<union> children (tree_of s L) d" by auto
    then have "card (?nm ` {..< n}) \<le> card ({dot, dotdot} \<union> children (tree_of s L) d)"
      by (rule card_mono [rotated]) (simp add: finite_children [OF inv])
    also have "\<dots> \<le> 2 + card (children (tree_of s L) d)"
      using card_Un_le [of "{dot, dotdot}" "children (tree_of s L) d"] by simp
    finally have "card (?nm ` {..< n}) < n" using few by (simp add: max_children_def n_def)
    moreover have "inj_on ?nm {..< n}"
      using layout_dir(7) [OF inv c] full n
      by (intro inj_onI) (simp add: unique_names_def dir_slots_single)
    ultimately show False by (simp add: card_image)
  qed
  then obtain k where k: "k < n" "slot_free (cluster_slots s c ! k)" "\<forall>l < k. \<not> slot_free (cluster_slots s c ! l)"
    using exists_least_iff [of "\<lambda>k. k < n \<and> slot_free (cluster_slots s c ! k)"]
    by (metis order_less_trans)
  have "Suc k * 40 \<le> n * 40" using k(1) by (intro mult_le_mono1) simp
  also have "\<dots> \<le> sb_bpc s" by (simp add: n_def)
  finally have "40 * k + 40 \<le> sb_bpc s" by simp
  moreover have "first_at s [c] slot_free 0 k" using k n by (simp add: first_at_0)
  ultimately show ?thesis using that by blast
qed

section \<open>Creating\<close>

fun new_node :: "u16 \<Rightarrow> u32 \<Rightarrow> node" where
  "new_node ty c = (if ty = DIR_ENTRY_TYPE_SUBDIR then Dir_node c else File_node [c] 0)"

lemma entry_for_new:
  "ty = DIR_ENTRY_TYPE_SUBDIR \<or> ty = DIR_ENTRY_TYPE_FILE \<Longrightarrow>
   entry_for (new_dir_entry s nm c ty) (new_node ty c)"
  by (auto simp: new_dir_entry_def)

lemma dir_empty_lookup: "dir_empty s cs \<Longrightarrow> \<not> special nm \<Longrightarrow> dir_lookup s cs nm = None"
  using lookup_slot unfolding dir_empty_def special_def by (cases "dir_lookup s cs nm") fastforce+

lemma created_tree:
  fixes ty :: u16
  assumes inv: "tree_inv s fl L" and c: "L d = Some (Dir_node c)" and nm: "plain_name nm"
    and new: "L (d @ [nm]) = None" and fl: "fl \<noteq> []"
    and slot: "first_at s [c] slot_free 0 k" "40 * k + 40 \<le> sb_bpc s"
    and ty: "ty = DIR_ENTRY_TYPE_SUBDIR \<or> ty = DIR_ENTRY_TYPE_FILE"
  defines "t \<equiv> entry_added s fl c c k nm ty" and "x \<equiv> new_node ty (hd fl)"
  shows "tree_inv t (tl fl) (L(d @ [nm] \<mapsto> x))"
    and "tree_of t (L(d @ [nm] \<mapsto> x)) = (tree_of s L)(d @ [nm] \<mapsto> obj_of t x)"
proof -
  obtain qs where qs: "distinct qs" "d @ [nm] \<notin> set qs" "d \<notin> set qs" "set qs = dom L - {d @ [nm], d}"
    and al: "alloc_inv s fl ([c] # map (chain_of L) qs)"
    using folder_context [OF inv c new] .
  note ei = entry_added_inv [OF al fl slot, where nm = nm and ty = ty]
  have "dir_lookup s [c] nm = None" using layout_lookup(1) [OF inv c nm] new by simp
  note ep = entry_added_parent [OF al fl slot layout_dir(6) [OF inv c] plain_nameD(1) [OF nm] this,
      where ty = ty]
  have t: "t = entry_added s fl (hd [c]) ([c] ! 0) k nm ty" by (simp add: t_def)
  have chain: "node_chain x = [hd fl]" by (simp add: x_def)
  have ch: "changes_at s fl L (d @ [nm]) (Some x) t (tl fl)"
  proof (rule changes_atI [OF c nm qs])
    show "set fl \<union> set (chain_of L (d @ [nm])) \<subseteq>
        set (tl fl) \<union> (case Some x of None \<Rightarrow> {} | Some m \<Rightarrow> set (node_chain m))"
      using new fl chain by (cases fl) auto
    show "cluster_data t b = cluster_data s b"
      if "data_cluster s b" "b \<noteq> c" "b \<notin> set (chain_of L (d @ [nm]))" "b \<notin> set fl" for b
      using ei(2) [of b] that hd_in_set [OF fl] unfolding t by fastforce
    show "same_layout s t" by (simp add: t_def entry_added_def Let_def same_layout_iff)
    show "entry_matches (dir_lookup t [c] nm) (Some x)"
      using ep(1) entry_for_new [OF ty, of s nm "hd fl"] unfolding t x_def by simp
  qed (use ei(1) ep(2,3,5) layout_dir(7) [OF inv c] chain in \<open>simp_all add: t\<close>)
  have dir: "dir_holds t (L(d @ [nm] \<mapsto> x)) (d @ [nm]) f" if "Some x = Some (Dir_node f)" for f
  proof -
    have f: "ty = DIR_ENTRY_TYPE_SUBDIR" "f = hd fl" using that by (auto simp: x_def split: if_splits)
    note e = ei(4) [OF f(1), folded t]
    show ?thesis
      using e c dir_empty_lookup [of t "[hd fl]"] absent_leaf [OF inv new]
      by (simp add: dir_holds_def f new_dir_entry_def)
  qed
  have fits: "n \<le> length cs * sb_bpc s" if "Some x = Some (File_node cs n)" for cs n
    using that by (auto simp: x_def split: if_splits)
  show "tree_inv t (tl fl) (L(d @ [nm] \<mapsto> x))"
    "tree_of t (L(d @ [nm] \<mapsto> x)) = (tree_of s L)(d @ [nm] \<mapsto> obj_of t x)"
    using tree_update [OF inv absent_leaf [OF inv new] ch dir fits] by simp_all
qed

lemma exec_mkdir:
  assumes inv: "tree_inv s fl L" and c: "L d = Some (Dir_node c)" and nm: "plain_name nm"
    and new: "L (d @ [nm]) = None" and fl: "fl \<noteq> []"
    and room: "card (children (tree_of s L) d) < max_children s"
  shows "\<exists>t. fat_mkdir (path_of (d @ [nm])) s = Inr (0, t) \<and>
      tree_inv t (tl fl) (L(d @ [nm] \<mapsto> Dir_node (hd fl))) \<and>
      tree_of t (L(d @ [nm] \<mapsto> Dir_node (hd fl))) = (tree_of s L)(d @ [nm] \<mapsto> Folder)"
    and "S_ISREG mode \<Longrightarrow> \<exists>t. fat_mknod (path_of (d @ [nm])) mode s = Inr (0, t) \<and>
      tree_inv t (tl fl) (L(d @ [nm] \<mapsto> File_node [hd fl] 0)) \<and>
      tree_of t (L(d @ [nm] \<mapsto> File_node [hd fl] 0)) = (tree_of s L)(d @ [nm] \<mapsto> Plain []) \<and>
      sb_bpc t = sb_bpc s"
proof -
  obtain k where slot: "first_at s [c] slot_free 0 k" "40 * k + 40 \<le> sb_bpc s"
    using has_room [OF inv c room] .
  obtain qs where al: "alloc_inv s fl ([c] # map (chain_of L) qs)"
    using folder_context [OF inv c new] by metis
  note cr = create_ok [OF al fl layout_root_free [OF inv] folder_resolves [OF inv c]
      plain_nameD(1,2) [OF nm] slot]
  note ct = created_tree [OF inv c nm new fl slot]
  show "\<exists>t. fat_mkdir (path_of (d @ [nm])) s = Inr (0, t) \<and>
      tree_inv t (tl fl) (L(d @ [nm] \<mapsto> Dir_node (hd fl))) \<and>
      tree_of t (L(d @ [nm] \<mapsto> Dir_node (hd fl))) = (tree_of s L)(d @ [nm] \<mapsto> Folder)"
    using cr(1) ct [where ty = DIR_ENTRY_TYPE_SUBDIR] by simp
  show "\<exists>t. fat_mknod (path_of (d @ [nm])) mode s = Inr (0, t) \<and>
      tree_inv t (tl fl) (L(d @ [nm] \<mapsto> File_node [hd fl] 0)) \<and>
      tree_of t (L(d @ [nm] \<mapsto> File_node [hd fl] 0)) = (tree_of s L)(d @ [nm] \<mapsto> Plain []) \<and>
      sb_bpc t = sb_bpc s"
    if "S_ISREG mode"
    using cr(2) [OF that] ct [where ty = DIR_ENTRY_TYPE_FILE]
    by (simp add: DIR_ENTRY_TYPE_FILE_def DIR_ENTRY_TYPE_SUBDIR_def)
qed

section \<open>Writing\<close>

text \<open>
  The bytes of a file after a write: those it had, those between its old end and the offset as
  they were in its clusters, and the data.
\<close>

definition written :: "byte list \<Rightarrow> nat \<Rightarrow> nat \<Rightarrow> byte list \<Rightarrow> byte list" where
  "written B k offset data = splice (take k B @ slice k (offset - k) B) offset data"

lemma written_gap: "k \<le> offset \<Longrightarrow> offset \<le> length B \<Longrightarrow> written B k offset data = take offset B @ data"
  by (simp add: written_def splice_def slice_def take_add [symmetric])

lemma clusters_for_bound:
  assumes "0 < sb_bpc s" and "0 < n" and "n \<le> q * sb_bpc s"
  shows "clusters_for s n \<le> q"
proof -
  have "n - 1 < q * sb_bpc s" using assms(2,3) by linarith
  then have "(n - 1) div sb_bpc s < q" using assms(1) by (simp add: div_less_iff_less_mult)
  then show ?thesis by (simp add: clusters_for_def)
qed

lemma length_file_bytes_take:
  assumes "geometry s" and "chain s c cs" and "q \<le> length cs"
  shows "length (file_bytes s (take q cs)) = q * sb_bpc s"
proof -
  have "length (file_bytes s (take q cs)) = length (take q cs) * sb_bpc s"
    unfolding file_bytes_def using assms(1,2)
    by (intro clusters.length_concat_get) (auto simp: chain_def dest: in_set_takeD)
  then show ?thesis using assms(3) by simp
qed

lemma take_splice_written:
  assumes "k \<le> length B" and "offset + length data \<le> length B"
  shows "take (max k (offset + length data)) (splice B offset data) = written B k offset data"
proof -
  have pre: "take k B @ slice k (offset - k) B = take (max k offset) B"
    by (simp add: slice_def max_def take_add [symmetric] split: if_splits)
  show ?thesis
  proof (cases "offset + length data \<le> k")
    case True
    then have "k \<le> offset \<Longrightarrow> offset = k \<and> data = []"
      by (metis add_leD1 add_le_same_cancel1 le_antisym le_zero_eq length_0_conv)
    with True show ?thesis
      unfolding written_def pre using assms by (auto simp: splice_def max_def take_drop min_def)
  next
    case False
    have "data \<noteq> [] \<longrightarrow> offset < length B" using assms(2) by (cases data) auto
    with False show ?thesis
      unfolding written_def pre using assms by (auto simp: splice_def max_def min_def)
  qed
qed

lemma update_file_tree:
  fixes sz offset :: u64
  assumes inv: "tree_inv s fl L" and f: "L (d @ [nm]) = Some (File_node cs k)"
    and c: "L d = Some (Dir_node c)" and e: "dir_lookup s [c] nm = Some e"
    and size: "0 < length data" "unat (low32 sz) = length data" "unat (low32 offset) = off"
      "off + length data < 2 ^ 32"
    and g: "g = clusters_for s (off + length data) - length cs"
  defines "B \<equiv> file_bytes s cs @ replicate (g * sb_bpc s) 0"
  shows "g \<le> length fl \<Longrightarrow> \<exists>t. update_file c e data sz offset s = Inr (sint (low32 sz), t) \<and>
      tree_inv t (drop g fl) (L(d @ [nm] \<mapsto> File_node (cs @ take g fl) (max k (off + length data)))) \<and>
      tree_of t (L(d @ [nm] \<mapsto> File_node (cs @ take g fl) (max k (off + length data)))) =
        (tree_of s L)(d @ [nm] \<mapsto> Plain (written B k off data))"
    and "length fl < g \<Longrightarrow> update_file c e data sz offset s =
      (if g = length fl + 1 then Inl Out_of_bounds else Inr (- ENOMEM, s))"
proof -
  obtain c' e' qs where c': "L d = Some (Dir_node c')" and nm: "plain_name nm"
      and e': "dir_lookup s [c'] nm = Some e'" "entry_for e' (File_node cs k)"
      and qs: "distinct qs" "d @ [nm] \<notin> set qs" "d \<notin> set qs" "set qs = dom L - {d @ [nm], d}"
      and al': "alloc_inv s fl (node_chain (File_node cs k) # [c'] # map (chain_of L) qs)"
    using object_context [OF inv f] .
  have eq: "c' = c" "e' = e" using c c' e e'(1) by auto
  note al = al' [unfolded node_chain.simps eq]
  have ent: "de_type e = DIR_ENTRY_TYPE_FILE" "de_first_cluster e = hd cs" "unat (de_size e) = k"
    using e'(2) eq by simp_all
  have sz: "0 < unat (low32 sz)" "unat (low32 sz) \<le> length data"
    "unat (low32 offset) + unat (low32 sz) < 2 ^ 32" using size by simp_all
  note words = size(2,3)
  show "update_file c e data sz offset s = (if g = length fl + 1 then Inl Out_of_bounds else Inr (- ENOMEM, s))"
    if "length fl < g"
    using update_file_full [OF al ent(1,2) sz(1,3)] that unfolding words g by simp
  assume room: "g \<le> length fl"
  note ok = update_file_ok [OF al layout_dir(6,7) [OF inv c] e plain_nameD(5) [OF nm] ent(1,2) sz,
      unfolded words, folded g, OF room]
  let ?n = "off + length data"
  obtain t where t: "update_file c e data sz offset s = Inr (sint (low32 sz), t)"
      "alloc_inv t (drop g fl) ((cs @ take g fl) # [c] # map (chain_of L) qs)"
      "file_bytes t (cs @ take g fl) = splice B off data"
      "dir_lookup t [c] nm = Some (sized s e ?n)"
      "\<forall>nm'. nm' \<noteq> nm \<longrightarrow> dir_lookup t [c] nm' = dir_lookup s [c] nm'"
      "dir_ok t [c]" "unique_names t [c]" "same_layout s t"
      "\<forall>b. data_cluster s b \<longrightarrow> b \<notin> set (cs @ [c] @ fl) \<longrightarrow> cluster_data t b = cluster_data s b"
    using ok by (auto simp: B_def)
  let ?x = "File_node (cs @ take g fl) (max k ?n)"
  have cs: "cs \<noteq> []" "chain s (hd cs) cs" using alloc_invD(4,5) [OF al, of cs] by simp_all
  have bpc: "0 < sb_bpc s" using geometryD(2) [OF layout_dir(1) [OF inv c]] by simp
  have ch: "changes_at s fl L (d @ [nm]) (Some ?x) t (drop g fl)"
  proof (rule changes_atI [OF c nm qs])
    have "set (take g fl) \<union> set (drop g fl) = set fl"
      by (metis append_take_drop_id set_append)
    then show "set fl \<union> set (chain_of L (d @ [nm])) \<subseteq>
        set (drop g fl) \<union> (case Some ?x of None \<Rightarrow> {} | Some m \<Rightarrow> set (node_chain m))"
      using f by auto
    show "entry_matches (dir_lookup t [c] nm) (Some ?x)"
      using t(4) ent cs(1) size(4) by (simp add: sized_simps)
  qed (use t f in auto)
  have fits: "k \<le> length (cs @ take g fl) * sb_bpc s" "?n \<le> length (cs @ take g fl) * sb_bpc s"
    using tree_invD(7) [OF inv f] clusters_for_fits [OF bpc g room] by (simp_all add: add_mult_distrib)
  have len: "length B = length (cs @ take g fl) * sb_bpc s"
    using length_file_bytes [OF layout_dir(1) [OF inv c] cs(2)] room by (simp add: B_def add_mult_distrib)
  have "obj_of t ?x = Plain (written B k off data)"
    using take_splice_written [of k B off data] fits unfolding len by (simp add: t(3))
  then show "\<exists>t. update_file c e data sz offset s = Inr (sint (low32 sz), t) \<and>
      tree_inv t (drop g fl) (L(d @ [nm] \<mapsto> File_node (cs @ take g fl) (max k ?n))) \<and>
      tree_of t (L(d @ [nm] \<mapsto> File_node (cs @ take g fl) (max k ?n))) =
        (tree_of s L)(d @ [nm] \<mapsto> Plain (written B k off data))"
    using tree_update [OF inv file_leaf [OF inv f] ch] fits t(1) by auto
qed

lemma low32_of_nat: "n < 2 ^ 32 \<Longrightarrow> unat (low32 (of_nat n)) = n"
  by (simp add: unat_low32 unat_of_nat)

lemma sint_low32: "n < 2 ^ 31 \<Longrightarrow> sint (low32 (of_nat n)) = int n"
  using sint_u32 [of "low32 (of_nat n)"] low32_of_nat [of n] by simp

lemma exec_write:
  assumes inv: "tree_inv s fl L" and f: "L (d @ [nm]) = Some (File_node cs k)"
    and size: "0 < length data" "length data < 2 ^ 31" "off + length data < 2 ^ 32"
    and g: "g = clusters_for s (off + length data) - length cs"
  defines "B \<equiv> file_bytes s cs @ replicate (g * sb_bpc s) 0"
  shows "g \<le> length fl \<Longrightarrow>
      \<exists>t. fat_write (path_of (d @ [nm])) data (of_nat (length data)) (of_nat off) s = Inr (int (length data), t) \<and>
      tree_inv t (drop g fl) (L(d @ [nm] \<mapsto> File_node (cs @ take g fl) (max k (off + length data)))) \<and>
      tree_of t (L(d @ [nm] \<mapsto> File_node (cs @ take g fl) (max k (off + length data)))) =
        (tree_of s L)(d @ [nm] \<mapsto> Plain (written B k off data))"
    and "length fl < g \<Longrightarrow> fat_write (path_of (d @ [nm])) data (of_nat (length data)) (of_nat off) s =
      (if g = length fl + 1 then Inl Out_of_bounds else Inr (- ENOMEM, s))"
proof -
  obtain c e qs where c: "L d = Some (Dir_node c)" and nm: "plain_name nm"
      and e: "dir_lookup s [c] nm = Some e" "entry_for e (File_node cs k)"
      and al: "alloc_inv s fl (node_chain (File_node cs k) # [c] # map (chain_of L) qs)"
    using object_context [OF inv f] by metis
  have loc: "fat_write (path_of (d @ [nm])) data (of_nat (length data)) (of_nat off) s =
      update_file c e data (of_nat (length data)) (of_nat off) s"
    using fat_write_locates [OF al layout_dir(6) [OF inv c] folder_resolves [OF inv c]
        plain_nameD(2) [OF nm] e(1)] by simp
  have w: "unat (low32 (of_nat (length data))) = length data" "unat (low32 (of_nat off)) = off"
    "sint (low32 (of_nat (length data))) = int (length data)"
    using size low32_of_nat sint_low32 by simp_all
  note up = update_file_tree [OF inv f c e(1) size(1) w(1,2) size(3) g, folded B_def]
  show "\<exists>t. fat_write (path_of (d @ [nm])) data (of_nat (length data)) (of_nat off) s = Inr (int (length data), t) \<and>
      tree_inv t (drop g fl) (L(d @ [nm] \<mapsto> File_node (cs @ take g fl) (max k (off + length data)))) \<and>
      tree_of t (L(d @ [nm] \<mapsto> File_node (cs @ take g fl) (max k (off + length data)))) =
        (tree_of s L)(d @ [nm] \<mapsto> Plain (written B k off data))" if "g \<le> length fl"
    unfolding loc using up(1) [OF that] w(3) by simp
  show "fat_write (path_of (d @ [nm])) data (of_nat (length data)) (of_nat off) s =
      (if g = length fl + 1 then Inl Out_of_bounds else Inr (- ENOMEM, s))" if "length fl < g"
    unfolding loc using up(2) [OF that] .
qed

section \<open>Truncating\<close>

lemma take_file_bytes:
  assumes "geometry s" and "chain s c cs" and "q \<le> length cs" and "n \<le> q * sb_bpc s"
  shows "take n (file_bytes s cs) = take n (file_bytes s (take q cs))"
proof -
  have "length (file_bytes s (take q cs)) = q * sb_bpc s"
    using assms(1-3) chain_data [OF assms(2)] in_set_takeD [of _ q cs]
    by (simp add: file_bytes_def length_concat o_def cong: map_cong) (simp add: sum_list_triv)
  moreover have "file_bytes s cs = file_bytes s (take q cs) @ file_bytes s (drop q cs)"
    by (simp add: file_bytes_def flip: concat_append map_append)
  ultimately show ?thesis using assms(4) by simp
qed

lemma exec_truncate_shrink:
  assumes inv: "tree_inv s fl L" and f: "L (d @ [nm]) = Some (File_node cs k)" and n: "n < k"
  defines "q \<equiv> Suc (n div sb_bpc s)"
  shows "\<exists>t. fat_truncate (path_of (d @ [nm])) (of_nat n) s = Inr (0, t) \<and>
      tree_inv t (drop q cs @ fl) (L(d @ [nm] \<mapsto> File_node (take q cs) n)) \<and>
      tree_of t (L(d @ [nm] \<mapsto> File_node (take q cs) n)) =
        (tree_of s L)(d @ [nm] \<mapsto> Plain (take n (file_bytes s cs))) \<and>
      file_bytes t (take q cs) = file_bytes s (take q cs) \<and> same_layout s t"
proof -
  obtain c e qs where c: "L d = Some (Dir_node c)" and nm: "plain_name nm"
      and e: "dir_lookup s [c] nm = Some e" "entry_for e (File_node cs k)"
      and qs: "distinct qs" "d @ [nm] \<notin> set qs" "d \<notin> set qs" "set qs = dom L - {d @ [nm], d}"
      and al: "alloc_inv s fl (node_chain (File_node cs k) # [c] # map (chain_of L) qs)"
    using object_context [OF inv f] .
  let ?xs = "take q cs" and ?ys = "drop q cs"
  have al': "alloc_inv s fl ((?xs @ ?ys) # [c] # map (chain_of L) qs)" using al by simp
  have b: "0 < sb_bpc s" using geometryD(2) [OF layout_dir(1) [OF inv c]] by simp
  have "n < length cs * sb_bpc s" using n tree_invD(7) [OF inv f] by simp
  then have q: "q \<le> length cs" using b by (simp add: q_def Suc_le_eq div_less_iff_less_mult)
  have nq: "n < q * sb_bpc s"
    unfolding q_def using b by (metis dividend_less_div_times mult.commute mult_Suc_right add.commute)
  have k: "k < 2 ^ 32" using e(2) unat_u32_bound [of "de_size e"] by simp
  have un: "unat (of_nat n :: u64) = n" using n k by (simp add: unat_of_nat)
  have hd: "de_first_cluster e = hd ?xs" using e(2) q by (cases cs) (simp_all add: q_def)
  have size: "unat (of_nat n :: u64) < unat (de_size e)"
    "length ?xs = Suc (unat (of_nat n :: u64) div sb_bpc s)"
    using un n e(2) q by (simp_all add: q_def)
  obtain t where t: "fat_truncate (path_of (d @ [nm])) (of_nat n) s = Inr (0, t)"
      "alloc_inv t (?ys @ fl) (?xs # [c] # map (chain_of L) qs)" "file_bytes t ?xs = file_bytes s ?xs"
      "dir_lookup t [c] nm = Some (e\<lparr>de_size := low32 (of_nat n)\<rparr>)"
      "\<forall>nm'. nm' \<noteq> nm \<longrightarrow> dir_lookup t [c] nm' = dir_lookup s [c] nm'"
      "dir_ok t [c]" "unique_names t [c]" "same_layout s t"
      "\<forall>b. data_cluster s b \<longrightarrow> b \<notin> set [c] \<longrightarrow> cluster_data t b = cluster_data s b"
    using fat_truncate_shrink_ok [OF al' layout_dir(6,7) [OF inv c] folder_resolves [OF inv c]
        plain_nameD(2,5) [OF nm] e(1) hd size] by auto
  have ch: "changes_at s fl L (d @ [nm]) (Some (File_node ?xs n)) t (?ys @ fl)"
  proof (rule changes_atI [OF c nm qs])
    have "set ?xs \<union> set ?ys = set cs" by (metis append_take_drop_id set_append)
    then show "set fl \<union> set (chain_of L (d @ [nm])) \<subseteq>
        set (?ys @ fl) \<union> (case Some (File_node ?xs n) of None \<Rightarrow> {} | Some m \<Rightarrow> set (node_chain m))"
      using f by auto
    show "entry_matches (dir_lookup t [c] nm) (Some (File_node ?xs n))"
      using t(4) e(2) hd low32_of_nat [of n] n k by simp
  qed (use t f in auto)
  have len: "length ?xs * sb_bpc s = q * sb_bpc s" using q by simp
  have "chain s (hd cs) cs" using alloc_invD(5) [OF al, of cs] by simp
  then have "take n (file_bytes s cs) = take n (file_bytes s ?xs)"
    using nq q by (intro take_file_bytes [OF layout_dir(1) [OF inv c]]) simp_all
  then show ?thesis
    using tree_update [OF inv file_leaf [OF inv f] ch] t(1,3,8) nq len by auto
qed

lemma low32_ucast: "low32 (ucast (x :: u32)) = x"
  by (simp add: low32_def ucast_up_ucast_id is_up)

text \<open>
  The arithmetic of an extension from \<open>k\<close> to \<open>n\<close> bytes: the comparison of the sizes, and what the
  call of \<open>update_file\<close> is given.
\<close>

lemma truncate_extends:
  fixes e :: fat_dir_entry
  assumes loc: "locate path s = Inr (c, e)" and k: "unat (de_size e) = k" and n: "k \<le> n" "n < 2 ^ 31"
  defines "z \<equiv> low32 (of_nat n) - de_size e"
  shows "n = k \<Longrightarrow> fat_truncate path (of_nat n) s = Inr (0, s)"
    and "k < n \<Longrightarrow> fat_truncate path (of_nat n) s =
      bind_res (update_file c e (replicate (n - k) 0) (ucast z) (ucast (de_size e)) s)
        (\<lambda>(result, s). Inr (if result = int (n - k) then 0 else -1, s))"
    and "unat (low32 (ucast z)) = n - k" and "unat (low32 (ucast (de_size e))) = k"
    and "sint (low32 (ucast z)) = int (n - k)"
proof -
  have un: "unat (of_nat n :: u64) = n" using n by (simp add: unat_of_nat)
  have cmp: "sint (of_nat n :: u64) = uint (de_size e) \<longleftrightarrow> n = k"
    "uint (de_size e) < sint (of_nat n :: u64) \<longleftrightarrow> k < n"
    using off_t_compare [of "of_nat n" "de_size e"] un k n by simp_all
  have z: "unat z = n - k"
    unfolding z_def using n k low32_of_nat [of n] by (simp add: unat_sub word_le_nat_alt)
  show w: "unat (low32 (ucast z)) = n - k" "unat (low32 (ucast (de_size e))) = k"
    using z k by (simp_all add: low32_ucast)
  have sz: "sint z = int (n - k)" using sint_u32 [of z] z n by simp
  show "sint (low32 (ucast z)) = int (n - k)" using sint_u32 [of "low32 (ucast z)"] w(1) n by simp
  show "fat_truncate path (of_nat n) s = Inr (0, s)" if "n = k"
    using loc cmp(1) that by (simp add: fat_truncate_def)
  show "fat_truncate path (of_nat n) s =
      bind_res (update_file c e (replicate (n - k) 0) (ucast z) (ucast (de_size e)) s)
        (\<lambda>(result, s). Inr (if result = int (n - k) then 0 else -1, s))" if "k < n"
    using loc cmp that sz z unfolding z_def by (simp add: fat_truncate_def Let_def)
qed

lemma exec_truncate_extend:
  assumes inv: "tree_inv s fl L" and f: "L (d @ [nm]) = Some (File_node cs k)"
    and n: "k \<le> n" "n < 2 ^ 31"
    and g: "g = (if k < n then clusters_for s n - length cs else 0)"
  shows "g \<le> length fl \<Longrightarrow> \<exists>t. fat_truncate (path_of (d @ [nm])) (of_nat n) s = Inr (0, t) \<and>
      tree_inv t (drop g fl) (L(d @ [nm] \<mapsto> File_node (cs @ take g fl) n)) \<and>
      tree_of t (L(d @ [nm] \<mapsto> File_node (cs @ take g fl) n)) =
        (tree_of s L)(d @ [nm] \<mapsto> Plain (take k (file_bytes s cs) @ replicate (n - k) 0))"
    and "length fl < g \<Longrightarrow> fat_truncate (path_of (d @ [nm])) (of_nat n) s =
      (if g = length fl + 1 then Inl Out_of_bounds else Inr (-1, s))"
proof -
  obtain c e qs where c: "L d = Some (Dir_node c)" and nm: "plain_name nm"
      and e: "dir_lookup s [c] nm = Some e" "entry_for e (File_node cs k)"
      and al: "alloc_inv s fl (node_chain (File_node cs k) # [c] # map (chain_of L) qs)"
    using object_context [OF inv f] by metis
  have loc: "locate (path_of (d @ [nm])) s = Inr (c, e)"
    using locate_entry [OF al _ folder_resolves [OF inv c] layout_dir(6) [OF inv c] e(1) plain_nameD(2) [OF nm]]
    by simp
  have k: "unat (de_size e) = k" using e(2) by simp
  note te = truncate_extends [OF loc k n]
  have up: "k + (n - k) = n" "length (replicate (n - k) (0 :: byte)) = n - k"
    using n(1) by simp_all
  have kn: "k < n \<Longrightarrow> 0 < length (replicate (n - k) (0 :: byte))" "n < 2 ^ 32" using n by simp_all
  note tree = update_file_tree [OF inv f c e(1), where data = "replicate (n - k) 0" and off = k
      and g = g, unfolded up, OF _ te(3,4) kn(2)]
  let ?B = "file_bytes s cs @ replicate (g * sb_bpc s) 0"
  have bytes: "written ?B k k (replicate (n - k) 0) = take k (file_bytes s cs) @ replicate (n - k) 0"
    using tree_invD(7) [OF inv f] length_file_bytes [OF layout_dir(1) [OF inv c]] alloc_invD(5) [OF al, of cs]
    by (simp add: written_def splice_def slice_def)
  show "\<exists>t. fat_truncate (path_of (d @ [nm])) (of_nat n) s = Inr (0, t) \<and>
      tree_inv t (drop g fl) (L(d @ [nm] \<mapsto> File_node (cs @ take g fl) n)) \<and>
      tree_of t (L(d @ [nm] \<mapsto> File_node (cs @ take g fl) n)) =
        (tree_of s L)(d @ [nm] \<mapsto> Plain (take k (file_bytes s cs) @ replicate (n - k) 0))"
    if room: "g \<le> length fl"
  proof (cases "n = k")
    case True
    have "L(d @ [nm] \<mapsto> File_node cs k) = L" "(tree_of s L)(d @ [nm] \<mapsto> Plain (take k (file_bytes s cs))) = tree_of s L"
      using f by (auto simp: fun_eq_iff tree_of_def)
    then show ?thesis using te(1) [OF True] inv True g by simp
  next
    case False
    then have lt: "k < n" using n(1) by simp
    have g': "g = clusters_for s n - length cs" using g lt by simp
    show ?thesis
      using tree(1) [OF _ g' room] lt te(2) [OF lt] te(5) bytes n(1) by (auto simp: max_absorb2)
  qed
  show "fat_truncate (path_of (d @ [nm])) (of_nat n) s = (if g = length fl + 1 then Inl Out_of_bounds else Inr (-1, s))"
    if full: "length fl < g"
  proof -
    have lt: "k < n" using full g by (auto split: if_splits)
    have g': "g = clusters_for s n - length cs" using g lt by simp
    show ?thesis
      using tree(2) [OF _ g' full] lt te(2) [OF lt] by (simp add: ENOMEM_def)
  qed
qed

section \<open>Limits\<close>

text \<open>
  What an operation needs besides the right kind of object: a plain new name and room for the
  entry, sizes within the width of the arguments, and not exactly one free cluster too few,
  where the program reads outside the table. With more clusters missing it reports an error.
\<close>

definition creatable :: "fs \<Rightarrow> tree \<Rightarrow> fs_path \<Rightarrow> bool" where
  "creatable s T p \<longleftrightarrow>
     p \<noteq> [] \<and> plain_name (last p) \<and> T (butlast p) = Some Folder \<and> T p = None \<and>
     card (children T (butlast p)) < max_children s"

definition one_short :: "fs \<Rightarrow> u32 list \<Rightarrow> layout \<Rightarrow> fs_path \<Rightarrow> nat \<Rightarrow> bool" where
  "one_short s fl L p n \<longleftrightarrow> clusters_for s n - length (chain_of L p) = length fl + 1"

definition file_size :: "tree \<Rightarrow> fs_path \<Rightarrow> nat option" where
  "file_size T p = (case T p of Some (Plain bs) \<Rightarrow> Some (length bs) | _ \<Rightarrow> None)"

fun op_ok :: "fs \<Rightarrow> u32 list \<Rightarrow> layout \<Rightarrow> fs_op \<Rightarrow> bool" where
  "op_ok s fl L (Mkdir p) \<longleftrightarrow> fl = [] \<or> creatable s (tree_of s L) p"
| "op_ok s fl L (Mknod p mode) \<longleftrightarrow> \<not> S_ISREG mode \<or> fl = [] \<or> creatable s (tree_of s L) p"
| "op_ok s fl L (Create p mode) \<longleftrightarrow>
     fl \<noteq> [] \<and> creatable s (tree_of s L) p \<and> S_ISREG (or mode S_IFREG)"
| "op_ok s fl L (Write p data offset) \<longleftrightarrow>
     file_size (tree_of s L) p \<noteq> None \<and> data \<noteq> [] \<and> length data < 2 ^ 31 \<and>
     offset + length data < 2 ^ 32 \<and> \<not> one_short s fl L p (offset + length data)"
| "op_ok s fl L (Truncate p n) \<longleftrightarrow>
     (case file_size (tree_of s L) p of None \<Rightarrow> False
      | Some k \<Rightarrow> n < k \<or> n < 2 ^ 31 \<and> (k < n \<longrightarrow> \<not> one_short s fl L p n))"
| "op_ok s fl L (Unlink p) \<longleftrightarrow> p \<noteq> [] \<and> tree_of s L p \<noteq> None"
| "op_ok s fl L (Rmdir p) \<longleftrightarrow> p \<noteq> [] \<and> tree_of s L p = Some Folder"

lemma layout_file_length:
  assumes "tree_inv s fl L" and "L p = Some (File_node cs k)"
  shows "length (take k (file_bytes s cs)) = k"
  using length_file_bytes [of s "hd cs" cs] layout_chain(1,5) [OF tree_invD(1) [OF assms(1)] assms(2)]
    tree_invD(7) [OF assms] by simp

lemma file_size_layout:
  assumes "tree_inv s fl L" and "file_size (tree_of s L) p = Some k"
  obtains d nm cs where "p = d @ [nm]" and "L p = Some (File_node cs k)"
    and "tree_of s L p = Some (Plain (take k (file_bytes s cs)))"
proof -
  obtain bs where bs: "tree_of s L p = Some (Plain bs)" "length bs = k"
    using assms(2) by (auto simp: file_size_def split: option.splits obj.splits)
  then obtain cs n where n: "L p = Some (File_node cs n)" "bs = take n (file_bytes s cs)"
    by (auto simp: tree_of_Plain)
  then have "n = k" using layout_file_length [OF assms(1) n(1)] bs(2) by simp
  moreover have "p \<noteq> []" using n(1) tree_invD(3) [OF assms(1)] by auto
  then obtain d nm where "p = d @ [nm]" by (cases p rule: rev_cases) auto
  ultimately show ?thesis using that n bs(1) by simp
qed

section \<open>Every operation refines its specification\<close>

text \<open>
  The clusters that an operation takes from the free list, and the result that reports that they
  are not there. The specification allows this result at any time; it is returned exactly when
  the free list is too short.
\<close>

fun demand :: "fs \<Rightarrow> layout \<Rightarrow> fs_op \<Rightarrow> nat" where
  "demand s L (Mkdir p) = 1"
| "demand s L (Mknod p mode) = (if S_ISREG mode then 1 else 0)"
| "demand s L (Create p mode) = 1"
| "demand s L (Write p data offset) = clusters_for s (offset + length data) - length (chain_of L p)"
| "demand s L (Truncate p n) =
     (case file_size (tree_of s L) p of None \<Rightarrow> 0
      | Some k \<Rightarrow> if k < n then clusters_for s n - length (chain_of L p) else 0)"
| "demand s L (Unlink p) = 0"
| "demand s L (Rmdir p) = 0"

fun no_space :: "fs_op \<Rightarrow> int" where
  "no_space (Truncate p n) = -1"
| "no_space opr = - ENOMEM"

lemma errno_distinct:
  "- ENOTEMPTY \<noteq> - ENOMEM" "- EACCES \<noteq> - ENOMEM" "-1 \<noteq> - ENOMEM" "ENOMEM \<noteq> 0" "int n \<noteq> - ENOMEM"
  unfolding ENOTEMPTY_def ENOMEM_def EACCES_def by presburger+

definition refines :: "fs_op \<Rightarrow> fs \<Rightarrow> u32 list \<Rightarrow> layout \<Rightarrow> bool" where
  "refines opr s fl L \<longleftrightarrow>
     (\<exists>r t fl' L'. fat_exec opr s = Inr (r, t) \<and> tree_inv t fl' L' \<and>
       fs_spec (tree_of s L) opr r (tree_of t L') \<and> (r = no_space opr \<longleftrightarrow> length fl < demand s L opr))"

lemma refinesI:
  "fat_exec opr s = Inr (r, t) \<Longrightarrow> tree_inv t fl' L' \<Longrightarrow> tree_of t L' = T' \<Longrightarrow>
   fs_spec (tree_of s L) opr r T' \<Longrightarrow> r = no_space opr \<longleftrightarrow> length fl < demand s L opr \<Longrightarrow>
   refines opr s fl L"
  unfolding refines_def by blast

lemma creatable_layout:
  assumes "creatable s (tree_of s L) p"
  obtains d nm c where "p = d @ [nm]" and "plain_name nm" and "L d = Some (Dir_node c)" and "L p = None"
    and "card (children (tree_of s L) d) < max_children s"
proof -
  obtain d nm where p: "p = d @ [nm]" using assms by (cases p rule: rev_cases) (auto simp: creatable_def)
  then show ?thesis using assms that by (auto simp: creatable_def tree_of_Folder)
qed

lemma layout_full:
  assumes "tree_inv s [] L"
  shows "fat_mkdir path s = Inr (- ENOMEM, s)" and "\<not> has_free_cluster s"
proof -
  obtain qs where al: "alloc_inv s []
      (node_chain (Dir_node (root_cluster_start (superblock s))) # map (chain_of L) qs)"
    using layout_pick [OF tree_invD(1,3) [OF assms]] by metis
  then show "fat_mkdir path s = Inr (- ENOMEM, s)" by (rule create_full(1)) simp
  show "\<not> has_free_cluster s" using has_free_cluster_iff [OF alloc_invD(1,3) [OF al]] by simp
qed

lemma refines_mkdir:
  assumes inv: "tree_inv s fl L" and ok: "op_ok s fl L (Mkdir p)"
  shows "refines (Mkdir p) s fl L"
proof (cases "fl = []")
  case True
  then have "fat_mkdir (path_of p) s = Inr (- ENOMEM, s)" using layout_full(1) inv by simp
  then show ?thesis using inv True by (intro refinesI [OF _ inv refl]) (auto intro: fs_spec.intros)
next
  case False
  then have "creatable s (tree_of s L) p" using ok by simp
  then obtain d nm c where p: "p = d @ [nm]" and nm: "plain_name nm" and c: "L d = Some (Dir_node c)"
    and new: "L p = None" and room: "card (children (tree_of s L) d) < max_children s"
    by (rule creatable_layout)
  have spec: "fs_spec (tree_of s L) (Mkdir p) 0 ((tree_of s L)(p \<mapsto> Folder))"
    unfolding p using c new p by (intro fs_spec.mkdir) auto
  show ?thesis
    using exec_mkdir(1) [OF inv c nm new [unfolded p] False room, folded p] spec False
    by (auto simp: errno_distinct intro: refinesI)
qed

lemma refines_mknod:
  assumes inv: "tree_inv s fl L" and ok: "op_ok s fl L (Mknod p mode)"
  shows "refines (Mknod p mode) s fl L"
proof -
  consider "\<not> S_ISREG mode" | "S_ISREG mode" "fl = []" | "S_ISREG mode" "fl \<noteq> []" by blast
  then show ?thesis
  proof cases
    case 1
    then have "fat_exec (Mknod p mode) s = Inr (- EACCES, s)" by (simp add: fat_mknod_def)
    then show ?thesis by (rule refinesI [OF _ inv refl]) (use 1 errno_distinct(2) in \<open>auto intro: fs_spec.mknod_other\<close>)
  next
    case 2
    then have "fat_exec (Mknod p mode) s = Inr (- ENOMEM, s)"
      using layout_full(2) inv by (simp add: fat_mknod_def)
    then show ?thesis by (rule refinesI [OF _ inv refl]) (simp_all add: fs_spec.mknod_full 2)
  next
    case 3
    then have "creatable s (tree_of s L) p" using ok by simp
    then obtain d nm c where p: "p = d @ [nm]" and nm: "plain_name nm" and c: "L d = Some (Dir_node c)"
      and new: "L p = None" and room: "card (children (tree_of s L) d) < max_children s"
      by (rule creatable_layout)
    have spec: "fs_spec (tree_of s L) (Mknod p mode) 0 ((tree_of s L)(p \<mapsto> Plain []))"
      unfolding p using c new p 3(1) by (intro fs_spec.mknod) auto
    show ?thesis
      using exec_mkdir(2) [OF inv c nm new [unfolded p] 3(2) room 3(1), folded p] spec 3
      by (auto simp: errno_distinct intro: refinesI)
  qed
qed

text \<open>A creation is that of a regular file, whose result is ignored; here it succeeds.\<close>

lemma refines_create:
  assumes inv: "tree_inv s fl L" and ok: "op_ok s fl L (Create p mode)"
  shows "refines (Create p mode) s fl L"
proof -
  have fl: "fl \<noteq> []" and mode: "S_ISREG (or mode S_IFREG)" and "creatable s (tree_of s L) p"
    using ok by simp_all
  from this(3) obtain d nm c where p: "p = d @ [nm]" and nm: "plain_name nm" and c: "L d = Some (Dir_node c)"
    and new: "L p = None" and room: "card (children (tree_of s L) d) < max_children s"
    by (rule creatable_layout)
  have spec: "fs_spec (tree_of s L) (Create p mode) 0 ((tree_of s L)(p \<mapsto> Plain []))"
    unfolding p using c new p by (intro fs_spec.create) auto
  show ?thesis
    using exec_mkdir(2) [OF inv c nm new [unfolded p] fl room mode, folded p] spec
    fl by (auto simp: fat_create_def errno_distinct intro: refinesI)
qed

lemma refines_write:
  assumes inv: "tree_inv s fl L" and ok: "op_ok s fl L (Write p data offset)"
  shows "refines (Write p data offset) s fl L"
proof -
  from ok obtain k where "file_size (tree_of s L) p = Some k" by auto
  from file_size_layout [OF inv this] obtain d nm cs
    where p: "p = d @ [nm]" and f: "L p = Some (File_node cs k)"
      and T: "tree_of s L p = Some (Plain (take k (file_bytes s cs)))" .
  define g where "g = clusters_for s (offset + length data) - length cs"
  let ?B = "file_bytes s cs @ replicate (g * sb_bpc s) 0"
  have size: "0 < length data" "length data < 2 ^ 31" "offset + length data < 2 ^ 32"
    and g: "g \<noteq> length fl + 1"
    using ok f by (simp_all add: g_def one_short_def)
  note ex = exec_write [OF inv f [unfolded p] size g_def, folded p]
  show ?thesis
  proof (cases "g \<le> length fl")
    case True
    note cs = layout_chain(1,5) [OF tree_invD(1) [OF inv] f]
    have "sb_bpc s > 0" using geometryD(2) [OF cs(1)] by simp
    then have "offset + length data \<le> length (cs @ take g fl) * sb_bpc s"
      by (rule clusters_for_fits [OF _ g_def True])
    then have "offset + length data \<le> length ?B" "k \<le> length (file_bytes s cs)"
      using length_file_bytes [OF cs(1)] cs(2) tree_invD(7) [OF inv f] True
      by (simp_all add: add_mult_distrib)
    then have "length (slice k (offset - k) ?B) = offset - length (take k (file_bytes s cs))"
      and "take k ?B = take k (file_bytes s cs)" by simp_all
    then have "fs_spec (tree_of s L) (Write p data offset) (int (length data))
        ((tree_of s L)(p \<mapsto> Plain (written ?B k offset data)))"
      unfolding written_def using fs_spec.write_data [where T = "tree_of s L" and p = p, OF T] by simp
    moreover have "int (length data) \<noteq> no_space (Write p data offset)" by (simp add: errno_distinct)
    moreover have "\<not> length fl < demand s L (Write p data offset)" using True f by (simp add: g_def)
    ultimately show ?thesis using ex(1) [OF True] by (auto intro: refinesI)
  next
    case False
    then have "fat_exec (Write p data offset) s = Inr (- ENOMEM, s)" using ex(2) g by simp
    then show ?thesis using False f
      by (intro refinesI [OF _ inv refl]) (simp_all add: g_def fs_spec.write_full [where T = "tree_of s L", OF T])
  qed
qed

lemma refines_truncate:
  assumes inv: "tree_inv s fl L" and ok: "op_ok s fl L (Truncate p n)"
  shows "refines (Truncate p n) s fl L"
proof -
  from ok obtain k where k: "file_size (tree_of s L) p = Some k" by (cases "file_size (tree_of s L) p") auto
  from file_size_layout [OF inv this] obtain d nm cs
    where p: "p = d @ [nm]" and f: "L p = Some (File_node cs k)"
      and T: "tree_of s L p = Some (Plain (take k (file_bytes s cs)))" .
  note len = layout_file_length [OF inv f]
  note spec = fs_spec.truncate [where T = "tree_of s L" and p = p and n = n, OF T, unfolded len]
  show ?thesis
  proof (cases "n < k")
    case True
    then have "fs_spec (tree_of s L) (Truncate p n) 0 ((tree_of s L)(p \<mapsto> Plain (take n (file_bytes s cs))))"
      using spec by (simp add: min_absorb1)
    then show ?thesis
      using exec_truncate_shrink [OF inv f [unfolded p] True, folded p] True k
      by (auto intro: refinesI)
  next
    case False
    define g where "g = (if k < n then clusters_for s n - length cs else 0)"
    have n: "k \<le> n" "n < 2 ^ 31" and g: "g \<noteq> length fl + 1"
      using ok False k f by (auto simp: g_def one_short_def)
    note ex = exec_truncate_extend [OF inv f [unfolded p] n g_def, folded p]
    show ?thesis
    proof (cases "g \<le> length fl")
      case True
      have "take n (take k (file_bytes s cs)) = take k (file_bytes s cs)" using n(1) by (simp add: min_absorb2)
      moreover have "\<not> length fl < demand s L (Truncate p n)" using True k f
        by (auto simp: g_def split: if_splits)
      ultimately show ?thesis using ex(1) [OF True] spec by (auto intro: refinesI)
    next
      case full: False
      then have "k < n" by (auto simp: g_def split: if_splits)
      then have "fs_spec (tree_of s L) (Truncate p n) (-1) (tree_of s L)"
        using T len by (intro fs_spec.truncate_full) auto
      moreover have "fat_exec (Truncate p n) s = Inr (-1, s)" using ex(2) full g by simp
      moreover have "length fl < demand s L (Truncate p n)" using full \<open>k < n\<close> k f by (simp add: g_def)
      ultimately show ?thesis by (intro refinesI [OF _ inv refl]) simp_all
    qed
  qed
qed

lemma refines_unlink:
  assumes inv: "tree_inv s fl L" and ok: "op_ok s fl L (Unlink p)"
  shows "refines (Unlink p) s fl L"
proof -
  obtain d nm where p: "p = d @ [nm]" using ok by (cases p rule: rev_cases) auto
  obtain n where n: "L p = Some n" using ok by auto
  show ?thesis
  proof (cases n)
    case (File_node cs k)
    then have "fs_spec (tree_of s L) (Unlink p) 0 ((tree_of s L)(p := None))"
      using n by (intro fs_spec.unlink) simp
    then show ?thesis
      using exec_unlink [OF inv, of d nm cs k] n File_node p by (auto simp: errno_distinct intro: refinesI)
  next
    case (Dir_node k)
    obtain c e qs where c: "L d = Some (Dir_node c)" and nm: "plain_name nm"
        and e: "dir_lookup s [c] nm = Some e" "entry_for e (Dir_node k)"
        and al: "alloc_inv s fl (node_chain (Dir_node k) # [c] # map (chain_of L) qs)"
      using object_context [OF inv, of d nm "Dir_node k"] n Dir_node p by metis
    have "fat_exec (Unlink p) s = Inr (-1, s)"
      using locate_entry [OF al _ folder_resolves [OF inv c] layout_dir(6) [OF inv c] e(1) plain_nameD(2) [OF nm]]
        e(2) by (simp add: fat_unlink_def p DIR_ENTRY_TYPE_FILE_def DIR_ENTRY_TYPE_SUBDIR_def del: path_of_append)
    moreover have "fs_spec (tree_of s L) (Unlink p) (-1) (tree_of s L)"
      using n Dir_node by (intro fs_spec.unlink_folder) simp
    moreover have "-1 = no_space (Unlink p) \<longleftrightarrow> length fl < demand s L (Unlink p)"
      unfolding no_space.simps demand.simps using errno_distinct(3) by blast
    ultimately show ?thesis by (intro refinesI [OF _ inv refl])
  qed
qed

lemma refines_rmdir:
  assumes inv: "tree_inv s fl L" and ok: "op_ok s fl L (Rmdir p)"
  shows "refines (Rmdir p) s fl L"
proof -
  obtain d nm where p: "p = d @ [nm]" using ok by (cases p rule: rev_cases) auto
  obtain k where k: "L p = Some (Dir_node k)" using ok by (auto simp: tree_of_Folder)
  have T: "tree_of s L p = Some Folder" using k by simp
  note ex = exec_rmdir [OF inv k [unfolded p], folded p]
  show ?thesis
  proof (cases "children (tree_of s L) p = {}")
    case True
    have "fs_spec (tree_of s L) (Rmdir p) 0 ((tree_of s L)(p := None))"
      using T True p by (intro fs_spec.rmdir) auto
    then show ?thesis using ex(1) [OF True] by (auto simp: errno_distinct intro: refinesI)
  next
    case False
    have "fs_spec (tree_of s L) (Rmdir p) (- ENOTEMPTY) (tree_of s L)"
      using T False by (rule fs_spec.rmdir_full)
    moreover have "- ENOTEMPTY = no_space (Rmdir p) \<longleftrightarrow> length fl < demand s L (Rmdir p)"
      unfolding no_space.simps demand.simps using errno_distinct(1) by blast
    moreover have "fat_exec (Rmdir p) s = Inr (- ENOTEMPTY, s)" using ex(2) [OF False] by simp
    ultimately show ?thesis by (intro refinesI [OF _ inv refl])
  qed
qed

lemma refines_spec:
  assumes "tree_inv s fl L" and "op_ok s fl L opr"
  shows "refines opr s fl L"
proof (cases opr)
  case (Mkdir p)
  then show ?thesis using assms refines_mkdir by (simp only:)
next
  case (Mknod p mode)
  then show ?thesis using assms refines_mknod by (simp only:)
next
  case (Create p mode)
  then show ?thesis using assms refines_create by (simp only:)
next
  case (Write p data offset)
  then show ?thesis using assms refines_write by (simp only:)
next
  case (Truncate p n)
  then show ?thesis using assms refines_truncate by (simp only:)
next
  case (Unlink p)
  then show ?thesis using assms refines_unlink by (simp only:)
next
  case (Rmdir p)
  then show ?thesis using assms refines_rmdir by (simp only:)
qed

end
