(* ===== verification/Runs_Traces.thy ===== *)
theory Runs_Traces
  imports Main
begin

text \<open>
  Runs of a program with their traces, and the interface between a program and its specification:
  if every visible step is a step of the specification with the same label, and every silent step
  leaves the abstract state alone, the traces of the program are traces of the specification.
\<close>

section \<open>Runs and traces\<close>

inductive run_of :: "('s \<Rightarrow> 'l option \<Rightarrow> 's \<Rightarrow> bool) \<Rightarrow> 's \<Rightarrow> 'l list \<Rightarrow> 's \<Rightarrow> bool" for step where
  start: "run_of step s [] s"
| visible: "run_of step s ls t \<Longrightarrow> step t (Some l) u \<Longrightarrow> run_of step s (ls @ [l]) u"
| silent: "run_of step s ls t \<Longrightarrow> step t None u \<Longrightarrow> run_of step s ls u"

inductive trace_of :: "('a \<Rightarrow> 'l \<Rightarrow> 'a \<Rightarrow> bool) \<Rightarrow> 'a \<Rightarrow> 'l list \<Rightarrow> 'a \<Rightarrow> bool" for spec where
  start: "trace_of spec a [] a"
| further: "trace_of spec a ls b \<Longrightarrow> spec b l c \<Longrightarrow> trace_of spec a (ls @ [l]) c"

lemma trace_of_append:
  "trace_of spec b ls' c \<Longrightarrow> trace_of spec a ls b \<Longrightarrow> trace_of spec a (ls @ ls') c"
proof (induction rule: trace_of.induct)
  case (further b ls' c l d)
  then show ?case using trace_of.further [of spec a "ls @ ls'" c l d] by simp
qed simp

text \<open>A trace whose steps are traces themselves is one trace.\<close>

lemma trace_of_concat: "trace_of (trace_of spec) a lss b \<Longrightarrow> trace_of spec a (concat lss) b"
proof (induction rule: trace_of.induct)
  case (further a lss b ls c)
  then show ?case using trace_of_append [of spec b ls c a "concat lss"] by simp
qed (simp add: trace_of.start)

lemma trace_of_invariant:
  assumes "\<And>a l b. spec a l b \<Longrightarrow> P a \<Longrightarrow> P b"
  shows "trace_of spec a ls b \<Longrightarrow> P a \<Longrightarrow> P b"
  by (induction rule: trace_of.induct) (use assms in blast)+

section \<open>The interface\<close>

locale simulation =
  fixes rel :: "'s \<Rightarrow> 'a \<Rightarrow> bool"
    and step :: "'s \<Rightarrow> 'l option \<Rightarrow> 's \<Rightarrow> bool"
    and spec :: "'a \<Rightarrow> 'l \<Rightarrow> 'a \<Rightarrow> bool"
  assumes visible: "rel s a \<Longrightarrow> step s (Some l) t \<Longrightarrow> \<exists>b. spec a l b \<and> rel t b"
    and silent: "rel s a \<Longrightarrow> step s None t \<Longrightarrow> rel t a"
begin

lemma runs: "run_of step s ls t \<Longrightarrow> rel s a \<Longrightarrow> \<exists>b. trace_of spec a ls b \<and> rel t b"
proof (induction rule: run_of.induct)
  case (start s)
  then show ?case by (blast intro: trace_of.start)
next
  case (visible s ls t l u)
  then obtain b where "trace_of spec a ls b" "rel t b" by blast
  moreover from simulation.visible [OF simulation_axioms this(2) visible(2)]
  obtain c where "spec b l c" "rel u c" by blast
  ultimately show ?case by (blast intro: trace_of.further)
next
  case (silent s ls t u)
  then show ?case using simulation.silent [OF simulation_axioms] by blast
qed

end

end
