(* ===== verification/Fat_Runs.thy ===== *)
theory Fat_Runs
  imports Fat_Refine Fat_Example Runs_Traces
begin

text \<open>
  Runs of the file system: operations within their limits, the passing of time and of heap
  contents between them, and unmounting and mounting again. Every run of the program is a run
  of the specification. The queries are answered from the tree alone.
\<close>

section \<open>Between operations\<close>

text \<open>The clock moves and the bytes behind a heap buffer change; neither is part of the tree.\<close>

definition env_change :: "(nat \<Rightarrow> byte) \<Rightarrow> u64 \<Rightarrow> fs \<Rightarrow> fs" where
  "env_change h c s = s\<lparr>heap_tail := h, clock := c\<rparr>"

lemma env_change_simps [simp]:
  "superblock (env_change h c s) = superblock s" "sb_pad (env_change h c s) = sb_pad s"
  "fat_table (env_change h c s) = fat_table s" "disk (env_change h c s) = disk s"
  "geometry (env_change h c s) = geometry s" "data_cluster (env_change h c s) = data_cluster s"
  "cluster_data (env_change h c s) = cluster_data s" "synced (env_change h c s) = synced s"
  "slot_count (env_change h c s) = slot_count s"
  by (simp_all add: env_change_def geometry_def synced_def sb_image_def data_cluster_def [abs_def]
    cluster_data_def [abs_def] slot_count_def)

lemma env_change_chains [simp]:
  "fat_next (env_change h c s) = fat_next s" "chain (env_change h c s) = chain s"
  "free_list (env_change h c s) = free_list s" "alloc_inv (env_change h c s) = alloc_inv s"
  "file_bytes (env_change h c s) = file_bytes s"
proof -
  show nx: "fat_next (env_change h c s) = fat_next s" by (rule fat_next_cong) simp_all
  then show ch: "chain (env_change h c s) = chain s" by (simp add: chain_def [abs_def])
  then show fr: "free_list (env_change h c s) = free_list s" by (simp add: free_list_def [abs_def])
  show "alloc_inv (env_change h c s) = alloc_inv s" by (simp add: alloc_inv_def [abs_def] ch fr)
  show "file_bytes (env_change h c s) = file_bytes s" by (simp add: file_bytes_def [abs_def])
qed

lemma find_cong_nth:
  "length xs = length ys \<Longrightarrow> \<forall>i < length xs. xs ! i = ys ! i \<or> \<not> P (xs ! i) \<and> \<not> P (ys ! i) \<Longrightarrow>
   List.find P xs = List.find P ys"
proof (induction xs ys rule: list_induct2)
  case (Cons x xs y ys)
  have "x = y \<or> \<not> P x \<and> \<not> P y" using Cons.prems by (auto dest: spec [of _ 0])
  moreover have "\<forall>i < length xs. xs ! i = ys ! i \<or> \<not> P (xs ! i) \<and> \<not> P (ys ! i)"
    using Cons.prems by (auto dest: spec [of _ "Suc _"])
  ultimately show ?case using Cons.IH by auto
qed simp

lemma env_slot:
  assumes "geometry s" and "data_cluster s c" and "dir_ok s [c]" and "k < slot_count s"
  shows "cluster_slots (env_change h w s) c ! k = cluster_slots s c ! k \<or>
    entry_name (cluster_slots (env_change h w s) c ! k) = [] \<and> entry_name (cluster_slots s c ! k) = []"
    and "entry_name (cluster_slots (env_change h w s) c ! k) = entry_name (cluster_slots s c ! k)"
    and "slot_ok (env_change h w s) c k"
proof -
  let ?t = "env_change h w s" and ?d = "cluster_data s c"
  have len: "length ?d = sb_bpc s" using assms(1,2) by simp
  have slot: "cluster_slots s c ! k = read_slot s ?d (40 * k)" "cluster_slots ?t c ! k = read_slot ?t ?d (40 * k)"
    using assms(4) by (simp_all add: nth_cluster_slots)
  have ok: "slot_ok s c k" using assms(3,4) by (simp add: dir_ok_def)
  have both: "cluster_slots ?t c ! k = cluster_slots s c ! k \<or>
      entry_name (cluster_slots ?t c ! k) = [] \<and> entry_name (cluster_slots s c ! k) = [] \<and>
      de_name (cluster_slots ?t c ! k) ! 0 = 0"
  proof (cases "40 * k + 40 \<le> sb_bpc s")
    case True
    then show ?thesis unfolding slot using len by (simp add: read_slot_full)
  next
    case False
    have "40 * k < length ?d" using slot_inside [OF assms(4)] len by simp
    then have "de_name (read_slot ?t ?d (40 * k)) ! 0 = de_name (read_slot s ?d (40 * k)) ! 0"
      by (simp add: slot_name_0)
    moreover have "de_name (read_slot s ?d (40 * k)) ! 0 = 0"
      using ok False slot by (simp add: slot_ok_def)
    ultimately show ?thesis unfolding slot by (simp add: entry_name_Nil)
  qed
  show "cluster_slots ?t c ! k = cluster_slots s c ! k \<or>
    entry_name (cluster_slots ?t c ! k) = [] \<and> entry_name (cluster_slots s c ! k) = []"
    "entry_name (cluster_slots ?t c ! k) = entry_name (cluster_slots s c ! k)"
    using both by auto
  have "length (de_name (cluster_slots ?t c ! k)) = 22" unfolding slot by simp
  then have "de_name (cluster_slots ?t c ! k) ! 0 = 0 \<Longrightarrow> 0 \<in> set (de_name (cluster_slots ?t c ! k))"
    by (metis nth_mem zero_less_numeral)
  then show "slot_ok ?t c k" using ok both by (auto simp: slot_ok_def)
qed

lemma env_dir:
  assumes "geometry s" and "data_cluster s c" and "dir_ok s [c]"
  shows "dir_ok (env_change h w s) [c]" and "unique_names s [c] \<Longrightarrow> unique_names (env_change h w s) [c]"
    and "nm \<noteq> [] \<Longrightarrow> dir_lookup (env_change h w s) [c] nm = dir_lookup s [c] nm"
proof -
  note e = env_slot [OF assms]
  show "dir_ok (env_change h w s) [c]" using e(3) by (simp add: dir_ok_def)
  show "unique_names (env_change h w s) [c]" if "unique_names s [c]"
    using that e(2) by (simp add: unique_names_def dir_slots_single)
  show "dir_lookup (env_change h w s) [c] nm = dir_lookup s [c] nm" if "nm \<noteq> []"
    unfolding dir_lookup_def dir_slots_single using e(1) that by (intro find_cong_nth) auto
qed

lemma tree_inv_env:
  assumes inv: "tree_inv s fl L"
  shows "tree_inv (env_change h w s) fl L" and "tree_of (env_change h w s) L = tree_of s L"
proof -
  have "dir_holds (env_change h w s) L p c" if c: "L p = Some (Dir_node c)" for p c
    using env_dir [OF layout_dir(1,4,6) [OF inv c]] dir_holdsD [OF tree_invD(6) [OF inv c]]
    by (simp add: dir_holds_def special_def)
  then show "tree_inv (env_change h w s) fl L"
    using inv by (simp add: tree_inv_def layout_alloc_def layout_covers_def)
  have "obj_of (env_change h w s) n = obj_of s n" for n by (cases n) simp_all
  then show "tree_of (env_change h w s) L = tree_of s L"
    by (auto simp: tree_of_def fun_eq_iff option.map_comp intro: option.map_cong)
qed

section \<open>Runs\<close>

text \<open>
  A run with its trace: the operations in their order, each with the value it returned. Between
  them the clock and the heap may change, and the disk may be unmounted and mounted again.
\<close>

type_synonym trace = "(fs_op \<times> int) list"

inductive fs_step :: "fs \<Rightarrow> (fs_op \<times> int) option \<Rightarrow> fs \<Rightarrow> bool" where
  operation: "tree_inv s fl L \<Longrightarrow> op_ok s fl L opr \<Longrightarrow> fat_exec opr s = Inr (r, t) \<Longrightarrow>
    fs_step s (Some (opr, r)) t"
| environment: "fs_step s None (env_change h c s)"
| remount: "length (sb_pad b) = 488 \<Longrightarrow> fat_init (Some (disk s)) b = Inr t \<Longrightarrow> fs_step s None t"

inductive_cases fs_step_visibleE: "fs_step s (Some l) t"
inductive_cases fs_step_silentE: "fs_step s None t"

fun spec_step :: "tree \<Rightarrow> fs_op \<times> int \<Rightarrow> tree \<Rightarrow> bool" where
  "spec_step T (opr, r) T' = fs_spec T opr r T'"

abbreviation fs_run :: "fs \<Rightarrow> trace \<Rightarrow> fs \<Rightarrow> bool" where
  "fs_run \<equiv> run_of fs_step"

abbreviation spec_run :: "tree \<Rightarrow> trace \<Rightarrow> tree \<Rightarrow> bool" where
  "spec_run \<equiv> trace_of spec_step"

lemma fs_run_operation:
  "fs_run s tr t \<Longrightarrow> tree_inv t fl L \<Longrightarrow> op_ok t fl L opr \<Longrightarrow> fat_exec opr t = Inr (r, u) \<Longrightarrow>
   fs_run s (tr @ [(opr, r)]) u"
  by (rule run_of.visible) (auto intro: fs_step.operation)

lemma remount_env:
  assumes "tree_inv s fl L" and "length (sb_pad b) = 488"
  shows "fat_init (Some (disk s)) b = Inr (env_change (heap_tail b) (clock b) s)"
  using fat_init_again [OF layout_chain(1,2) [OF tree_invD(1,3) [OF assms(1)]] assms(2)]
  by (simp add: env_change_def)

lemma represents_env: "represents s T \<Longrightarrow> represents (env_change h c s) T"
  unfolding represents_def using tree_inv_env by metis

lemma remount_represents:
  assumes "represents s T" and "length (sb_pad b) = 488"
  shows "\<exists>t. fat_init (Some (disk s)) b = Inr t \<and> represents t T \<and> disk t = disk s"
proof -
  obtain fl L where "tree_inv s fl L" using assms(1) by (auto simp: represents_def)
  from remount_env [OF this assms(2)] show ?thesis using represents_env [OF assms(1)] by simp
qed

interpretation fat: simulation represents fs_step spec_step
proof
  fix s T l t
  assume rep: "represents s T" and st: "fs_step s (Some l) t"
  from st show "\<exists>T'. spec_step T l T' \<and> represents t T'"
  proof (rule fs_step_visibleE)
    fix fl L opr r
    assume l: "l = (opr, r)" and inv: "tree_inv s fl L" and ok: "op_ok s fl L opr"
      and run: "fat_exec opr s = Inr (r, t)"
    have T: "T = tree_of s L" using rep represents_tree [OF inv] by simp
    obtain fl' L' where "tree_inv t fl' L'" "fs_spec T opr r (tree_of t L')"
      using refines_spec [OF inv ok] run unfolding refines_def T by auto
    then show ?thesis unfolding l represents_def by auto
  qed
next
  fix s T t
  assume rep: "represents s T" and st: "fs_step s None t"
  from st show "represents t T"
  proof (rule fs_step_silentE)
    fix h c assume "t = env_change h c s"
    then show ?thesis using represents_env [OF rep] by simp
  next
    fix b assume "length (sb_pad b) = 488" "fat_init (Some (disk s)) b = Inr t"
    then show ?thesis using remount_represents [OF rep, of b] by auto
  qed
qed

lemma fs_run_refines: "fs_run s tr t \<Longrightarrow> represents s T \<Longrightarrow> \<exists>T'. represents t T' \<and> spec_run T tr T'"
  using fat.runs by blast

lemma spec_run_wf: "spec_run T tr T' \<Longrightarrow> tree_wf T \<Longrightarrow> tree_wf T'"
  by (rule trace_of_invariant [where spec = spec_step]) (auto intro: fs_spec_wf)

section \<open>The freshly formatted disk\<close>

definition root_layout :: layout where
  "root_layout = [[] \<mapsto> Dir_node 4]"

definition empty_tree :: tree where
  "empty_tree = [[] \<mapsto> Folder]"

lemma formatted_tree:
  assumes "length (sb_pad s) = 488"
  shows "\<exists>t. fat_init None s = Inr t \<and> tree_inv t all_free root_layout \<and> tree_of t root_layout = empty_tree"
proof -
  obtain t where t: "fat_init None s = Inr t" "alloc_inv t all_free [[4]]" "superblock t = default_superblock"
      "dir_ok t [4]" "unique_names t [4]" "dir_empty t [4]"
      "dir_lookup t [4] dot = Some (new_dir_entry s dot 4 DIR_ENTRY_TYPE_SUBDIR)"
      "dir_lookup t [4] dotdot = Some (new_dir_entry s dotdot 4 DIR_ENTRY_TYPE_SUBDIR)"
    using fat_init_new [OF assms] by blast
  have "layout_alloc t all_free root_layout"
    unfolding layout_alloc_def using t(2)
    by (intro exI [of _ "[[]]"]) (simp add: root_layout_def chain_of_def)
  moreover have "layout_covers t all_free root_layout"
    unfolding layout_covers_def
  proof (intro allI impI)
    fix c assume "data_cluster t c"
    then have "4 \<le> unat c" "unat c < 2560" using t(3) by (simp_all add: data_cluster_def)
    then have "c = 4 \<or> c \<in> set all_free"
      by (auto simp: set_all_free word_unat_eq_iff)
    then show "c \<in> set all_free \<or> (\<exists>p. c \<in> set (chain_of root_layout p))"
      by (auto simp: root_layout_def chain_of_def intro!: exI [of _ "[]"])
  qed
  moreover have "dir_holds t root_layout [] 4"
    using t(4-8) dir_empty_lookup [OF t(6)]
    by (simp add: dir_holds_def root_layout_def new_dir_entry_def)
  ultimately have "tree_inv t all_free root_layout"
    using t(3) by (auto simp: tree_inv_def root_layout_def)
  moreover have "tree_of t root_layout = empty_tree"
    by (auto simp: tree_of_def root_layout_def empty_tree_def fun_eq_iff)
  ultimately show ?thesis using t(1) by blast
qed

end
