(* ===== verification/Fat_Queries.thy ===== *)
theory Fat_Queries
  imports Fat_Runs
begin

text \<open>
  The queries of the file system on a state that represents a tree: attributes, access, listing,
  reading and statistics follow from the tree, for every path of plain names, whether its
  directories exist or not. Also the number of clusters, which no operation changes.
\<close>

section \<open>Attributes\<close>

text \<open>The path that FUSE passes: the root is a slash.\<close>

definition fuse_path :: "fs_path \<Rightarrow> cstring" where
  "fuse_path p = (if p = [] then [slash] else path_of p)"

lemma fuse_path_snoc: "fuse_path (d @ [nm]) = path_of (d @ [nm])"
  by (simp add: fuse_path_def)

fun mode_of :: "obj \<Rightarrow> u32" where
  "mode_of Folder = or (or (or S_IFDIR S_IRWXU) S_IRWXG) S_IRWXO"
| "mode_of (Plain bs) = or (or (or S_IRWXU S_IRWXG) S_IRWXO) S_IFREG"

fun size_of :: "fs \<Rightarrow> obj \<Rightarrow> int" where
  "size_of s Folder = int (sb_bpc s)"
| "size_of s (Plain bs) = int (length bs)"

lemma count_single:
  assumes "geometry s" and "chain s c [c]"
  shows "count_cluster_in_chain s c = Inr 1"
  using count_cluster_ok [OF assms] by (simp add: One_nat_def)

lemma folder_mode: "or (or (or S_IRWXU S_IRWXG) S_IRWXO) S_IFDIR = mode_of Folder"
  by (simp add: S_IFDIR_def S_IRWXU_def S_IRWXG_def S_IRWXO_def)

lemma getattr_layout:
  assumes inv: "tree_inv s fl L" and p: "\<forall>nm \<in> set p. plain_name nm"
  shows "case tree_of s L p of
      None \<Rightarrow> fat_getattr (fuse_path p) stbuf s = Inr (- ENOENT, stbuf)
    | Some x \<Rightarrow> \<exists>st. fat_getattr (fuse_path p) stbuf s = Inr (0, st) \<and>
        st_mode st = mode_of x \<and> st_size st = size_of s x \<and> st_nlink st = 2"
proof (cases p rule: rev_cases)
  case Nil
  let ?r = "root_cluster_start (superblock s)"
  note L = tree_invD(3) [OF inv]
  have "count_cluster_in_chain s ?r = Inr 1"
    using layout_dir(1,2) [OF inv L] by (rule count_single)
  moreover have "strcmp_sign [slash] [slash] = 0" by simp
  ultimately show ?thesis
    using L Nil by (simp add: fat_getattr_def fuse_path_def Let_def)
next
  case (snoc d nm)
  obtain found where f: "find_dir_entry_by_path s (path_of (d @ [nm])) = Inr found"
      "entry_matches found (L (d @ [nm]))"
    using layout_find [OF inv, of d nm] p snoc by auto
  have nm: "nm \<noteq> []" using p snoc plain_nameD(5) by auto
  note unfold = fat_getattr_def fuse_path_snoc Let_def path_not_root [OF nm, of d] f(1)
  show ?thesis
  proof (cases "L p")
    case None
    then have "found = None" using f(2) snoc by simp
    then show ?thesis using None snoc by (simp add: unfold del: path_of_append)
  next
    case (Some n)
    then obtain e where e: "found = Some e" "entry_for e n"
      using f(2) snoc by (auto elim: entry_matchesE)
    show ?thesis
    proof (cases n)
      case (Dir_node c)
      have "count_cluster_in_chain s c = Inr 1"
        using layout_dir(1,2) [OF inv, of p c] Some Dir_node count_single by simp
      then show ?thesis using Some snoc e Dir_node by (simp add: unfold folder_mode del: path_of_append)
    next
      case (File_node cs k)
      then have "uint (de_size e) = int k" using e(2) by (simp only: uint_nat entry_for.simps)
      with File_node show ?thesis
        using Some snoc e layout_file_length [OF inv, of p cs k]
        by (simp add: unfold DIR_ENTRY_TYPE_FILE_def DIR_ENTRY_TYPE_SUBDIR_def del: path_of_append)
    qed
  qed
qed

lemma access_layout:
  assumes inv: "tree_inv s fl L" and p: "\<forall>nm \<in> set p. plain_name nm" "p \<noteq> []"
  shows "fat_access (fuse_path p) s = Inr (if tree_of s L p = None then - ENOENT else 0)"
    and "fat_open (fuse_path p) s = Inr (if tree_of s L p = None then - ENOENT else 0)"
proof -
  obtain d nm where snoc: "p = d @ [nm]" using p(2) by (cases p rule: rev_cases) auto
  obtain found where f: "find_dir_entry_by_path s (path_of (d @ [nm])) = Inr found"
      "entry_matches found (L (d @ [nm]))"
    using layout_find [OF inv, of d nm] p snoc by auto
  have nm: "nm \<noteq> []" using p snoc plain_nameD(5) by auto
  have "found = None \<longleftrightarrow> L p = None"
    using f(2) snoc by (auto simp: entry_matches_def split: option.splits)
  then show "fat_access (fuse_path p) s = Inr (if tree_of s L p = None then - ENOENT else 0)"
    "fat_open (fuse_path p) s = Inr (if tree_of s L p = None then - ENOENT else 0)"
    using f(1) path_not_root [OF nm, of d]
    by (simp_all add: fat_access_def fat_open_def snoc fuse_path_snoc del: path_of_append)
qed

section \<open>Listing\<close>

lemma distinct_map_filter_nth:
  assumes "\<forall>i < length xs. \<forall>j < length xs. f (xs ! i) = f (xs ! j) \<longrightarrow> P (xs ! i) \<longrightarrow> i = j"
  shows "distinct (map f (filter P xs))"
  using assms
proof (induction xs)
  case (Cons x xs)
  have "\<forall>i < length xs. \<forall>j < length xs. f (xs ! i) = f (xs ! j) \<longrightarrow> P (xs ! i) \<longrightarrow> i = j"
    using Cons.prems by (metis (no_types, lifting) Suc_inject Suc_less_eq length_Cons nth_Cons_Suc)
  then have "distinct (map f (filter P xs))" by (rule Cons.IH)
  moreover have "f x \<notin> f ` set (filter P xs)" if "P x"
  proof
    assume "f x \<in> f ` set (filter P xs)"
    then obtain j where "j < length xs" "f x = f (xs ! j)" by (auto simp: in_set_conv_nth)
    then show False using Cons.prems [rule_format, of 0 "Suc j"] that by simp
  qed
  ultimately show ?case by simp
qed simp

lemma listing_layout:
  assumes inv: "tree_inv s fl L" and c: "L p = Some (Dir_node c)"
  defines "names \<equiv> map entry_name (filter (\<lambda>e. entry_name e \<noteq> []) (dir_slots s [c]))"
  shows "distinct names" and "set names = {dot, dotdot} \<union> children (tree_of s L) p"
proof -
  let ?es = "dir_slots s [c]" and ?P = "\<lambda>e. entry_name e \<noteq> []"
  note h = dir_holdsD [OF tree_invD(6) [OF inv c]]
  show "distinct names"
    unfolding names_def using h(2) by (intro distinct_map_filter_nth) (auto simp: unique_names_def)
  have ex: "nm \<in> entry_name ` set ?es \<longleftrightarrow> dir_lookup s [c] nm \<noteq> None" for nm
    by (auto simp: dir_lookup_def find_None_iff)
  have nm: "nm \<in> entry_name ` set ?es \<longleftrightarrow> nm = dot \<or> nm = dotdot \<or> nm \<in> children (tree_of s L) p"
    if "nm \<noteq> []" for nm
  proof (cases "special nm")
    case True
    have "L (butlast p) \<noteq> None"
    proof (cases p rule: rev_cases)
      case (snoc q x)
      then show ?thesis using tree_invD(5) [OF inv, of q x] c by auto
    qed (use c in simp)
    then have "dir_lookup s [c] nm \<noteq> None"
      using h(3,4) that True by (auto simp: special_def entry_matches_def split: option.splits)
    then show ?thesis using True that ex by (auto simp: special_def)
  next
    case False
    then show ?thesis
      using h(5) [OF False] ex [of nm]
      by (auto simp: special_def children_tree entry_matches_def split: option.splits)
  qed
  have "[] \<notin> children (tree_of s L) p"
    using tree_invD(4) [OF inv, of p "[]"] plain_nameD(5) by (cases "L (p @ [[]])") (auto simp: children_tree)
  then have "nm \<in> entry_name ` set ?es - {[]} \<longleftrightarrow> nm \<in> {dot, dotdot} \<union> children (tree_of s L) p" for nm
    using nm [of nm] by (cases "nm = []") (auto simp: dot_def dotdot_def)
  then have "entry_name ` set ?es - {[]} = {dot, dotdot} \<union> children (tree_of s L) p" by (rule set_eqI)
  moreover have "set names = entry_name ` set ?es - {[]}" by (auto simp: names_def)
  ultimately show "set names = {dot, dotdot} \<union> children (tree_of s L) p"
    by (rule trans [rotated])
qed

lemma fuse_path_readdir:
  "fat_readdir (fuse_path p) buf filler offset s = fat_readdir (path_of p) buf filler offset s"
  by (cases p) (simp_all add: fuse_path_def fat_readdir_def find_first_cluster_by_path_def)

lemma readdir_layout:
  assumes inv: "tree_inv s fl L" and c: "L p = Some (Dir_node c)"
  shows "\<exists>names. fat_readdir (fuse_path p) [] (\<lambda>b nm off. (0, b @ [nm])) 0 s = Inr (0, names) \<and>
    distinct names \<and> set names = {dot, dotdot} \<union> children (tree_of s L) p"
  using listing_layout [OF inv c] layout_dir(2,6) [OF inv c]
    fat_readdir_ok [OF layout_dir(1) [OF inv c] folder_resolves [OF inv c],
      where filler = "\<lambda>b nm off. (0, b @ [nm])"]
  by (simp add: fuse_path_readdir list_slots_names del: path_of.simps)

section \<open>Reading\<close>

text \<open>
  What a read returns: the clusters that the range touches are read from their beginning, so
  that the offset within the first of them is lost.
\<close>

definition read_bytes :: "nat \<Rightarrow> byte list \<Rightarrow> nat \<Rightarrow> nat \<Rightarrow> byte list" where
  "read_bytes b bs off n =
     (let m = min n (b - off mod b)
      in slice (off div b * b) m bs @ slice (Suc (off div b) * b) (n - m) bs)"

lemma read_bytes_aligned: "off mod b = 0 \<Longrightarrow> read_bytes b bs off n = slice off n bs"
proof -
  assume a: "off mod b = 0"
  then have off: "off div b * b = off" using div_mult_mod_eq [of off b] by simp
  then have "Suc (off div b) * b = off + b" by simp
  then show ?thesis
    using slice_adjacent [of off b bs "n - b"] a off by (cases "n \<le> b") (auto simp: read_bytes_def slice_def add.commute)
qed

lemma slice_take: "off + n \<le> k \<Longrightarrow> slice off n (take k bs) = slice off n bs"
  by (simp add: slice_def drop_take min_absorb1)

lemma read_result_take:
  assumes "off + n \<le> k" and "0 < sb_bpc s"
  shows "read_result s cs off n = read_bytes (sb_bpc s) (take k (file_bytes s cs)) off n"
proof -
  let ?b = "sb_bpc s" and ?B = "file_bytes s cs"
  let ?m = "min n (?b - off mod ?b)"
  have "off div ?b * ?b + ?m \<le> k"
    using assms(1) div_mult_mod_eq [of off ?b] by linarith
  moreover have "slice (Suc (off div ?b) * ?b) (n - ?m) (take k ?B) = slice (Suc (off div ?b) * ?b) (n - ?m) ?B"
  proof (cases "?m = n")
    case False
    then have "?m = ?b - off mod ?b" by simp
    moreover have "off mod ?b < ?b" using assms(2) by simp
    ultimately have "Suc (off div ?b) * ?b + (n - ?m) = off + n"
      using div_mult_mod_eq [of off ?b] False by simp
    then show ?thesis using assms(1) by (intro slice_take) simp
  qed (simp add: slice_def)
  ultimately show ?thesis
    by (simp add: read_result_def read_bytes_def Let_def slice_take)
qed

lemma read_layout:
  fixes sz offset :: u64
  assumes inv: "tree_inv s fl L" and T: "tree_of s L p = Some (Plain bs)"
    and size: "0 < unat sz" "unat sz < 2 ^ 31" "unat offset < 2 ^ 63"
  defines "n \<equiv> min (length bs - unat offset) (unat sz)"
  shows "fat_read (fuse_path p) sz offset s = Inr (int n, read_bytes (sb_bpc s) bs (unat offset) n)"
proof -
  have "file_size (tree_of s L) p = Some (length bs)" using T by (simp add: file_size_def)
  from file_size_layout [OF inv this] obtain d nm cs where p: "p = d @ [nm]"
    and f: "L p = Some (File_node cs (length bs))"
    and "tree_of s L p = Some (Plain (take (length bs) (file_bytes s cs)))" .
  then have bs: "bs = take (length bs) (file_bytes s cs)" using T by simp
  obtain c e qs where c: "L d = Some (Dir_node c)" and nm: "plain_name nm"
      and e: "dir_lookup s [c] nm = Some e" "entry_for e (File_node cs (length bs))"
    using object_context [OF inv f [unfolded p]] by metis
  note dir = layout_dir [OF inv c] and cells = layout_chain [OF tree_invD(1) [OF inv] f]
  have b: "0 < sb_bpc s" using geometryD(2) [OF dir(1)] by simp
  note path = fuse_path_snoc [of d nm, folded p]
  show ?thesis
  proof (cases "unat offset < length bs")
    case True
    have w: "chain s (hd [c]) [c]" "[c] \<noteq> []" "chain s (de_first_cluster e) cs"
      "unat (de_size e) \<le> length cs * sb_bpc s" "unat sz < 2 ^ 32" "unat offset < unat (de_size e)"
      using dir(2) e(2) cells(5) tree_invD(7) [OF inv f] size True by simp_all
    have n: "n = min (unat (de_size e) - unat offset) (unat sz)" "n < 2 ^ 31" "unat offset + n \<le> length bs"
      using e(2) True size(2) by (simp_all add: n_def)
    have "fat_read (path_of (d @ [nm])) sz offset s =
        Inr (sint (of_nat n :: u32), read_result s cs (unat offset) n)"
      unfolding n(1)
      by (rule fat_read_ok [OF dir(1) w(1,2) dir(6) folder_resolves [OF inv c] plain_nameD(2,5) [OF nm]
            e(1) w(3,4) size(1) w(5,6)])
    moreover have "sint (of_nat n :: u32) = int n"
      using n(2) by (simp add: sint_u32 unat_of_nat)
    ultimately show ?thesis
      using read_result_take [OF n(3) b, of cs] bs path p by simp
  next
    case False
    have off: "uint (de_size e) \<le> sint offset"
      using False e(2) sint_u64 [OF size(3)] by (simp only: uint_nat entry_for.simps)
    have "find_dir_entry_by_path s (path_of (d @ [nm])) = Inr (Some e)"
      using find_by_path_ok [OF dir(1) folder_resolves [OF inv c] _ _ plain_nameD(2,5-7) [OF nm], of "[c]"]
        dir(2,3) e(1) by simp
    then have "fat_read (path_of (d @ [nm])) sz offset s = Inr (0, [])"
      using off path_not_root [OF plain_nameD(5) [OF nm], of d]
      by (simp add: fat_read_def del: path_of_append)
    moreover have "n = 0" using False by (simp add: n_def)
    ultimately show ?thesis using path p by (simp add: read_bytes_def slice_def)
  qed
qed

section \<open>Clusters in use\<close>

text \<open>No cluster is lost: the free ones and those of all objects are all there are.\<close>

definition used_clusters :: "layout \<Rightarrow> nat" where
  "used_clusters L = (\<Sum>p \<in> dom L. length (chain_of L p))"

lemma card_data_clusters:
  assumes "geometry s"
  shows "card {c. data_cluster s c} = sb_count s - sb_fatlen s - 1"
proof -
  have "(unat :: u32 \<Rightarrow> nat) ` {c. data_cluster s c} = {1 + sb_fatlen s ..< sb_count s}"
  proof (rule set_eqI, rule iffI)
    fix n assume "n \<in> {1 + sb_fatlen s ..< sb_count s}"
    moreover have "sb_count s < 2 ^ 32" using unat_u32_bound [of "cluster_count (superblock s)"] by simp
    ultimately have "unat (of_nat n :: u32) = n" "data_cluster s (of_nat n)"
      by (simp_all add: data_cluster_def unat_of_nat)
    then show "n \<in> (unat :: u32 \<Rightarrow> nat) ` {c. data_cluster s c}" by (metis imageI mem_Collect_eq)
  qed (auto simp: data_cluster_def)
  moreover have "inj_on (unat :: u32 \<Rightarrow> nat) {c. data_cluster s c}"
    by (simp add: inj_on_def word_unat_eq_iff)
  ultimately show ?thesis using card_image by fastforce
qed

lemma clusters_accounted:
  assumes inv: "tree_inv s fl L"
  shows "length fl + used_clusters L = sb_count s - sb_fatlen s - 1"
proof -
  obtain ps where ps: "distinct ps" "set ps = dom L" "alloc_inv s fl (map (chain_of L) ps)"
    using tree_invD(1) [OF inv] unfolding layout_alloc_def by blast
  note i = alloc_invD [OF ps(3)]
  let ?all = "fl @ concat (map (chain_of L) ps)"
  have "set ?all = {c. data_cluster s c}"
  proof (rule set_eqI, rule iffI)
    fix c assume "c \<in> set ?all"
    then consider "c \<in> set fl" | p where "p \<in> set ps" "c \<in> set (chain_of L p)" by auto
    then show "c \<in> {c. data_cluster s c}"
    proof cases
      case 1
      then show ?thesis using i(3) by (auto simp: free_list_def dest: chain_data)
    next
      case 2
      then show ?thesis using i(5) [of "chain_of L p"] by (auto dest: chain_data)
    qed
  next
    fix c assume "c \<in> {c. data_cluster s c}"
    then consider "c \<in> set fl" | p where "c \<in> set (chain_of L p)"
      using tree_invD(2) [OF inv] by (auto simp: layout_covers_def)
    then show "c \<in> set ?all"
    proof cases
      case 2
      then have "p \<in> set ps" using ps(2) by (cases "L p") auto
      then show ?thesis using 2 by auto
    qed simp
  qed
  then have "length ?all = card {c. data_cluster s c}"
    using distinct_card [OF i(7)] by simp
  moreover have "length (concat (map (chain_of L) ps)) = used_clusters L"
    using ps(1,2) by (simp add: length_concat used_clusters_def sum_list_distinct_conv_sum_set o_def)
  ultimately show ?thesis using card_data_clusters [OF i(1)] by simp
qed

lemma statfs_layout:
  assumes inv: "tree_inv s fl L"
  shows "\<exists>st. fat_statfs s = Inr (0, st) \<and> f_bfree st = f_blocks st - int (used_clusters L)"
proof -
  note g = layout_chain(1,3) [OF tree_invD(1,3) [OF inv]]
  have "int (length fl) = int (sb_count s) - int (sb_fatlen s) - 1 - int (used_clusters L)"
    using clusters_accounted [OF inv] geometryD(5) [OF g(1)] by arith
  then show ?thesis using fat_statfs_ok [OF g] by simp
qed

end
