(* ===== verification/Fat_Fuse.thy ===== *)
theory Fat_Fuse
  imports Fat_Queries
begin

text \<open>
  The table of handlers that the program gives to FUSE (\<open>src/FAT/fat.c\<close>, lines 998 to 1017), as
  the function that serves a request, and directory listings that FUSE interrupts when its
  buffer is full and resumes at the offset of the last name it took.
\<close>

section \<open>The table of operations\<close>

datatype fuse_request =
    Req_getattr cstring
  | Req_fgetattr cstring
  | Req_access cstring
  | Req_readdir cstring u64
  | Req_mkdir cstring
  | Req_rmdir cstring
  | Req_statfs
  | Req_create cstring u32
  | Req_mknod cstring u32
  | Req_open cstring
  | Req_read cstring u64 u64
  | Req_write cstring "byte list" u64 u64
  | Req_truncate cstring u64
  | Req_release cstring
  | Req_unlink cstring
  | Req_utimens cstring

datatype 'b fuse_reply =
    Reply int
  | Reply_stat int stat
  | Reply_dir int 'b
  | Reply_statvfs int statvfs
  | Reply_data int "byte list"

definition reply_only :: "int res \<Rightarrow> fs \<Rightarrow> ('b fuse_reply \<times> fs) res" where
  "reply_only r s = bind_res r (\<lambda>r. Inr (Reply r, s))"

definition reply_changed :: "(int \<times> fs) res \<Rightarrow> ('b fuse_reply \<times> fs) res" where
  "reply_changed r = bind_res r (\<lambda>(r, s). Inr (Reply r, s))"

text \<open>\<open>filler\<close> and \<open>buf\<close> are those that FUSE passes to a listing.\<close>

fun fuse_operations ::
    "'b filler \<Rightarrow> 'b \<Rightarrow> fuse_request \<Rightarrow> fs \<Rightarrow> ('b fuse_reply \<times> fs) res" where
  "fuse_operations filler buf (Req_getattr path) s =
     bind_res (fat_getattr path zero_stat s) (\<lambda>(r, st). Inr (Reply_stat r st, s))"
| "fuse_operations filler buf (Req_fgetattr path) s =
     bind_res (fat_fgetattr path zero_stat s) (\<lambda>(r, st). Inr (Reply_stat r st, s))"
| "fuse_operations filler buf (Req_access path) s = reply_only (fat_access path s) s"
| "fuse_operations filler buf (Req_readdir path offset) s =
     bind_res (fat_readdir path buf filler offset s) (\<lambda>(r, buf). Inr (Reply_dir r buf, s))"
| "fuse_operations filler buf (Req_mkdir path) s = reply_changed (fat_mkdir path s)"
| "fuse_operations filler buf (Req_rmdir path) s = reply_changed (fat_rmdir path s)"
| "fuse_operations filler buf Req_statfs s =
     bind_res (fat_statfs s) (\<lambda>(r, st). Inr (Reply_statvfs r st, s))"
| "fuse_operations filler buf (Req_create path mode) s = reply_changed (fat_create path mode s)"
| "fuse_operations filler buf (Req_mknod path mode) s = reply_changed (fat_mknod path mode s)"
| "fuse_operations filler buf (Req_open path) s = reply_only (fat_open path s) s"
| "fuse_operations filler buf (Req_read path sz offset) s =
     bind_res (fat_read path sz offset s) (\<lambda>(r, bs). Inr (Reply_data r bs, s))"
| "fuse_operations filler buf (Req_write path data sz offset) s =
     reply_changed (fat_write path data sz offset s)"
| "fuse_operations filler buf (Req_truncate path sz) s = reply_changed (fat_truncate path sz s)"
| "fuse_operations filler buf (Req_release path) s = reply_only (Inr (fat_release path)) s"
| "fuse_operations filler buf (Req_unlink path) s = reply_changed (fat_unlink path s)"
| "fuse_operations filler buf (Req_utimens path) s = reply_only (Inr (fat_utimens path)) s"

text \<open>The request with which FUSE asks for an operation.\<close>

fun request_of :: "fs_op \<Rightarrow> fuse_request" where
  "request_of (Mkdir p) = Req_mkdir (path_of p)"
| "request_of (Mknod p mode) = Req_mknod (path_of p) mode"
| "request_of (Create p mode) = Req_create (path_of p) mode"
| "request_of (Write p data offset) =
     Req_write (path_of p) data (of_nat (length data)) (of_nat offset)"
| "request_of (Truncate p n) = Req_truncate (path_of p) (of_nat n)"
| "request_of (Unlink p) = Req_unlink (path_of p)"
| "request_of (Rmdir p) = Req_rmdir (path_of p)"

lemma fuse_change: "fuse_operations filler buf (request_of opr) s = reply_changed (fat_exec opr s)"
  by (cases opr) simp_all

text \<open>The queries that a state with the tree \<open>T\<close> can serve.\<close>

definition plain_path :: "fs_path \<Rightarrow> bool" where
  "plain_path p \<longleftrightarrow> (\<forall>nm \<in> set p. plain_name nm)"

inductive query_ok :: "tree \<Rightarrow> fuse_request \<Rightarrow> bool" where
  getattr: "plain_path p \<Longrightarrow> query_ok T (Req_getattr (fuse_path p))"
| fgetattr: "plain_path p \<Longrightarrow> query_ok T (Req_fgetattr (fuse_path p))"
| access: "plain_path p \<Longrightarrow> p \<noteq> [] \<Longrightarrow> query_ok T (Req_access (fuse_path p))"
| open_file: "plain_path p \<Longrightarrow> p \<noteq> [] \<Longrightarrow> query_ok T (Req_open (fuse_path p))"
| readdir: "T p = Some Folder \<Longrightarrow> query_ok T (Req_readdir (fuse_path p) 0)"
| read: "T p = Some (Plain bs) \<Longrightarrow> 0 < unat sz \<Longrightarrow> unat sz < 2 ^ 31 \<Longrightarrow> unat offset < 2 ^ 63 \<Longrightarrow>
    query_ok T (Req_read (fuse_path p) sz offset)"
| statfs: "query_ok T Req_statfs"
| release: "query_ok T (Req_release path)"
| utimens: "query_ok T (Req_utimens path)"

lemma getattr_returns:
  assumes "tree_inv s fl L" and "plain_path p"
  shows "\<exists>r st. fat_getattr (fuse_path p) stbuf s = Inr (r, st)"
proof -
  note g = getattr_layout [OF assms(1) assms(2) [unfolded plain_path_def], of stbuf]
  show ?thesis
  proof (cases "tree_of s L p")
    case None
    with g show ?thesis by (simp only: option.case) blast
  next
    case (Some x)
    with g show ?thesis by (simp only: option.case) blast
  qed
qed

lemma query_served:
  assumes inv: "tree_inv s fl L" and ok: "query_ok (tree_of s L) req"
  shows "\<exists>reply. fuse_operations filler buf req s = Inr (reply, s)"
  using ok
proof (cases rule: query_ok.cases)
  case (getattr p)
  then show ?thesis using getattr_returns [OF inv getattr(2), of zero_stat] by (auto simp: bind_res_Inr)
next
  case (fgetattr p)
  then show ?thesis using getattr_returns [OF inv fgetattr(2), of zero_stat] by (auto simp: fat_fgetattr_def)
next
  case (access p)
  then show ?thesis
    using access_layout(1) [OF inv, of p] by (auto simp: reply_only_def plain_path_def)
next
  case (open_file p)
  then show ?thesis
    using access_layout(2) [OF inv, of p] by (auto simp: reply_only_def plain_path_def)
next
  case (readdir p)
  then obtain c where c: "L p = Some (Dir_node c)" by (auto simp: tree_of_Folder)
  have "fat_readdir (path_of p) buf filler 0 s = Inr (0, snd (snd (list_slots filler (dir_slots s [c]) 0 buf)))"
    using layout_dir [OF inv c] by (intro fat_readdir_ok [OF _ folder_resolves [OF inv c]]) simp_all
  then show ?thesis using readdir(1) by (simp add: fuse_path_readdir)
next
  case (read p bs sz offset)
  then show ?thesis using read_layout [OF inv read(2-5)] by simp
next
  case statfs
  then show ?thesis using statfs_layout [OF inv] by auto
qed (auto simp: reply_only_def)

section \<open>Interrupted listings\<close>

text \<open>A buffer with room for \<open>m\<close> more names, kept with the offsets that come with them.\<close>

definition room_filler :: "nat \<Rightarrow> (cstring \<times> u32) list filler" where
  "room_filler m buf nm off = (if length buf < m then (0, buf @ [(nm, off)]) else (1, buf))"

text \<open>The names of a list of slots with their offsets, when the first slot is at offset \<open>a\<close>.\<close>

fun slot_names :: "fat_dir_entry list \<Rightarrow> u32 \<Rightarrow> (cstring \<times> u32) list" where
  "slot_names [] a = []"
| "slot_names (e # es) a =
     (if entry_name e = [] then slot_names es (a + 40) else (entry_name e, a + 40) # slot_names es (a + 40))"

lemma list_slots_room:
  "length buf \<le> m \<Longrightarrow> snd (snd (list_slots (room_filler m) es a buf)) =
    buf @ take (m - length buf) (slot_names es a)"
proof (induction es arbitrary: a buf)
  case (Cons e es)
  show ?case
  proof (cases "entry_name e = [] \<or> length buf = m")
    case True
    then show ?thesis using Cons by (auto simp: room_filler_def Let_def)
  next
    case False
    then have lt: "length buf < m" using Cons.prems by simp
    then have "m - length buf = Suc (m - Suc (length buf))" by simp
    then show ?thesis using False lt Cons.IH [of "buf @ [(entry_name e, a + 40)]" "a + 40"]
      by (simp add: room_filler_def Let_def)
  qed
qed simp

text \<open>The names behind the one with a given offset are those of the slots behind that offset.\<close>

lemma slot_names_offset:
  assumes "m < length (slot_names es a)"
  shows "\<exists>k. Suc k \<le> length es \<and> snd (slot_names es a ! m) = a + of_nat (40 * Suc k) \<and>
    drop (Suc m) (slot_names es a) = slot_names (drop (Suc k) es) (a + of_nat (40 * Suc k))"
  using assms
proof (induction es arbitrary: a m)
  case (Cons e es)
  show ?case
  proof (cases "entry_name e \<noteq> [] \<and> m = 0")
    case True
    then show ?thesis by (intro exI [of _ 0]) simp
  next
    case False
    define m' where "m' = (if entry_name e = [] then m else m - 1)"
    have "m' < length (slot_names es (a + 40))" using Cons.prems False by (auto simp: m'_def)
    from Cons.IH [OF this] obtain k where k: "Suc k \<le> length es"
        "snd (slot_names es (a + 40) ! m') = a + 40 + of_nat (40 * Suc k)"
        "drop (Suc m') (slot_names es (a + 40)) = slot_names (drop (Suc k) es) (a + 40 + of_nat (40 * Suc k))"
      by blast
    have eq: "a + 40 + of_nat (40 * Suc k) = a + of_nat (40 * Suc (Suc k))" by (simp add: algebra_simps)
    have "slot_names (e # es) a ! m = slot_names es (a + 40) ! m'"
      "drop (Suc m) (slot_names (e # es) a) = drop (Suc m') (slot_names es (a + 40))"
      using False by (auto simp: m'_def nth_Cons split: nat.splits)
    then show ?thesis using k unfolding eq by (intro exI [of _ "Suc k"]) simp
  qed
qed simp

lemma slots_from_drop:
  assumes "k < slot_count s"
  shows "slots_from (40 * k) (sb_bpc s) = drop k (slots_from 0 (sb_bpc s))"
proof -
  obtain r where r: "sb_bpc s = 40 * k + r"
    using that [of "sb_bpc s - 40 * k"] slot_inside [OF assms] by simp
  have "(40 * k + (r + 39)) div 40 = k + (r + 39) div 40" by (rule div_mult_self4) simp
  then have n: "(sb_bpc s - 40 * k + 39) div 40 = slot_count s - k"
    unfolding slot_count_def r by (simp add: add.assoc)
  show ?thesis
    unfolding slots_from_0 slots_from_eq [of "40 * k"] n by (intro nth_equalityI) simp_all
qed

lemma list_slots_drop:
  assumes inv: "tree_inv s fl L" and c: "L p = Some (Dir_node c)" and k: "k < slot_count s"
  shows "fill_slots s (cluster_data s c) filler (slots_from (40 * k) (sb_bpc s)) off buf =
    Inr (list_slots filler (drop k (dir_slots s [c])) off buf)"
proof -
  have "0 \<in> set (de_name (read_slot s (cluster_data s c) x))" if "x \<in> set (slots_from (40 * k) (sb_bpc s))" for x
    using that layout_dir(6) [OF inv c] in_set_dropD [of x k "slots_from 0 (sb_bpc s)"]
    unfolding slots_from_drop [OF k] by (auto simp: slots_from_0 dir_ok_def slot_ok_def nth_cluster_slots)
  then show ?thesis
    by (subst fill_slots_ok) (auto simp: slots_from_drop [OF k] dir_slots_single cluster_slots_def drop_map)
qed

lemma fill_from_slot:
  assumes inv: "tree_inv s fl L" and c: "L p = Some (Dir_node c)" and k: "k \<le> slot_count s"
  shows "read_dir_entries s c (of_nat (40 * k)) buf filler =
    Inr (snd (snd (list_slots filler (drop k (dir_slots s [c])) (of_nat (40 * k)) buf)))"
proof -
  note d = layout_dir [OF inv c]
  let ?b = "sb_bpc s"
  define off :: u32 where "off = of_nat (40 * k)"
  have nx: "fat_next s c = 0" using d(2) by (simp add: chain_Cons)
  have rd: "read_entire_cluster_from_disk s c = Inr (0, cluster_data s c)" "read_fat_entry s c = Inr 0"
    using d(1,4) nx by (auto simp: read_entire_cluster_ok read_fat_entry_ok)
  have "2 * (?b + 4) \<le> sb_count s * (?b + 4)" using geometryD(5) [OF d(1)] by (intro mult_le_mono1) simp
  then have b: "512 \<le> ?b" "2 * ?b + 8 < 2 ^ 32" using geometryD(2,6) [OF d(1)] by simp_all
  have "k * 40 \<le> slot_count s * 40" using k by (rule mult_le_mono1)
  also have "\<dots> \<le> ?b + 39" by (simp add: slot_count_def)
  finally have kb: "40 * k \<le> ?b + 39" by simp
  then have off: "unat off = 40 * k" unfolding off_def using b by (simp only: unat_of_nat) simp
  have "read_dir_entries s c off buf filler = Inr (snd (snd (list_slots filler (drop k (dir_slots s [c])) off buf)))"
  proof (cases "k = slot_count s")
    case True
    have "?b + 39 < (slot_count s + 1) * 40" by (simp add: slot_count_def)
    then have ge: "?b \<le> 40 * k" using True by simp
    then have "40 * k div ?b = 1" using kb b by (intro div_nat_eqI) simp_all
    then have "read_dir_entries s c off buf filler = Inr buf"
      using b rd by (simp add: read_dir_entries_def off One_nat_def)
    then show ?thesis using True by (simp add: dir_slots_single)
  next
    case False
    then have lt: "k < slot_count s" using k by simp
    have "40 * k < ?b" using lt by (rule slot_inside)
    then have "read_dir_entries s c off buf filler =
        fill_clusters (Suc (chain_fuel s)) s filler c (40 * k) off buf"
      using b by (simp add: read_dir_entries_def off)
    also have "\<dots> = Inr (snd (snd (list_slots filler (drop k (dir_slots s [c])) off buf)))"
      using rd d(3) list_slots_drop [OF inv c lt, of filler off buf]
      by (auto simp: chain_fuel_def split: prod.splits)
    finally show ?thesis .
  qed
  then show ?thesis by (simp only: off_def)
qed

text \<open>A listing from the offset of a slot, into a buffer with room for \<open>m\<close> names.\<close>

lemma readdir_room:
  assumes inv: "tree_inv s fl L" and c: "L p = Some (Dir_node c)" and k: "k \<le> slot_count s"
    and off: "low32 offset = of_nat (40 * k)"
  shows "fat_readdir (fuse_path p) [] (room_filler m) offset s =
    Inr (0, take m (slot_names (drop k (dir_slots s [c])) (of_nat (40 * k))))"
proof -
  have "find_first_cluster_by_path s (path_of p) = Inr c"
    using find_first_cluster_ok(1) [OF layout_dir(1) [OF inv c] layout_resolves [OF inv c]] .
  then show ?thesis
    using fill_from_slot [OF inv c k, of "[]" "room_filler m"] off
      list_slots_room [of "[]" m "drop k (dir_slots s [c])" "of_nat (40 * k)"]
    unfolding fuse_path_readdir by (simp add: fat_readdir_def del: of_nat_mult)
qed

lemma slot_names_fst: "map fst (slot_names es a) = map entry_name (filter (\<lambda>e. entry_name e \<noteq> []) es)"
  by (induction es arbitrary: a) auto

text \<open>The second call passes the names behind those of the first.\<close>

lemma readdir_resumes_after:
  fixes m m' :: nat
  assumes inv: "tree_inv s fl L" and c: "L p = Some (Dir_node c)"
  defines "names \<equiv> slot_names (dir_slots s [c]) 0" and "first \<equiv> take m (slot_names (dir_slots s [c]) 0)"
  assumes ne: "first \<noteq> []"
  shows "fat_readdir (fuse_path p) [] (room_filler m') (ucast (snd (last first))) s =
    Inr (0, take m' (drop (length first) names))"
proof -
  let ?es = "dir_slots s [c]"
  have first: "first = take m names" by (simp add: first_def names_def)
  define i where "i = length first - 1"
  have "0 < length first" "length first \<le> length names" using ne by (simp_all add: first)
  then have i: "i < length names" "Suc i = length first" unfolding i_def by linarith+
  have "i < m" using i(2) by (simp add: first)
  moreover have "last first = first ! i" using last_conv_nth [OF ne] by (simp only: i_def)
  ultimately have li: "last first = names ! i" by (simp add: first)
  obtain k where k: "Suc k \<le> length ?es" "snd (names ! i) = of_nat (40 * Suc k)"
      "drop (Suc i) names = slot_names (drop (Suc k) ?es) (of_nat (40 * Suc k))"
    using slot_names_offset [of i ?es 0] i(1) unfolding names_def by (auto simp del: of_nat_mult of_nat_Suc)
  have sc: "Suc k \<le> slot_count s" using k(1) by (simp add: dir_slots_single)
  have "low32 (ucast (snd (last first))) = of_nat (40 * Suc k)"
    using k(2) li by (simp add: low32_ucast del: of_nat_mult of_nat_Suc)
  from readdir_room [OF inv c sc this, of m'] show ?thesis using k(3) i(2) by simp
qed

lemma take_rest_all:
  assumes "length (take m' (drop (length (take m xs)) xs)) < m'"
  shows "take m xs @ take m' (drop (length (take m xs)) xs) = xs"
proof -
  have "take m' (drop (length (take m xs)) xs) = drop (length (take m xs)) xs"
    using assms by (intro take_all) (metis length_take min_less_iff_disj less_irrefl less_imp_le)
  moreover have "take m xs = take (length (take m xs)) xs" by (simp add: min_def)
  ultimately show ?thesis by (metis append_take_drop_id)
qed

lemma readdir_resumed:
  assumes inv: "tree_inv s fl L" and c: "L p = Some (Dir_node c)"
  shows "\<exists>first. fat_readdir (fuse_path p) [] (room_filler m) 0 s = Inr (0, first) \<and> length first \<le> m \<and>
    (first \<noteq> [] \<longrightarrow> (\<exists>rest. fat_readdir (fuse_path p) [] (room_filler m') (ucast (snd (last first))) s =
        Inr (0, rest) \<and>
      (length rest < m' \<longrightarrow> distinct (map fst (first @ rest)) \<and>
        set (map fst (first @ rest)) = {dot, dotdot} \<union> children (tree_of s L) p)))"
proof -
  define names where "names = slot_names (dir_slots s [c]) 0"
  let ?first = "take m names" and ?rest = "take m' (drop (length (take m names)) names)"
  have one: "fat_readdir (fuse_path p) [] (room_filler m) 0 s = Inr (0, ?first)"
    using readdir_room [OF inv c, of 0 0 m] by (simp add: low32_def names_def)
  have all: "distinct (map fst names)" "set (map fst names) = {dot, dotdot} \<union> children (tree_of s L) p"
    using listing_layout [OF inv c] unfolding names_def slot_names_fst by simp_all
  note two = readdir_resumes_after [OF inv c, of m m', folded names_def]
  have both: "length ?rest < m' \<longrightarrow> distinct (map fst (?first @ ?rest)) \<and>
      set (map fst (?first @ ?rest)) = {dot, dotdot} \<union> children (tree_of s L) p"
  proof
    assume "length ?rest < m'"
    from take_rest_all [OF this] all show "distinct (map fst (?first @ ?rest)) \<and>
        set (map fst (?first @ ?rest)) = {dot, dotdot} \<union> children (tree_of s L) p"
      by (simp only: simp_thms)
  qed
  have "length ?first \<le> m" by simp
  with one two both show ?thesis by blast
qed

end
