(* ===== verification/Fat_Main.thy ===== *)
theory Fat_Main
  imports Fat_Runs
begin

text \<open>
  The program from its start to its end (\<open>src/FAT/fat.c\<close>, lines 712 to 718 and 1019 to 1028): \<open>main\<close>
  names the disk file after the working directory and hands over to FUSE, which calls
  \<open>fat_init\<close>, then the handlers, and \<open>fat_destroy\<close> at the end. What one session leaves in the
  disk file is what the next one starts with.
\<close>

section \<open>Start and end\<close>

definition FAT_DISK_NAME :: cstring where
  "FAT_DISK_NAME = map of_char ''artifacts/fat_disk''"

text \<open>\<open>fat_disk_path\<close>, as \<open>asprintf\<close> prints it.\<close>

definition fat_disk_path :: "cstring \<Rightarrow> cstring" where
  "fat_disk_path cur_working_dir = cur_working_dir @ [slash] @ FAT_DISK_NAME"

text \<open>
  The files of the system with their contents, whether \<open>asprintf\<close> succeeds, and the globals at
  the start. The result is the exit status, or the state with which FUSE serves requests.
\<close>

type_synonym host_files = "cstring \<Rightarrow> byte list option"

definition fat_main :: "host_files \<Rightarrow> cstring \<Rightarrow> bool \<Rightarrow> fs \<Rightarrow> (int + fs) res" where
  "fat_main files cur_working_dir printed s =
     (if \<not> printed then Inr (Inl 1)
      else bind_res (fat_init (files (fat_disk_path cur_working_dir)) s) (\<lambda>s. Inr (Inr s)))"

text \<open>The memory is freed and the disk file closed; its bytes are what remains of the state.\<close>

definition fat_destroy :: "fs \<Rightarrow> byte list" where
  "fat_destroy s = disk s"

section \<open>Sessions\<close>

inductive session :: "cstring \<Rightarrow> host_files \<Rightarrow> trace \<Rightarrow> host_files \<Rightarrow> bool" for cwd where
  "length (sb_pad b) = 488 \<Longrightarrow> fat_main files cwd True b = Inr (Inr s) \<Longrightarrow> fs_run s tr t \<Longrightarrow>
   session cwd files tr (files(fat_disk_path cwd \<mapsto> fat_destroy t))"

inductive_cases sessionE: "session cwd files tr files'"

definition session_step :: "cstring \<Rightarrow> host_files \<Rightarrow> trace option \<Rightarrow> host_files \<Rightarrow> bool" where
  "session_step cwd files l files' \<longleftrightarrow> (\<exists>tr. l = Some tr \<and> session cwd files tr files')"

text \<open>Sessions one after the other, with the list of their traces.\<close>

abbreviation sessions :: "cstring \<Rightarrow> host_files \<Rightarrow> trace list \<Rightarrow> host_files \<Rightarrow> bool" where
  "sessions cwd \<equiv> run_of (session_step cwd)"

text \<open>
  \<open>stored cwd files T\<close>: the disk file holds the tree \<open>T\<close>, or there is none yet and \<open>T\<close> is the
  tree that formatting makes.
\<close>

definition stored :: "cstring \<Rightarrow> host_files \<Rightarrow> tree \<Rightarrow> bool" where
  "stored cwd files T \<longleftrightarrow>
     (case files (fat_disk_path cwd) of
        None \<Rightarrow> T = empty_tree
      | Some d \<Rightarrow> \<exists>s. represents s T \<and> d = fat_destroy s)"

lemma main_represents:
  assumes "stored cwd files T" and "length (sb_pad b) = 488"
  shows "\<exists>s. fat_main files cwd True b = Inr (Inr s) \<and> represents s T"
proof (cases "files (fat_disk_path cwd)")
  case None
  obtain t where "fat_init None b = Inr t" "tree_inv t all_free root_layout"
      "tree_of t root_layout = empty_tree"
    using formatted_tree [OF assms(2)] by blast
  then show ?thesis
    using None assms(1) represents_tree [of t all_free root_layout empty_tree]
    by (simp add: fat_main_def stored_def)
next
  case (Some d)
  then obtain s where "represents s T" "d = disk s" using assms(1) by (auto simp: stored_def fat_destroy_def)
  then show ?thesis using Some remount_represents [OF \<open>represents s T\<close> assms(2)] by (auto simp: fat_main_def)
qed

lemma session_refines:
  assumes "session cwd files tr files'" and "stored cwd files T"
  shows "\<exists>T'. spec_run T tr T' \<and> stored cwd files' T' \<and>
    (\<forall>f. f \<noteq> fat_disk_path cwd \<longrightarrow> files' f = files f)"
  using assms(1)
proof (rule sessionE)
  fix b s t
  assume files': "files' = files(fat_disk_path cwd \<mapsto> fat_destroy t)"
    and pad: "length (sb_pad b) = 488" and main: "fat_main files cwd True b = Inr (Inr s)"
    and run: "fs_run s tr t"
  have "represents s T" using main_represents [OF assms(2) pad] main by auto
  from fs_run_refines [OF run this] show ?thesis unfolding files' by (auto simp: stored_def)
qed

interpretation life: simulation
  "\<lambda>files T. stored cwd files T \<and> (\<forall>f. f \<noteq> fat_disk_path cwd \<longrightarrow> files f = files0 f)"
  "session_step cwd" spec_run for cwd files0
proof
  fix files T tr files'
  assume rel: "stored cwd files T \<and> (\<forall>f. f \<noteq> fat_disk_path cwd \<longrightarrow> files f = files0 f)"
    and "session_step cwd files (Some tr) files'"
  then have "session cwd files tr files'" by (simp add: session_step_def)
  from session_refines [OF this] rel show "\<exists>T'. spec_run T tr T' \<and> stored cwd files' T' \<and>
      (\<forall>f. f \<noteq> fat_disk_path cwd \<longrightarrow> files' f = files0 f)"
    by (metis (no_types, lifting))
qed (simp add: session_step_def)

lemma sessions_refine:
  assumes "sessions cwd files trs files'" and "stored cwd files T"
  shows "\<exists>T'. spec_run T (concat trs) T' \<and> stored cwd files' T' \<and>
    (\<forall>f. f \<noteq> fat_disk_path cwd \<longrightarrow> files' f = files f)"
proof -
  have "stored cwd files T \<and> (\<forall>f. f \<noteq> fat_disk_path cwd \<longrightarrow> files f = files f)" using assms(2) by simp
  from life.runs [OF assms(1) this] obtain T' where "trace_of spec_run T trs T'"
    "stored cwd files' T' \<and> (\<forall>f. f \<noteq> fat_disk_path cwd \<longrightarrow> files' f = files f)" by (elim exE conjE) simp
  then show ?thesis using trace_of_concat [of spec_step T trs T'] by (intro exI [of _ T'] conjI) simp_all
qed

end
