(* ===== verification/Fat_Limits.thy ===== *)
theory Fat_Limits
  imports Fat_Runs Fat_Example
begin

text \<open>
  The limits of the file system: how many names a folder can hold, and what happens at the next
  one. A cluster of 4096 bytes has room for 102 entries of 40 bytes and 16 bytes more, in which
  the code sees the beginning of another free entry. The last section is about the bytes behind
  the end of a file, which the code never clears.
\<close>

section \<open>Full folders\<close>

lemma child_plain: "tree_inv s fl L \<Longrightarrow> nm \<in> children (tree_of s L) d \<Longrightarrow> plain_name nm"
  using tree_invD(4) [of s fl L d nm] by (auto simp: children_tree)

lemma special_not_child:
  "tree_inv s fl L \<Longrightarrow> dot \<notin> children (tree_of s L) d \<and> dotdot \<notin> children (tree_of s L) d"
  using child_plain plain_nameD(3,4) by metis

text \<open>Every name of a folder has a slot that lies inside the cluster.\<close>

lemma name_in_slot:
  assumes inv: "tree_inv s fl L" and c: "L d = Some (Dir_node c)"
    and nm: "nm \<in> {dot, dotdot} \<union> children (tree_of s L) d"
  shows "\<exists>k < sb_bpc s div 40. entry_name (cluster_slots s c ! k) = nm"
proof -
  note holds = dir_holdsD [OF tree_invD(6) [OF inv c]]
  have ne: "nm \<noteq> []"
    using nm child_plain [OF inv, of nm d] plain_nameD(5) [of nm] by (elim UnE insertE emptyE) simp_all
  have "dir_lookup s [c] nm \<noteq> None"
  proof (cases "nm = dot \<or> nm = dotdot")
    case True
    have "\<exists>p. L (butlast d) = Some (Dir_node p)"
    proof (cases d rule: rev_cases)
      case (snoc q nm)
      then show ?thesis using tree_invD(5) [OF inv, of q nm] c by simp
    qed (use c in simp)
    then obtain p where "L (butlast d) = Some (Dir_node p)" ..
    then show ?thesis using True holds(3,4) by (auto simp: entry_matches_def split: option.splits)
  next
    case False
    then have "L (d @ [nm]) \<noteq> None" "\<not> special nm" using nm ne by (auto simp: children_tree special_def)
    then show ?thesis using holds(5) [of nm] by (auto simp: entry_matches_def split: option.splits)
  qed
  then obtain e where "e \<in> set (dir_slots s [c])" "entry_name e = nm" using lookup_slot by blast
  then obtain k where k: "k < slot_count s" "entry_name (cluster_slots s c ! k) = nm"
    by (auto simp: dir_slots_single in_set_conv_nth)
  have "slot_ok s c k" using holds(1) k(1) by (simp add: dir_ok_def)
  then have "Suc k * 40 \<le> sb_bpc s"
    using k ne by (auto simp: slot_ok_def entry_name_Nil nth_cluster_slots not_less [symmetric])
  then have "Suc k \<le> sb_bpc s div 40" by (simp add: less_eq_div_iff_mult_less_eq del: mult_Suc)
  then show ?thesis using k(2) Suc_le_lessD by blast
qed

lemma names_of_folder:
  assumes inv: "tree_inv s fl L" and c: "L d = Some (Dir_node c)"
  defines "names \<equiv> {dot, dotdot} \<union> children (tree_of s L) d"
    and "slots \<equiv> (\<lambda>k. entry_name (cluster_slots s c ! k)) ` {..< sb_bpc s div 40}"
  shows "finite names" and "card names = 2 + card (children (tree_of s L) d)"
    and "names \<subseteq> slots" and "card slots \<le> sb_bpc s div 40"
proof -
  show "finite names" "card names = 2 + card (children (tree_of s L) d)"
    using finite_children [OF inv] special_not_child [OF inv] by (simp_all add: names_def)
  show "names \<subseteq> slots" 
  proof
    fix nm assume "nm \<in> names"
    then obtain k where "k < sb_bpc s div 40" "entry_name (cluster_slots s c ! k) = nm"
      using name_in_slot [OF inv c, of nm] by (auto simp: names_def)
    then show "nm \<in> slots" unfolding slots_def by blast
  qed
  have "card slots \<le> card {..< sb_bpc s div 40}" unfolding slots_def by (rule card_image_le) simp
  then show "card slots \<le> sb_bpc s div 40" by simp
qed

lemma children_bound:
  assumes "tree_inv s fl L" and "L d = Some (Dir_node c)"
  shows "card (children (tree_of s L) d) \<le> max_children s"
  using names_of_folder [OF assms] card_mono [OF _ names_of_folder(3) [OF assms]]
  by (simp add: max_children_def)

lemma full_folder_slot:
  assumes inv: "tree_inv s fl L" and c: "L d = Some (Dir_node c)"
    and full: "card (children (tree_of s L) d) = max_children s"
    and rest: "sb_bpc s mod 40 \<noteq> 0"
  shows "first_at s [c] slot_free 0 (sb_bpc s div 40)"
proof -
  let ?n = "sb_bpc s div 40" and ?nm = "\<lambda>k. entry_name (cluster_slots s c ! k)"
  note nf = names_of_folder [OF inv c]
  obtain r where b: "sb_bpc s = 40 * ?n + r" "r < 40" "0 < r"
    using rest by (intro that [of "sb_bpc s mod 40"]) simp_all
  then have "Suc ?n * 40 \<le> sb_bpc s + 39" unfolding mult_Suc mult.commute [of ?n 40] by linarith
  then have n: "?n < slot_count s"
    by (simp add: slot_count_def less_eq_div_iff_mult_less_eq Suc_le_eq [symmetric] del: mult_Suc)
  have crosses: "sb_bpc s < 40 * ?n + 40" using b(1,2) by linarith
  have "13 \<le> slot_count s" by (rule slot_count_ge [OF layout_dir(1) [OF inv c]])
  then have "13 * 40 \<le> sb_bpc s + 39"
    by (simp add: slot_count_def less_eq_div_iff_mult_less_eq)
  then have "2 * 40 \<le> sb_bpc s" by simp
  then have "2 \<le> ?n" by (simp add: less_eq_div_iff_mult_less_eq)
  then have "card ({dot, dotdot} \<union> children (tree_of s L) d) = ?n"
    using nf(2) full by (simp add: max_children_def)
  then have names: "{dot, dotdot} \<union> children (tree_of s L) d = ?nm ` {..< ?n}"
    using nf(3,4) by (intro card_seteq) simp_all
  then have "?nm k \<noteq> []" if "k < ?n" for k
  proof -
    have "?nm k \<in> {dot, dotdot} \<union> children (tree_of s L) d" using that unfolding names by simp
    then show ?thesis
      using child_plain [OF inv, of "?nm k" d] plain_nameD(5) by (elim UnE insertE emptyE) simp_all
  qed
  then have "\<forall>k < ?n. \<not> slot_free (cluster_slots s c ! k)"
    using n by (auto simp: entry_name_Nil nth_cluster_slots)
  moreover have "slot_ok s c ?n" using layout_dir(6) [OF inv c] n by (simp add: dir_ok_def)
  then have "slot_free (cluster_slots s c ! ?n)" using crosses by (simp add: slot_ok_def)
  ultimately show ?thesis using n by (simp add: first_at_0)
qed

section \<open>The next name\<close>

text \<open>A free slot that crosses the end of the cluster is written past the buffer.\<close>

lemma add_dir_entry_overflow:
  assumes inv: "alloc_inv s fl (cs # cls)" and fl: "fl \<noteq> []"
    and par: "resolves s (root_cluster_start (superblock s)) nms (hd cs)"
    and nm: "name_ok nm" "component nm"
    and slot: "first_at s cs slot_free j k" "sb_bpc s < 40 * k + 40"
  shows "add_dir_entry (path_of (nms @ [nm])) ty s = Inl Out_of_bounds"
proof -
  note i = alloc_invD [OF inv]
  let ?p = "popped s fl 1" and ?f = "hd fl"
  have len: "1 \<le> length fl" using fl by (cases fl) auto
  have cs: "chain s (hd cs) cs" "set cs \<inter> set fl = {}" using i(5,6) by auto
  then have dat: "\<forall>c \<in> set cs. data_cluster s c" by (simp add: chain_def)
  have pop: "pop_free_clusters 1 s = Inr (?f, ?p)"
    using pop_free_clusters_ok [OF i(1,3), of 1] len by simp
  have g: "geometry ?p" using i(1,3) len by (intro popped_geometry) auto
  have c: "chain ?p (hd cs) cs" using i(1,3) len cs by (intro popped_other_chain) auto
  have f: "first_at ?p cs slot_free j k"
    using slot(1) popped_dir_frame(3,4) [OF i(1,3) fl dat cs(2)] by (subst first_at_frame) auto
  have fd: "data_cluster ?p ?f"
    using i(3) fl chain_data unfolding free_list_def by simp
  have "add_dir_entry_to_cluster (hd cs) nm ?f ty ?p = Inl Out_of_bounds"
    using add_entry_at [OF g fd nm(1) c f] slot(2) by simp
  then show ?thesis
    unfolding add_dir_entry_def parent_and_target(1,2) [OF i(1) par nm(2)] bind_res_Inr
      find_first_cluster_ok(2) [OF i(1) par] pop split_conv by simp
qed

lemma full_folder_overflows:
  assumes inv: "tree_inv s fl L" and c: "L d = Some (Dir_node c)" and fl: "fl \<noteq> []"
    and full: "card (children (tree_of s L) d) = max_children s" and rest: "sb_bpc s mod 40 \<noteq> 0"
    and nm: "plain_name nm" and new: "L (d @ [nm]) = None"
  shows "fat_exec (Mkdir (d @ [nm])) s = Inl Out_of_bounds"
    and "S_ISREG mode \<Longrightarrow> fat_exec (Mknod (d @ [nm]) mode) s = Inl Out_of_bounds"
    and "S_ISREG (or mode S_IFREG) \<Longrightarrow> fat_exec (Create (d @ [nm]) mode) s = Inl Out_of_bounds"
proof -
  obtain qs where al: "alloc_inv s fl ([c] # map (chain_of L) qs)"
    using folder_context [OF inv c new] by metis
  have "sb_bpc s < 40 * (sb_bpc s div 40) + 40"
    using mod_less_divisor [of 40 "sb_bpc s"] by presburger
  note add = add_dir_entry_overflow [OF al fl folder_resolves [OF inv c] plain_nameD(1,2) [OF nm]
      full_folder_slot [OF inv c full rest] this]
  have free: "has_free_cluster s" using has_free_cluster_iff [OF alloc_invD(1,3) [OF al]] layout_root_free [OF inv] fl by simp
  show "fat_exec (Mkdir (d @ [nm])) s = Inl Out_of_bounds"
    using add free by (simp add: fat_mkdir_def del: path_of_append)
  show "fat_exec (Mknod (d @ [nm]) mode) s = Inl Out_of_bounds" if "S_ISREG mode"
    using add free that by (simp add: fat_mknod_def del: path_of_append)
  show "fat_exec (Create (d @ [nm]) mode) s = Inl Out_of_bounds" if "S_ISREG (or mode S_IFREG)"
    using add free that by (simp add: fat_create_def fat_mknod_def del: path_of_append)
qed

section \<open>A folder with a hundred names\<close>

definition nth_name :: "nat \<Rightarrow> cstring" where
  "nth_name k = [97, of_nat (100 + k)]"

lemma nth_name_byte: "k < 101 \<Longrightarrow> unat (of_nat (100 + k) :: byte) = 100 + k"
  by (simp add: unat_of_nat del: of_nat_add)

lemma nth_name_plain:
  assumes "k < 101"
  shows "plain_name (nth_name k)"
proof -
  have "of_nat (100 + k) \<notin> {0 :: byte, slash}"
    using nth_name_byte [OF assms] by (auto simp: slash_def simp del: of_nat_add)
  then show ?thesis
    by (auto simp: plain_name_def name_ok_def component_def nth_name_def dot_def dotdot_def slash_def
        DIR_ENTRY_MAX_NAME_LEN_def simp del: of_nat_add)
qed

lemma nth_name_inj: "inj_on nth_name {..< 101}"
proof (rule inj_onI)
  fix j k assume jk: "j \<in> {..< 101}" "k \<in> {..< 101}" "nth_name j = nth_name k"
  then have "unat (of_nat (100 + j) :: byte) = unat (of_nat (100 + k) :: byte)"
    unfolding nth_name_def by (metis list.inject)
  then show "j = k" using nth_name_byte [of j] nth_name_byte [of k] jk(1,2) by simp
qed

lemma children_insert: "children (T(p @ [nm] \<mapsto> x)) p = insert nm (children T p)"
  by (auto simp: children_def)

lemma many_files:
  "k \<le> 100 \<Longrightarrow> \<exists>tr s fl L c. fs_run new_disk tr s \<and> length tr = k \<and> tree_inv s fl L \<and> sb_bpc s = 4096 \<and>
    L [] = Some (Dir_node c) \<and> length fl = 2555 - k \<and> children (tree_of s L) [] = nth_name ` {..< k}"
proof (induction k)
  case 0
  have "tree_inv new_disk all_free root_layout" "tree_of new_disk root_layout = empty_tree"
    using formatted_tree [of boot_state] new_disk_facts(1) by (auto simp: boot_state_def)
  moreover have "children empty_tree [] = {}" by (simp add: children_def empty_tree_def)
  moreover have "sb_bpc new_disk = 4096" by (simp add: new_disk_facts(3) default_superblock_def BYTE_PER_CLUSTER_def)
  ultimately have "fs_run new_disk [] new_disk \<and> length ([] :: trace) = 0 \<and>
      tree_inv new_disk all_free root_layout \<and> sb_bpc new_disk = 4096 \<and>
      root_layout [] = Some (Dir_node 4) \<and> length all_free = 2555 - 0 \<and>
      children (tree_of new_disk root_layout) [] = nth_name ` {..< 0}"
    by (simp add: run_of.start root_layout_def)
  then show ?case by blast
next
  case (Suc k)
  then obtain tr s fl L c where run: "fs_run new_disk tr s" "length tr = k" and inv: "tree_inv s fl L"
    and b: "sb_bpc s = 4096" and c: "L [] = Some (Dir_node c)" and fl: "length fl = 2555 - k"
    and kids: "children (tree_of s L) [] = nth_name ` {..< k}" by auto
  have k: "k < 100" using Suc.prems by simp
  let ?nm = "nth_name k"
  have nm: "plain_name ?nm" using k by (simp add: nth_name_plain)
  have inj: "inj_on nth_name {..< k}" using nth_name_inj k by (auto intro: inj_on_subset)
  have "?nm \<notin> nth_name ` {..< k}" using k inj_onD [OF nth_name_inj, of k] by fastforce
  then have new: "L ([] @ [?nm]) = None" using kids by (auto simp: children_tree)
  have card: "card (children (tree_of s L) []) < max_children s"
    using k inj by (simp add: kids card_image max_children_def b)
  have ne: "fl \<noteq> []" using fl k by auto
  have reg: "S_ISREG S_IFREG" by (simp add: S_ISREG_def S_IFREG_def S_IFMT_def)
  let ?L = "L([] @ [?nm] \<mapsto> File_node [hd fl] 0)"
  obtain t where t: "fat_mknod (path_of ([] @ [?nm])) S_IFREG s = Inr (0, t)"
      "tree_inv t (tl fl) ?L"
      "tree_of t ?L = (tree_of s L)([] @ [?nm] \<mapsto> Plain [])"
      "sb_bpc t = sb_bpc s"
    using exec_mkdir(2) [OF inv c nm new ne card reg] by blast
  have "creatable s (tree_of s L) [?nm]"
    using nm c new card by (simp add: creatable_def)
  then have "op_ok s fl L (Mknod [?nm] S_IFREG)" by simp
  from fs_run_operation [OF run(1) inv this] t(1)
  have "fs_run new_disk (tr @ [(Mknod [?nm] S_IFREG, 0)]) t" by simp
  moreover have "children ((tree_of s L)([] @ [?nm] \<mapsto> Plain [])) [] = nth_name ` {..< Suc k}"
    unfolding children_insert kids lessThan_Suc by simp
  moreover have "?L [] = Some (Dir_node c)" using c by simp
  moreover have "length (tr @ [(Mknod [?nm] S_IFREG, 0)]) = Suc k" "length (tl fl) = 2555 - Suc k"
    using run(2) fl by simp_all
  ultimately show ?case using t(2-4) b by metis
qed

section \<open>Bytes behind the end of a file\<close>

text \<open>
  A write behind the end of a file, in the clusters that it has, leaves between the end and the
  data what these clusters hold there.
\<close>

lemma write_behind_end:
  assumes inv: "tree_inv s fl L" and f: "L p = Some (File_node cs n)" and p: "p \<noteq> []"
    and off: "n \<le> off" "off + length data \<le> length cs * sb_bpc s"
    and data: "data \<noteq> []" "length data < 2 ^ 31"
  shows "\<exists>t. fat_exec (Write p data off) s = Inr (int (length data), t) \<and>
    represents t ((tree_of s L)(p \<mapsto> Plain (take off (file_bytes s cs) @ data)))"
proof -
  note cs = layout_chain [OF tree_invD(1) [OF inv] f, unfolded node_chain.simps]
  obtain d nm where p: "p = d @ [nm]" using p by (cases p rule: rev_cases) auto
  have b: "0 < sb_bpc s" using geometryD(2) [OF cs(1)] by simp
  have len: "0 < length data" using data(1) by simp
  have "length cs * sb_bpc s < 2 ^ 32"
    using chain_length(1) [OF cs(1,5)] disk_offsets [OF cs(1)] by (meson le_less_trans mult_le_mono1)
  then have w32: "off + length data < 2 ^ 32" using off(2) by simp
  have g: "0 = clusters_for s (off + length data) - length cs"
    using clusters_for_bound [OF b _ off(2)] len by simp
  let ?L = "L(p \<mapsto> File_node cs (max n (off + length data)))"
  obtain t where t: "fat_exec (Write p data off) s = Inr (int (length data), t)"
      "tree_inv t fl ?L"
      "tree_of t ?L = (tree_of s L)(p \<mapsto> Plain (written (file_bytes s cs) n off data))"
    using exec_write(1) [OF inv f [unfolded p] len data(2) w32 g, folded p] by auto
  have "off \<le> length (file_bytes s cs)" using length_file_bytes [OF cs(1,5)] off(2) by simp
  with off(1) have "written (file_bytes s cs) n off data = take off (file_bytes s cs) @ data"
    by (rule written_gap)
  then show ?thesis using t(1) represents_tree [OF t(2)] t(3) by simp
qed

end
