(* ===== verification/Fat_Tree_Properties.thy ===== *)
theory Fat_Tree_Properties
  imports Fat_Fuse Fat_Main Fat_Limits
begin

text \<open>
  The properties of the file system as a whole: every run refines the specification on trees, and
  the queries are answered from the tree. The states at which they are instantiated are those
  that the program reaches from a formatted disk.
\<close>

section \<open>Trees that the program reaches\<close>

lemma new_disk_inv: "tree_inv new_disk all_free root_layout" "tree_of new_disk root_layout = empty_tree"
  using formatted_tree [of boot_state] new_disk_facts(1) by (auto simp: boot_state_def)


lemma name_a_plain: "plain_name name_a" "\<forall>nm \<in> set [name_a]. plain_name nm"
  by (simp_all add: plain_name_def)

lemma empty_tree_simps [simp]: "empty_tree [] = Some Folder" "empty_tree (p @ [nm]) = None" "empty_tree [nm] = None"
  "children empty_tree [] = {}"
  by (auto simp: empty_tree_def children_def)

lemma new_disk_creatable: "creatable new_disk empty_tree [name_a]"
  using name_a_plain new_disk_facts(3) by (simp add: creatable_def max_children_def)

definition layout_a :: layout where
  "layout_a = root_layout([] @ [name_a] \<mapsto> File_node [5] 0)"

definition tree_a :: "byte list \<Rightarrow> tree" where
  "tree_a bs = [[] \<mapsto> Folder, [name_a] \<mapsto> Plain bs]"

lemma disk_a_inv: "tree_inv disk_a (tl all_free) layout_a" "tree_of disk_a layout_a = tree_a []"
proof -
  have root: "root_layout [] = Some (Dir_node 4)" "root_layout ([] @ [name_a]) = None"
    by (simp_all add: root_layout_def)
  have "DIR_ENTRY_TYPE_FILE = DIR_ENTRY_TYPE_SUBDIR \<or> DIR_ENTRY_TYPE_FILE = DIR_ENTRY_TYPE_FILE" by simp
  note created = created_tree [OF new_disk_inv(1) root(1) name_a_plain(1) root(2) all_free_simps(2)
      new_disk_slot new_disk_fits this]
  have "new_node DIR_ENTRY_TYPE_FILE (hd all_free) = File_node [5] 0"
    by (simp add: DIR_ENTRY_TYPE_FILE_def DIR_ENTRY_TYPE_SUBDIR_def)
  then show "tree_inv disk_a (tl all_free) layout_a" "tree_of disk_a layout_a = tree_a []"
    using created new_disk_inv(2) unfolding disk_a_eq(2) layout_a_def
    by (auto simp: tree_a_def empty_tree_def)
qed

definition layout_data :: layout where
  "layout_data = layout_a([] @ [name_a] \<mapsto> File_node [5] 3)"

lemma disk_data_inv:
  "tree_inv disk_data (tl all_free) layout_data" "tree_of disk_data layout_data = tree_a [1, 2, 3]"
proof -
  have f: "layout_a ([] @ [name_a]) = Some (File_node [5] 0)" by (simp add: layout_a_def)
  have g: "0 = clusters_for disk_a (0 + length [1, 2, 3 :: byte]) - length [5 :: u32]"
    by (simp add: clusters_for_def disk_a_facts(6))
  have size: "0 < length [1, 2, 3 :: byte]" "length [1, 2, 3 :: byte] < 2 ^ 31" "0 + length [1, 2, 3 :: byte] < 2 ^ 32"
    by simp_all
  have len: "length [1, 2, 3 :: byte] = 3" by simp
  obtain t where t: "fat_write (path_of ([] @ [name_a])) [1, 2, 3] 3 0 disk_a = Inr (3, t)"
      "tree_inv t (tl all_free) layout_data"
      "tree_of t layout_data = (tree_of disk_a layout_a)([] @ [name_a] \<mapsto>
        Plain (written (file_bytes disk_a [5]) 0 0 [1, 2, 3]))"
    using exec_write(1) [OF disk_a_inv(1) f size g, unfolded len] by (auto simp: layout_data_def)
  then have "t = disk_data" using disk_data_facts(1) by simp
  then show "tree_inv disk_data (tl all_free) layout_data" "tree_of disk_data layout_data = tree_a [1, 2, 3]"
    using t(2,3) disk_a_inv(2) by (auto simp: tree_a_def written_def splice_def slice_def)
qed

lemma disk_a_write_ok: "op_ok disk_a (tl all_free) layout_a (Write [name_a] [1, 2, 3] 0)"
  by (simp add: disk_a_inv(2) file_size_def tree_a_def one_short_def clusters_for_def disk_a_facts(6)
      layout_a_def)

lemma disk_a_written: "fat_exec (Write [name_a] [1, 2, 3] 0) disk_a = Inr (3, disk_data)"
  using disk_data_facts(1) by simp

lemma disk_data_represents: "represents disk_data (tree_a [1, 2, 3])"
  unfolding represents_tree [OF disk_data_inv(1)] by (simp add: disk_data_inv(2))

lemma disk_data_bpc: "sb_bpc disk_data = 4096"
  using disk_data_facts(7) by simp

section \<open>Refinement\<close>




text \<open>
  C2. A single operation within its limits: the handler runs without a fault, the state after it
  is laid out as a tree again, and tree, return value and new tree are related by the
  specification of the operation. It reports that there is no space exactly when the free list
  is shorter than the clusters that the operation needs.
\<close>

theorem operation_refines_specification:
  assumes "tree_inv s fl L" and "op_ok s fl L opr"
  shows "\<exists>r t fl' L'. fat_exec opr s = Inr (r, t) \<and> tree_inv t fl' L' \<and>
    fs_spec (tree_of s L) opr r (tree_of t L') \<and> (r = no_space opr \<longleftrightarrow> length fl < demand s L opr)"
  using refines_spec [OF assms] by (simp add: refines_def)

theorem operation_refines_specification_witness:
  "\<exists>r t fl' L'. fat_exec (Mkdir [name_a]) new_disk = Inr (r, t) \<and> tree_inv t fl' L' \<and>
    fs_spec empty_tree (Mkdir [name_a]) r (tree_of t L') \<and> r \<noteq> - ENOMEM"
proof -
  have "op_ok new_disk all_free root_layout (Mkdir [name_a])"
    using new_disk_creatable by (simp add: new_disk_inv(2))
  from operation_refines_specification [OF new_disk_inv(1) this] show ?thesis
    by (simp only: new_disk_inv(2) no_space.simps demand.simps all_free_simps(3)) auto
qed





text \<open>
  The tree survives a restart: mounting the disk of a state, with any clock and heap,
  gives a state that represents the same tree.
\<close>

theorem remount_keeps_tree:
  assumes "represents s T" and "length (sb_pad b) = 488"
  shows "\<exists>t. fat_init (Some (disk s)) b = Inr t \<and> represents t T \<and> disk t = disk s"
  using assms by (rule remount_represents)

theorem remount_keeps_tree_witness:
  "\<exists>t. fat_init (Some (disk disk_data)) boot_state = Inr t \<and> represents t (tree_a [1, 2, 3])"
proof -
  have pad: "length (sb_pad boot_state) = 488" by (simp add: boot_state_def)
  from remount_keeps_tree [OF disk_data_represents pad] show ?thesis by blast
qed



section \<open>Limits\<close>

text \<open>
  C13. How many names a folder can hold: never more than its cluster has whole entries, less two.
  When it holds that many, with free clusters left, creating one more name writes past the end
  of the buffer.
\<close>

theorem folder_capacity:
  assumes "tree_inv s fl L" and "tree_of s L d = Some Folder"
  shows "card (children (tree_of s L) d) \<le> max_children s \<and>
    (card (children (tree_of s L) d) = max_children s \<longrightarrow> sb_bpc s mod 40 \<noteq> 0 \<longrightarrow> fl \<noteq> [] \<longrightarrow>
     plain_name nm \<longrightarrow> tree_of s L (d @ [nm]) = None \<longrightarrow>
       fat_exec (Mkdir (d @ [nm])) s = Inl Out_of_bounds \<and>
       fat_exec (Mknod (d @ [nm]) S_IFREG) s = Inl Out_of_bounds)"
proof -
  obtain c where c: "L d = Some (Dir_node c)" using assms(2) by (auto simp: tree_of_Folder)
  have "S_ISREG S_IFREG" by (simp add: S_ISREG_def S_IFREG_def S_IFMT_def)
  then show ?thesis
    using children_bound [OF assms(1) c] full_folder_overflows [OF assms(1) c] by simp
qed

theorem folder_capacity_witness:
  "\<exists>tr s. fs_run new_disk tr s \<and> length tr = 100 \<and>
    fat_exec (Mkdir [nth_name 100]) s = Inl Out_of_bounds"
proof -
  obtain tr s fl L c where s: "fs_run new_disk tr s" "length tr = 100" "tree_inv s fl L" "sb_bpc s = 4096"
      "L [] = Some (Dir_node c)" "length fl = 2555 - 100" "children (tree_of s L) [] = nth_name ` {..< 100}"
    using many_files [of 100] by auto
  have "card (nth_name ` {..< 100}) = 100"
    by (simp add: card_image inj_on_subset [OF nth_name_inj])
  then have full: "card (children (tree_of s L) []) = max_children s"
    using s(4,7) by (simp add: max_children_def)
  have "nth_name 100 \<notin> nth_name ` {..< 100}" using inj_onD [OF nth_name_inj, of 100] by fastforce
  then have "tree_of s L ([] @ [nth_name 100]) = None"
    unfolding s(7) [symmetric] by (simp add: children_def)
  moreover have "tree_of s L [] = Some Folder" "fl \<noteq> []" using s(5,6) by auto
  ultimately show ?thesis
    using folder_capacity [OF s(3), of "[]" "nth_name 100"] full s(1,2,4) nth_name_plain [of 100]
    by (intro exI [of _ tr] exI [of _ s]) simp
qed

section \<open>Queries\<close>

text \<open>
  C11. The attributes of any path of plain names: an error if nothing is there, whether its
  directories exist or not, and otherwise the kind and the size of the object.
\<close>

theorem getattr_from_tree:
  assumes "represents s T" and "\<forall>nm \<in> set p. plain_name nm"
  shows "case T p of
      None \<Rightarrow> fat_getattr (fuse_path p) stbuf s = Inr (- ENOENT, stbuf)
    | Some x \<Rightarrow> \<exists>st. fat_getattr (fuse_path p) stbuf s = Inr (0, st) \<and>
        st_mode st = mode_of x \<and> st_size st = size_of s x \<and> st_nlink st = 2"
  using assms getattr_layout unfolding represents_def by blast

theorem getattr_from_tree_witness:
  "(\<exists>st. fat_getattr (path_of [name_a]) zero_stat disk_data = Inr (0, st) \<and> st_size st = 3) \<and>
   fat_getattr (path_of [name_a, name_a]) zero_stat disk_data = Inr (- ENOENT, zero_stat)"
proof -
  have p: "\<forall>nm \<in> set [name_a]. plain_name nm" "\<forall>nm \<in> set [name_a, name_a]. plain_name nm"
    using name_a_plain by simp_all
  have T: "tree_a [1, 2, 3] [name_a] = Some (Plain [1, 2, 3])" "tree_a [1, 2, 3] [name_a, name_a] = None"
    by (simp_all add: tree_a_def)
  show ?thesis
    using getattr_from_tree [OF disk_data_represents p(1), of zero_stat]
      getattr_from_tree [OF disk_data_represents p(2), of zero_stat]
    unfolding T by (auto simp: fuse_path_def)
qed

text \<open>
  C9. Listing a folder passes every child's name exactly once, besides the names of the folder
  itself and of its parent.
\<close>

theorem readdir_from_tree:
  assumes "represents s T" and "T p = Some Folder"
  shows "\<exists>names. fat_readdir (fuse_path p) [] (\<lambda>b nm off. (0, b @ [nm])) 0 s = Inr (0, names) \<and>
    distinct names \<and> set names = {dot, dotdot} \<union> children T p"
proof -
  obtain fl L where L: "tree_inv s fl L" "T = tree_of s L" using assms(1) by (auto simp: represents_def)
  then obtain c where "L p = Some (Dir_node c)" using assms(2) by (auto simp: tree_of_Folder)
  from readdir_layout [OF L(1) this] show ?thesis unfolding L(2) .
qed

theorem readdir_from_tree_witness:
  "\<exists>names. fat_readdir [slash] [] (\<lambda>b nm off. (0, b @ [nm])) 0 disk_data = Inr (0, names) \<and>
    distinct names \<and> set names = {dot, dotdot, name_a}"
proof -
  have "tree_a [1, 2, 3] [] = Some Folder" by (simp add: tree_a_def)
  moreover have "children (tree_a [1, 2, 3]) [] = {name_a}" by (auto simp: tree_a_def children_def)
  ultimately show ?thesis
    using readdir_from_tree [OF disk_data_represents, of "[]"] by (simp add: fuse_path_def insert_commute)
qed

text \<open>
  C7. Reading a file at an offset that begins a cluster returns its bytes from the offset, cut at
  its end; at any other offset the clusters are read from their beginning.
\<close>

theorem read_from_tree:
  fixes sz offset :: u64
  assumes "represents s T" and "T p = Some (Plain bs)"
    and "0 < unat sz" and "unat sz < 2 ^ 31" and "unat offset < 2 ^ 63"
    and "n = min (length bs - unat offset) (unat sz)"
  shows "fat_read (fuse_path p) sz offset s = Inr (int n,
    if unat offset mod sb_bpc s = 0 then slice (unat offset) n bs
    else read_bytes (sb_bpc s) bs (unat offset) n)"
proof -
  obtain fl L where L: "tree_inv s fl L" "T = tree_of s L" using assms(1) by (auto simp: represents_def)
  from read_layout [OF L(1) assms(2) [unfolded L(2)] assms(3-5)] read_bytes_aligned
  show ?thesis unfolding assms(6) by auto
qed

theorem read_from_tree_witness:
  "fat_read (path_of [name_a]) 10 0 disk_data = Inr (3, [1, 2, 3]) \<and>
   fat_read (path_of [name_a]) 10 1 disk_data = Inr (2, [1, 2])"
proof -
  have T: "tree_a [1, 2, 3] [name_a] = Some (Plain [1, 2, 3])" by (simp add: tree_a_def)
  have p: "fuse_path [name_a] = path_of [name_a]" by (simp add: fuse_path_def)
  have n: "unat (10 :: u64) = 10" "unat (0 :: u64) = 0" "unat (1 :: u64) = 1" by simp_all
  note r = read_from_tree [OF disk_data_represents T _ _ _ refl, unfolded p disk_data_bpc]
  from r [of 10 0] r [of 10 1] show ?thesis
    by (simp add: n slice_def read_bytes_def One_nat_def)
qed

text \<open>
  C4. What was written to a file at the beginning of a cluster is what a read there returns, and
  no other path of the tree changes.
\<close>

theorem write_read_tree:
  assumes inv: "tree_inv s fl L" and ok: "op_ok s fl L (Write p data offset)"
    and ran: "fat_exec (Write p data offset) s = Inr (int (length data), t)"
    and aligned: "offset mod sb_bpc t = 0"
  shows "fat_read (fuse_path p) (of_nat (length data)) (of_nat offset) t = Inr (int (length data), data) \<and>
    (\<exists>T. represents t T \<and> (\<forall>q. q \<noteq> p \<longrightarrow> T q = tree_of s L q))"
proof
  obtain fl' L' where t: "tree_inv t fl' L'"
      "fs_spec (tree_of s L) (Write p data offset) (int (length data)) (tree_of t L')"
    using refines_spec [OF inv ok] ran unfolding refines_def by auto
  have ne: "int (length data) \<noteq> - ENOMEM" by (simp add: ENOMEM_def)
  obtain bs gap where b: "length gap = offset - length bs"
      "tree_of t L' = (tree_of s L)(p \<mapsto> Plain (splice (bs @ gap) offset data))"
    using t(2) ne by (elim fs_spec_WriteE) auto
  have "represents t (tree_of t L')" unfolding represents_def using t(1) by blast
  then show "\<exists>T. represents t T \<and> (\<forall>q. q \<noteq> p \<longrightarrow> T q = tree_of s L q)"
    using b(2) by (intro exI [of _ "tree_of t L'"]) simp
  have size: "data \<noteq> []" "length data < 2 ^ 31" "offset + length data < 2 ^ 32" using ok by simp_all
  have w: "unat (of_nat (length data) :: u64) = length data" "unat (of_nat offset :: u64) = offset"
    using size by (simp_all add: unat_of_nat)
  let ?c = "splice (bs @ gap) offset data"
  have T: "tree_of t L' p = Some (Plain ?c)" using b(2) by simp
  have "offset \<le> length (bs @ gap)" using b(1) by simp
  then have c: "offset + length data \<le> length ?c" "slice offset (length data) ?c = data"
    by (simp_all add: splice_def slice_def)
  then have "min (length ?c - offset) (length data) = length data" by simp
  then show "fat_read (fuse_path p) (of_nat (length data)) (of_nat offset) t = Inr (int (length data), data)"
    using read_layout [OF t(1) T, of "of_nat (length data)" "of_nat offset"] size c(2)
      read_bytes_aligned [OF aligned] by (simp add: w)
qed

theorem write_read_tree_witness:
  "fat_read (path_of [name_a]) 3 0 disk_data = Inr (3, [1, 2, 3])"
proof -
  have ran: "fat_exec (Write [name_a] [1, 2, 3] 0) disk_a = Inr (int (length [1, 2, 3 :: byte]), disk_data)"
    using disk_a_written by simp
  have "0 mod sb_bpc disk_data = 0" by simp
  from write_read_tree [OF disk_a_inv(1) disk_a_write_ok ran this] show ?thesis by (simp add: fuse_path_def)
qed

text \<open>
  C8. The bytes that a truncation cut off come back: after a file was shortened, a write behind
  its new end leaves in between what was there before, not zeros.
\<close>

theorem truncated_bytes_return:
  assumes inv: "tree_inv s fl L" and T: "tree_of s L p = Some (Plain bs)"
    and n: "n < off" "off \<le> length bs" and data: "data \<noteq> []" "length data < 2 ^ 31"
    and fits: "off + length data \<le> Suc (n div sb_bpc s) * sb_bpc s"
  shows "\<exists>t u. fat_exec (Truncate p n) s = Inr (0, t) \<and>
    represents t ((tree_of s L)(p \<mapsto> Plain (take n bs))) \<and>
    fat_exec (Write p data off) t = Inr (int (length data), u) \<and>
    represents u ((tree_of s L)(p \<mapsto> Plain (take off bs @ data)))"
proof -
  have "file_size (tree_of s L) p = Some (length bs)" using T by (simp add: file_size_def)
  from file_size_layout [OF inv this] obtain d nm cs where p: "p = d @ [nm]"
    and f: "L p = Some (File_node cs (length bs))"
    and "tree_of s L p = Some (Plain (take (length bs) (file_bytes s cs)))" .
  then have bs: "bs = take (length bs) (file_bytes s cs)" using T by simp
  note cs = layout_chain [OF tree_invD(1) [OF inv] f, unfolded node_chain.simps]
  have b: "0 < sb_bpc s" using geometryD(2) [OF cs(1)] by simp
  define q where "q = Suc (n div sb_bpc s)"
  let ?xs = "take q cs"
  have lt: "n < length bs" and pne: "p \<noteq> []" using n p by simp_all
  obtain t where t: "fat_exec (Truncate p n) s = Inr (0, t)"
      "tree_inv t (drop q cs @ fl) (L(p \<mapsto> File_node ?xs n))"
      "tree_of t (L(p \<mapsto> File_node ?xs n)) = (tree_of s L)(p \<mapsto> Plain (take n (file_bytes s cs)))"
      "file_bytes t ?xs = file_bytes s ?xs" "same_layout s t"
    using exec_truncate_shrink [OF inv f [unfolded p] lt, folded p q_def] by auto
  have bpc: "sb_bpc t = sb_bpc s" using same_layoutD(1) [OF t(5)] by simp
  have "n < length cs * sb_bpc s" using lt tree_invD(7) [OF inv f] by simp
  then have q: "q \<le> length cs" using b by (simp add: q_def Suc_le_eq div_less_iff_less_mult)
  have len: "n \<le> off" "off + length data \<le> length ?xs * sb_bpc t"
    using n fits q by (simp_all add: q_def bpc)
  have "(L(p \<mapsto> File_node ?xs n)) p = Some (File_node ?xs n)" by simp
  from write_behind_end [OF t(2) this pne len data] obtain u
    where u: "fat_exec (Write p data off) t = Inr (int (length data), u)"
      "represents u ((tree_of s L)(p \<mapsto> Plain (take off (file_bytes s ?xs) @ data)))"
    unfolding t(3,4) fun_upd_upd by blast
  have "take off (file_bytes s ?xs) = take off (file_bytes s cs)"
    using take_file_bytes [OF cs(1,5) q, of off] len(2) q bpc by simp
  also have "\<dots> = take off bs" using n(2) by (subst bs) (simp add: min_absorb1)
  finally have "take off (file_bytes s ?xs) = take off bs" .
  moreover have "take n (file_bytes s cs) = take n bs" using lt by (subst bs) (simp add: min_absorb1)
  then have "represents t ((tree_of s L)(p \<mapsto> Plain (take n bs)))"
    using represents_tree [OF t(2)] t(3) by simp
  ultimately show ?thesis using t(1) u by auto
qed

theorem truncated_bytes_return_witness:
  "\<exists>t u. fat_exec (Truncate [name_a] 1) disk_data = Inr (0, t) \<and> represents t (tree_a [1]) \<and>
    fat_exec (Write [name_a] [9] 2) t = Inr (1, u) \<and> represents u (tree_a [1, 2, 9])"
proof -
  have T: "tree_of disk_data layout_data [name_a] = Some (Plain [1, 2, 3])"
    by (simp add: disk_data_inv(2) tree_a_def)
  have p: "(1 :: nat) < 2" "2 \<le> length [1, 2, 3 :: byte]" "[9 :: byte] \<noteq> []" "length [9 :: byte] < 2 ^ 31"
    "2 + length [9 :: byte] \<le> Suc (1 div sb_bpc disk_data) * sb_bpc disk_data"
    by (simp_all add: disk_data_bpc)
  have trees: "(tree_a [1, 2, 3])([name_a] \<mapsto> Plain xs) = tree_a xs" for xs
    by (auto simp: tree_a_def)
  from truncated_bytes_return [OF disk_data_inv(1) T p]
  show ?thesis by (simp add: disk_data_inv(2) trees One_nat_def numeral_2_eq_2)
qed

section \<open>Requests\<close>





end
