(* ===== verification/Nfs_Types.thy ===== *)
theory Nfs_Types
  imports FS_Prelude
begin

text \<open>
  The messages of the NFS server (\<open>src/NFS/nfs.h\<close>): constants, enumerations and structures
  with the fields in the order of the source. \<open>uint32\<close> is \<open>u_long\<close> there and has 64 bits on
  the platforms the server builds for, enumerations and \<open>bool_t\<close> are 32-bit integers that
  need not hold an enumerator. A counted array (a length and a pointer) is the list of its
  elements. A union of a result is the storage of its larger member \<open>resok\<close>; the member
  \<open>resfail\<close> is the view of its first field.
\<close>

section \<open>Constants and enumerations\<close>

definition NFS3_FHSIZE :: nat where "NFS3_FHSIZE = 64"
definition NFS3_COOKIEVERFSIZE :: nat where "NFS3_COOKIEVERFSIZE = 8"
definition NFS3_CREATEVERFSIZE :: nat where "NFS3_CREATEVERFSIZE = 8"
definition NFS3_WRITEVERFSIZE :: nat where "NFS3_WRITEVERFSIZE = 8"
definition MNTPATHLEN :: nat where "MNTPATHLEN = 1024"
definition MNTNAMLEN :: nat where "MNTNAMLEN = 255"
definition FHSIZE3 :: nat where "FHSIZE3 = 64"

text \<open>The bound \<open>~0\<close> of arrays and strings without one of their own, as an \<open>u_int\<close>.\<close>

definition XDR_NOBOUND :: nat where "XDR_NOBOUND = 4294967295"

type_synonym nfs_uint64 = u64
type_synonym nfs_int64 = u64
type_synonym nfs_uint32 = u64
type_synonym nfs_int32 = u64
type_synonym bool_t = u32
type_synonym enum_t = u32
type_synonym cookieverf3 = "byte list"

definition MNT3_OK :: enum_t where "MNT3_OK = 0"
definition NFS3_OK :: enum_t where "NFS3_OK = 0"
definition NFS3ERR_NOENT :: enum_t where "NFS3ERR_NOENT = 2"
definition NFS3ERR_IO :: enum_t where "NFS3ERR_IO = 5"

text \<open>The enumerators of \<open>mountstat3\<close>, \<open>nfsstat3\<close> and \<open>ftype3\<close>, in the order of the source.\<close>

definition mountstat3 :: "enum_t list" where
  "mountstat3 = [0, 1, 2, 5, 13, 20, 22, 63, 10004, 10006]"

definition nfsstat3 :: "enum_t list" where
  "nfsstat3 = [0, 1, 2, 5, 6, 13, 17, 18, 19, 20, 21, 22, 27, 28, 30, 31, 63, 66, 69, 70, 71,
     10001, 10002, 10003, 10004, 10005, 10006, 10007, 10008]"

definition ftype3 :: "enum_t list" where
  "ftype3 = [1, 2, 3, 4, 5, 6, 7]"

definition FSF3_LINK :: u64 where "FSF3_LINK = 0x0001"
definition FSF3_SYMLINK :: u64 where "FSF3_SYMLINK = 0x0002"
definition FSF3_HOMOGENEOUS :: u64 where "FSF3_HOMOGENEOUS = 0x0008"
definition FSF3_CANSETTIME :: u64 where "FSF3_CANSETTIME = 0x0010"

definition ACCESS3_READ :: u64 where "ACCESS3_READ = 0x0001"
definition ACCESS3_LOOKUP :: u64 where "ACCESS3_LOOKUP = 0x0002"
definition ACCESS3_MODIFY :: u64 where "ACCESS3_MODIFY = 0x0004"
definition ACCESS3_EXTEND :: u64 where "ACCESS3_EXTEND = 0x0008"
definition ACCESS3_DELETE :: u64 where "ACCESS3_DELETE = 0x0010"
definition ACCESS3_EXECUTE :: u64 where "ACCESS3_EXECUTE = 0x0020"

section \<open>Attributes\<close>

record nfs_fh3 =
  fh_data :: "byte list"

record nfstime3 =
  seconds :: nfs_uint32
  nseconds :: nfs_uint32

record specdata3 =
  specdata1 :: nfs_uint32
  specdata2 :: nfs_uint32

record fattr3 =
  ftype :: enum_t
  fmode :: nfs_uint32
  nlink :: nfs_uint32
  uid :: nfs_uint32
  gid :: nfs_uint32
  fsize :: nfs_uint64
  used :: nfs_uint64
  rdev :: specdata3
  fsid :: nfs_uint64
  fileid :: nfs_uint64
  atime :: nfstime3
  mtime :: nfstime3
  ctime :: nfstime3

record post_op_attr =
  attributes_follow :: bool_t
  attributes :: fattr3

section \<open>MOUNT\<close>

record mountres3_ok =
  fhandle :: "byte list"
  auth_flavors :: "u32 list"

record mountres3 =
  fhs_status :: enum_t
  mountinfo :: mountres3_ok

section \<open>FSINFO\<close>

record FSINFO3args =
  fsroot :: nfs_fh3

record FSINFO3resok =
  obj_attributes :: post_op_attr
  rtmax :: nfs_uint32
  rtpref :: nfs_uint32
  rtmult :: nfs_uint32
  wtmax :: nfs_uint32
  wtpref :: nfs_uint32
  wtmult :: nfs_uint32
  dtpref :: nfs_uint32
  maxfilesize :: nfs_uint64
  time_delta :: nfstime3
  properties :: nfs_uint32

record FSINFO3resfail =
  obj_attributes :: post_op_attr

record FSINFO3res =
  status :: enum_t
  resok :: FSINFO3resok

definition FSINFO3_resfail :: "FSINFO3res \<Rightarrow> FSINFO3resfail" where
  "FSINFO3_resfail r =
     \<lparr>FSINFO3resfail.obj_attributes = FSINFO3resok.obj_attributes (FSINFO3res.resok r)\<rparr>"

definition FSINFO3_resfail_update ::
    "(FSINFO3resfail \<Rightarrow> FSINFO3resfail) \<Rightarrow> FSINFO3res \<Rightarrow> FSINFO3res" where
  "FSINFO3_resfail_update f r =
     r\<lparr>FSINFO3res.resok := (FSINFO3res.resok r)
        \<lparr>FSINFO3resok.obj_attributes := FSINFO3resfail.obj_attributes (f (FSINFO3_resfail r))\<rparr>\<rparr>"

section \<open>PATHCONF\<close>

record PATHCONF3args =
  object :: nfs_fh3

record PATHCONF3resok =
  obj_attributes :: post_op_attr
  linkmax :: nfs_uint32
  name_max :: nfs_uint32
  no_trunc :: bool_t
  chown_restricted :: bool_t
  case_insensitive :: bool_t
  case_preserving :: bool_t

record PATHCONF3resfail =
  obj_attributes :: post_op_attr

record PATHCONF3res =
  status :: enum_t
  resok :: PATHCONF3resok

definition PATHCONF3_resfail :: "PATHCONF3res \<Rightarrow> PATHCONF3resfail" where
  "PATHCONF3_resfail r =
     \<lparr>PATHCONF3resfail.obj_attributes = PATHCONF3resok.obj_attributes (PATHCONF3res.resok r)\<rparr>"

definition PATHCONF3_resfail_update ::
    "(PATHCONF3resfail \<Rightarrow> PATHCONF3resfail) \<Rightarrow> PATHCONF3res \<Rightarrow> PATHCONF3res" where
  "PATHCONF3_resfail_update f r =
     r\<lparr>PATHCONF3res.resok := (PATHCONF3res.resok r)
        \<lparr>PATHCONF3resok.obj_attributes := PATHCONF3resfail.obj_attributes (f (PATHCONF3_resfail r))\<rparr>\<rparr>"

section \<open>GETATTR\<close>

record GETATTR3args =
  object :: nfs_fh3

record GETATTR3resok =
  obj_attributes :: fattr3

record GETATTR3res =
  status :: enum_t
  resok :: GETATTR3resok

section \<open>ACCESS\<close>

record ACCESS3args =
  object :: nfs_fh3
  access :: nfs_uint32

record ACCESS3resok =
  obj_attributes :: post_op_attr
  access :: nfs_uint32

record ACCESS3resfail =
  obj_attributes :: post_op_attr

record ACCESS3res =
  status :: enum_t
  resok :: ACCESS3resok

definition ACCESS3_resfail :: "ACCESS3res \<Rightarrow> ACCESS3resfail" where
  "ACCESS3_resfail r =
     \<lparr>ACCESS3resfail.obj_attributes = ACCESS3resok.obj_attributes (ACCESS3res.resok r)\<rparr>"

definition ACCESS3_resfail_update ::
    "(ACCESS3resfail \<Rightarrow> ACCESS3resfail) \<Rightarrow> ACCESS3res \<Rightarrow> ACCESS3res" where
  "ACCESS3_resfail_update f r =
     r\<lparr>ACCESS3res.resok := (ACCESS3res.resok r)
        \<lparr>ACCESS3resok.obj_attributes := ACCESS3resfail.obj_attributes (f (ACCESS3_resfail r))\<rparr>\<rparr>"

section \<open>READDIR\<close>

record READDIR3args =
  dir :: nfs_fh3
  cookie :: nfs_uint64
  cookieverf :: cookieverf3
  count :: nfs_uint32

text \<open>A directory entry with the pointer to the entry after it.\<close>

datatype entry3 =
  Entry3 (entry_fileid: nfs_uint64) (entry_name: cstring) (entry_cookie: nfs_uint64)
    (nextentry: "entry3 option")

record dirlist3 =
  entries :: "entry3 option"
  eof :: bool_t

record READDIR3resok =
  dir_attributes :: post_op_attr
  cookieverf :: cookieverf3
  reply :: dirlist3

record READDIR3resfail =
  dir_attributes :: post_op_attr

record READDIR3res =
  status :: enum_t
  resok :: READDIR3resok

definition READDIR3_resfail :: "READDIR3res \<Rightarrow> READDIR3resfail" where
  "READDIR3_resfail r =
     \<lparr>READDIR3resfail.dir_attributes = READDIR3resok.dir_attributes (READDIR3res.resok r)\<rparr>"

definition READDIR3_resfail_update ::
    "(READDIR3resfail \<Rightarrow> READDIR3resfail) \<Rightarrow> READDIR3res \<Rightarrow> READDIR3res" where
  "READDIR3_resfail_update f r =
     r\<lparr>READDIR3res.resok := (READDIR3res.resok r)
        \<lparr>READDIR3resok.dir_attributes := READDIR3resfail.dir_attributes (f (READDIR3_resfail r))\<rparr>\<rparr>"

section \<open>LOOKUP\<close>

record diropargs3 =
  dir :: nfs_fh3
  name :: cstring

record LOOKUP3args =
  what :: diropargs3

record LOOKUP3resok =
  object :: nfs_fh3
  obj_attributes :: post_op_attr
  dir_attributes :: post_op_attr

record LOOKUP3resfail =
  dir_attributes :: post_op_attr

text \<open>
  The first field of \<open>resok\<close> is the handle here, so that the length of the handle and the
  flag \<open>attributes_follow\<close> of \<open>resfail\<close> share their storage: both members are kept, and a
  store to either of the two is mirrored in the other one.
\<close>

record LOOKUP3res =
  status :: enum_t
  resok :: LOOKUP3resok
  resfail :: LOOKUP3resfail

section \<open>READ\<close>

record READ3args =
  file_fh :: nfs_fh3
  offset :: nfs_uint64
  count :: nfs_uint32

record READ3resok =
  file_attributes :: post_op_attr
  count :: nfs_uint32
  eof :: bool_t
  data :: "byte list"

record READ3resfail =
  file_attributes :: post_op_attr

record READ3res =
  status :: enum_t
  resok :: READ3resok

definition READ3_resfail :: "READ3res \<Rightarrow> READ3resfail" where
  "READ3_resfail r =
     \<lparr>READ3resfail.file_attributes = READ3resok.file_attributes (READ3res.resok r)\<rparr>"

definition READ3_resfail_update ::
    "(READ3resfail \<Rightarrow> READ3resfail) \<Rightarrow> READ3res \<Rightarrow> READ3res" where
  "READ3_resfail_update f r =
     r\<lparr>READ3res.resok := (READ3res.resok r)
        \<lparr>READ3resok.file_attributes := READ3resfail.file_attributes (f (READ3_resfail r))\<rparr>\<rparr>"

lemmas resfail_views =
  FSINFO3_resfail_def FSINFO3_resfail_update_def PATHCONF3_resfail_def PATHCONF3_resfail_update_def
  ACCESS3_resfail_def ACCESS3_resfail_update_def READDIR3_resfail_def READDIR3_resfail_update_def
  READ3_resfail_def READ3_resfail_update_def

section \<open>Program and procedure numbers\<close>

definition NULLPROC :: nat where "NULLPROC = 0"
definition MOUNTPROC3_MNT :: nat where "MOUNTPROC3_MNT = 1"
definition NFSPROC3_GETATTR :: nat where "NFSPROC3_GETATTR = 1"
definition NFSPROC3_LOOKUP :: nat where "NFSPROC3_LOOKUP = 3"
definition NFSPROC3_ACCESS :: nat where "NFSPROC3_ACCESS = 4"
definition NFSPROC3_READ :: nat where "NFSPROC3_READ = 6"
definition NFSPROC3_READDIR :: nat where "NFSPROC3_READDIR = 16"
definition NFSPROC3_FSINFO :: nat where "NFSPROC3_FSINFO = 19"
definition NFSPROC3_PATHCONF :: nat where "NFSPROC3_PATHCONF = 20"

end
