(* ===== verification/Posix_Types.thy ===== *)
theory Posix_Types
  imports FS_Prelude
begin

text \<open>
  What the two network servers share of the operating system's interface: the attributes of a
  file as \<open>stat\<close> returns them and the tests on its mode.
\<close>

unbundle bit_operations_syntax

record timespec =
  tv_sec :: u64
  tv_nsec :: u64

record posix_stat =
  s_dev :: u64
  s_ino :: u64
  s_mode :: u32
  s_nlink :: u64
  s_uid :: u32
  s_gid :: u32
  s_rdev :: u64
  s_size :: u64
  s_atim :: timespec
  s_mtim :: timespec
  s_ctim :: timespec

definition mode_is_reg :: "u32 \<Rightarrow> bool" where
  "mode_is_reg m \<longleftrightarrow> m AND 0xF000 = 0x8000"

definition mode_is_dir :: "u32 \<Rightarrow> bool" where
  "mode_is_dir m \<longleftrightarrow> m AND 0xF000 = 0x4000"

end
