(* ===== verification/Nfs_Tools.thy ===== *)
theory Nfs_Tools
  imports Nfs_Types Posix_Types
begin

text \<open>
  The helpers of the NFS server (\<open>src/NFS/tools.c\<close> and \<open>src/NFS/read.c\<close>): attributes from
  \<open>stat\<close>, the linked list of directory entries, the size and the layout of file handles, and
  the reading of a file. What the operating system answers is the record \<open>nfs_env\<close>.
\<close>

unbundle bit_operations_syntax

section \<open>The operating system\<close>

record dirent =
  d_ino :: u64
  d_off :: u64
  d_name :: cstring

text \<open>
  The answers to the calls of one request: \<open>stat\<close> and the entries of a directory (\<open>None\<close> for
  a failure), the descriptor of \<open>open\<close> and the result of \<open>lseek\<close> (negative for a failure),
  the bytes \<open>pread\<close> stores, whether the \<open>k\<close>-th allocation of the request succeeds, and the
  socket type. \<open>os_tail\<close> is the memory behind the bytes of a file handle, which the library
  allocates without a terminating NUL, and \<open>os_stale\<close> is what the storage of a name returned
  by \<open>readdir\<close> holds once the directory has been closed.
\<close>

record nfs_env =
  os_stat :: "cstring \<Rightarrow> posix_stat option"
  os_dir :: "cstring \<Rightarrow> dirent list option"
  os_open :: "cstring \<Rightarrow> int"
  os_lseek :: "int \<Rightarrow> int \<Rightarrow> int"
  os_pread :: "int \<Rightarrow> nat \<Rightarrow> int \<Rightarrow> byte list option"
  os_malloc :: "nat \<Rightarrow> nat \<Rightarrow> bool"
  os_sockopt :: "int option"
  os_tail :: "byte list"
  os_stale :: "cstring \<Rightarrow> cstring"

section \<open>Attributes\<close>

definition timespec_to_nfstime3 :: "timespec \<Rightarrow> nfstime3" where
  "timespec_to_nfstime3 ts = \<lparr>seconds = tv_sec ts, nseconds = tv_nsec ts\<rparr>"

text \<open>\<open>major\<close> and \<open>minor\<close> of \<open>sys/sysmacros.h\<close>.\<close>

definition dev_major :: "u64 \<Rightarrow> u32" where
  "dev_major d = ucast (drop_bit 8 (d AND 0x00000000000fff00) OR
     drop_bit 32 (d AND 0xfffff00000000000))"

definition dev_minor :: "u64 \<Rightarrow> u32" where
  "dev_minor d = ucast ((d AND 0x00000000000000ff) OR drop_bit 12 (d AND 0x00000ffffff00000))"

definition attributes_of :: "posix_stat \<Rightarrow> fattr3" where
  "attributes_of st =
     (let type = (-1 :: u32);
          type = (if mode_is_reg (s_mode st) then 1 else type);
          type = (if mode_is_dir (s_mode st) then 2 else type)
      in \<lparr>ftype = type,
          fmode = ucast (s_mode st),
          nlink = s_nlink st,
          uid = ucast (s_uid st),
          gid = ucast (s_gid st),
          fsize = s_size st,
          used = s_size st,
          rdev = \<lparr>specdata1 = ucast (dev_major (s_rdev st)),
                  specdata2 = ucast (dev_minor (s_rdev st))\<rparr>,
          fsid = s_dev st,
          fileid = s_ino st,
          atime = timespec_to_nfstime3 (s_atim st),
          mtime = timespec_to_nfstime3 (s_mtim st),
          ctime = timespec_to_nfstime3 (s_ctim st)\<rparr>)"

definition fill_attributes :: "nfs_env \<Rightarrow> cstring \<Rightarrow> fattr3 \<Rightarrow> int \<times> fattr3" where
  "fill_attributes env path attrs =
     (case os_stat env path of
        None \<Rightarrow> (-1, attrs)
      | Some st \<Rightarrow> (0, attributes_of st))"

section \<open>Directory entries\<close>

text \<open>The list that starts at the first of some entries, each linked to the one after it.\<close>

fun link_entries :: "entry3 list \<Rightarrow> entry3 option" where
  "link_entries [] = None"
| "link_entries (Entry3 i n c _ # es) = Some (Entry3 i n c (link_entries es))"

text \<open>The size of an \<open>entry3\<close>: three words and a pointer.\<close>

definition sizeof_entry3 :: nat where "sizeof_entry3 = 32"

text \<open>
  The loop over the entries of the directory: \<open>acc\<close> are the entries allocated so far, and
  linking the new one behind \<open>prevEntry\<close> appends it to them. The result is the list of
  the entries, \<open>None\<close> when an allocation failed and \<open>*entries\<close> is left as it was.
\<close>

fun readdir_loop :: "nfs_env \<Rightarrow> entry3 list \<Rightarrow> dirent list \<Rightarrow> entry3 list option" where
  "readdir_loop env acc [] = Some acc"
| "readdir_loop env acc (d # ds) =
     (if os_malloc env (length acc) sizeof_entry3
      then readdir_loop env (acc @ [Entry3 (d_ino d) (os_stale env (d_name d)) (d_off d) None]) ds
      else None)"

definition fill_entries_for_readdir ::
    "nfs_env \<Rightarrow> cstring \<Rightarrow> entry3 option \<Rightarrow> entry3 option \<times> int" where
  "fill_entries_for_readdir env dirPath es =
     (case os_dir env dirPath of
        None \<Rightarrow> (es, 1)
      | Some ds \<Rightarrow>
          (case readdir_loop env [] ds of
             None \<Rightarrow> (es, 1)
           | Some acc \<Rightarrow> (link_entries acc, 0)))"

section \<open>Sockets and handles\<close>

definition SOCK_STREAM :: int where "SOCK_STREAM = 1"

definition get_socket_type :: "nfs_env \<Rightarrow> int" where
  "get_socket_type env = (case os_sockopt env of None \<Rightarrow> -1 | Some v \<Rightarrow> v)"

definition FH_MINLEN :: nat where "FH_MINLEN = 21"
definition FH_MAXBUF :: nat where "FH_MAXBUF = 64"
definition FH_MAXLEN :: nat where "FH_MAXLEN = FH_MAXBUF - FH_MINLEN"
definition NFS_MAXPATHLEN :: nat where "NFS_MAXPATHLEN = 1024"
definition NFS_MAXDATA_TCP :: u64 where "NFS_MAXDATA_TCP = 524288"
definition NFS_MAXDATA_UDP :: u64 where "NFS_MAXDATA_UDP = 32768"

record unfs3_fh_t =
  fh_dev :: nfs_uint32
  fh_ino :: nfs_uint64
  fh_gen :: nfs_uint32
  fh_pwhash :: nfs_uint32
  fh_len :: byte
  fh_inos :: "byte list"

text \<open>\<open>len\<close> bytes, one byte for \<open>len\<close> itself and four words of eight bytes.\<close>

definition fh_length :: "unfs3_fh_t \<Rightarrow> u32" where
  "fh_length fh = of_nat (unat (fh_len fh) + 1 + 8 + 8 + 8 + 8)"

text \<open>The handle is the first \<open>fh_length\<close> bytes of the buffer.\<close>

definition fh_encode :: "unfs3_fh_t \<Rightarrow> byte list \<Rightarrow> (u32 \<times> byte list) res" where
  "fh_encode fh buffer =
     bind_res (poke buffer 0 (le64 (fh_dev fh))) (\<lambda>buffer.
     bind_res (poke buffer 8 (le64 (fh_ino fh))) (\<lambda>buffer.
     bind_res (poke buffer 16 (le64 (fh_gen fh))) (\<lambda>buffer.
     bind_res (poke buffer 24 (le64 (fh_pwhash fh))) (\<lambda>buffer.
     bind_res (poke buffer 32 [fh_len fh]) (\<lambda>buffer.
     if fh_len fh \<noteq> 0 then
       bind_res (peek (fh_inos fh) 0 (unat (fh_len fh))) (\<lambda>inos.
       bind_res (poke buffer 33 inos) (\<lambda>buffer. Inr (fh_length fh, buffer)))
     else Inr (fh_length fh, buffer))))))"

section \<open>Reading\<close>

definition open_file :: "nfs_env \<Rightarrow> cstring \<Rightarrow> int" where
  "open_file env file_path = os_open env file_path"

definition read_file_chunk :: "nfs_env \<Rightarrow> int \<Rightarrow> int \<Rightarrow> nat \<Rightarrow> byte list option" where
  "read_file_chunk env fd off chunk_size = os_pread env fd chunk_size off"

text \<open>
  When the second allocation fails the pointer of the data is null; a result with an error
  status does not transmit it.
\<close>

definition fill_READ3res_stream ::
    "nfs_env \<Rightarrow> cstring \<Rightarrow> int \<Rightarrow> nat \<Rightarrow> READ3res \<Rightarrow> READ3res" where
  "fill_READ3res_stream env file_path off cnt result =
     (let fd = open_file env file_path
      in if fd = -1 then result\<lparr>READ3res.status := NFS3ERR_IO\<rparr>
         else if os_lseek env fd off = -1 then result\<lparr>READ3res.status := NFS3ERR_IO\<rparr>
         else if \<not> os_malloc env 0 cnt then result\<lparr>READ3res.status := NFS3ERR_IO\<rparr>
         else
           (case read_file_chunk env fd off cnt of
              None \<Rightarrow> result\<lparr>READ3res.status := NFS3ERR_IO\<rparr>
            | Some data_buffer \<Rightarrow>
                if 0 < length data_buffer then
                  (let result = result\<lparr>READ3res.status := NFS3_OK,
                         READ3res.resok := (READ3res.resok result)
                           \<lparr>READ3resok.count := of_nat (length data_buffer), READ3resok.eof := 0\<rparr>\<rparr>
                   in if os_malloc env 1 (length data_buffer)
                      then result\<lparr>READ3res.resok :=
                        (READ3res.resok result)\<lparr>READ3resok.data := data_buffer\<rparr>\<rparr>
                      else result\<lparr>READ3res.status := NFS3ERR_IO, READ3res.resok :=
                        (READ3res.resok result)\<lparr>READ3resok.data := []\<rparr>\<rparr>)
                else
                  result\<lparr>READ3res.status := NFS3_OK,
                    READ3res.resok := (READ3res.resok result)
                      \<lparr>READ3resok.count := 0, READ3resok.eof := 1, READ3resok.data := []\<rparr>\<rparr>))"

section \<open>The layout of handles\<close>

definition fh_header :: "unfs3_fh_t \<Rightarrow> byte list" where
  "fh_header fh = le64 (fh_dev fh) @ le64 (fh_ino fh) @ le64 (fh_gen fh) @ le64 (fh_pwhash fh) @ [fh_len fh]"

lemma length_fh_header [simp]: "length (fh_header fh) = 33"
  by (simp add: fh_header_def)

lemma poke_after:
  "n = length A \<Longrightarrow> length bs \<le> length R \<Longrightarrow> poke (A @ R) n bs = Inr (A @ bs @ drop (length bs) R)"
  by (simp add: poke_def splice_def)

lemma fh_encode_header:
  assumes "33 \<le> length buffer"
  shows "fh_encode fh buffer =
    (if fh_len fh \<noteq> 0 then
       bind_res (peek (fh_inos fh) 0 (unat (fh_len fh))) (\<lambda>inos.
       bind_res (poke (fh_header fh @ drop 33 buffer) 33 inos) (\<lambda>buffer. Inr (fh_length fh, buffer)))
     else Inr (fh_length fh, fh_header fh @ drop 33 buffer))"
proof -
  let ?A = "le64 (fh_dev fh)" and ?B = "le64 (fh_ino fh)" and ?C = "le64 (fh_gen fh)"
  have "poke buffer 0 ?A = Inr (?A @ drop 8 buffer)"
    using poke_after [of 0 "[]" ?A buffer] assms by simp
  moreover have "poke (?A @ drop 8 buffer) 8 ?B = Inr ((?A @ ?B) @ drop 16 buffer)"
    using poke_after [of 8 ?A ?B "drop 8 buffer"] assms by simp
  moreover have "poke ((?A @ ?B) @ drop 16 buffer) 16 ?C = Inr ((?A @ ?B @ ?C) @ drop 24 buffer)"
    using poke_after [of 16 "?A @ ?B" ?C "drop 16 buffer"] assms by simp
  moreover have "poke ((?A @ ?B @ ?C) @ drop 24 buffer) 24 (le64 (fh_pwhash fh)) =
      Inr ((?A @ ?B @ ?C @ le64 (fh_pwhash fh)) @ drop 32 buffer)"
    using poke_after [of 24 "?A @ ?B @ ?C" "le64 (fh_pwhash fh)" "drop 24 buffer"] assms by simp
  moreover have "poke ((?A @ ?B @ ?C @ le64 (fh_pwhash fh)) @ drop 32 buffer) 32 [fh_len fh] =
      Inr (fh_header fh @ drop 33 buffer)"
    using poke_after [of 32 "?A @ ?B @ ?C @ le64 (fh_pwhash fh)" "[fh_len fh]" "drop 32 buffer"] assms
    by (simp add: fh_header_def)
  ultimately show ?thesis by (simp add: fh_encode_def)
qed

lemma fh_encode_fits:
  assumes "unat (fh_len fh) + 33 \<le> length buffer" and "unat (fh_len fh) \<le> length (fh_inos fh)"
  shows "fh_encode fh buffer = Inr (fh_length fh,
    fh_header fh @ take (unat (fh_len fh)) (fh_inos fh) @ drop (33 + unat (fh_len fh)) buffer)"
proof -
  let ?inos = "take (unat (fh_len fh)) (fh_inos fh)"
  have "poke (fh_header fh @ drop 33 buffer) 33 ?inos =
      Inr (fh_header fh @ ?inos @ drop (33 + unat (fh_len fh)) buffer)"
    using poke_after [of 33 "fh_header fh" ?inos "drop 33 buffer"] assms by (simp add: add.commute min_absorb2)
  then show ?thesis
    using assms by (simp add: fh_encode_header slice_def)
qed

lemma fh_encode_overflows:
  assumes "33 \<le> length buffer" and "length buffer < unat (fh_len fh) + 33"
    and "unat (fh_len fh) \<le> length (fh_inos fh)"
  shows "fh_encode fh buffer = Inl Out_of_bounds"
proof -
  have "fh_len fh \<noteq> 0" using assms(1,2) by auto
  then show ?thesis using assms by (simp add: fh_encode_header poke_def slice_def)
qed

lemma fh_fields:
  "un_le64 (slice 0 8 (fh_header fh @ R)) = fh_dev fh"
  "un_le64 (slice 8 8 (fh_header fh @ R)) = fh_ino fh"
  "un_le64 (slice 16 8 (fh_header fh @ R)) = fh_gen fh"
  "un_le64 (slice 24 8 (fh_header fh @ R)) = fh_pwhash fh"
  "(fh_header fh @ R) ! 32 = fh_len fh"
  by (simp_all add: fh_header_def slice_def u64_codec.dec_enc nth_append)

lemma unat_fh_length: "unat (fh_length fh) = unat (fh_len fh) + 33"
  using unat_byte_bound [of "fh_len fh"]
  by (simp add: fh_length_def unat_of_nat take_bit_nat_eq_self_iff flip: of_nat_add)

end
