(* ===== verification/Nfs_Server.thy ===== *)
theory Nfs_Server
  imports Nfs_Tools
begin

text \<open>
  The procedures of the NFS server (\<open>src/NFS/nfs_server.c\<close>). A file handle is the path of
  the file. Each procedure fills a static result and returns its address: the results are the
  state of the server, and what a procedure does not set keeps the value of an earlier
  request.
\<close>

section \<open>The static results\<close>

record nfs_state =
  mnt_result :: mountres3
  fsinfo_result :: FSINFO3res
  pathconf_result :: PATHCONF3res
  getattr_result :: GETATTR3res
  access_result :: ACCESS3res
  readdir_result :: READDIR3res
  lookup_result :: LOOKUP3res
  read3_result :: READ3res

text \<open>Static storage is zero when the program starts.\<close>

definition zero_time :: nfstime3 where "zero_time = \<lparr>seconds = 0, nseconds = 0\<rparr>"

definition zero_fattr :: fattr3 where
  "zero_fattr = \<lparr>ftype = 0, fmode = 0, nlink = 0, uid = 0, gid = 0, fsize = 0, used = 0,
     rdev = \<lparr>specdata1 = 0, specdata2 = 0\<rparr>, fsid = 0, fileid = 0,
     atime = zero_time, mtime = zero_time, ctime = zero_time\<rparr>"

definition zero_post_op :: post_op_attr where
  "zero_post_op = \<lparr>attributes_follow = 0, attributes = zero_fattr\<rparr>"

definition initial_results :: nfs_state where
  "initial_results = \<lparr>
     mnt_result = \<lparr>fhs_status = 0, mountinfo = \<lparr>fhandle = [], auth_flavors = []\<rparr>\<rparr>,
     fsinfo_result = \<lparr>FSINFO3res.status = 0, resok =
       \<lparr>FSINFO3resok.obj_attributes = zero_post_op, rtmax = 0, rtpref = 0, rtmult = 0, wtmax = 0,
        wtpref = 0, wtmult = 0, dtpref = 0, maxfilesize = 0, time_delta = zero_time,
        properties = 0\<rparr>\<rparr>,
     pathconf_result = \<lparr>PATHCONF3res.status = 0, resok =
       \<lparr>PATHCONF3resok.obj_attributes = zero_post_op, linkmax = 0, name_max = 0, no_trunc = 0,
        chown_restricted = 0, case_insensitive = 0, case_preserving = 0\<rparr>\<rparr>,
     getattr_result = \<lparr>GETATTR3res.status = 0, resok = \<lparr>GETATTR3resok.obj_attributes = zero_fattr\<rparr>\<rparr>,
     access_result = \<lparr>ACCESS3res.status = 0, resok =
       \<lparr>ACCESS3resok.obj_attributes = zero_post_op, access = 0\<rparr>\<rparr>,
     readdir_result = \<lparr>READDIR3res.status = 0, resok =
       \<lparr>READDIR3resok.dir_attributes = zero_post_op, cookieverf = replicate 8 0,
        reply = \<lparr>entries = None, eof = 0\<rparr>\<rparr>\<rparr>,
     lookup_result = \<lparr>LOOKUP3res.status = 0, resok =
       \<lparr>LOOKUP3resok.object = \<lparr>fh_data = []\<rparr>, obj_attributes = zero_post_op,
        dir_attributes = zero_post_op\<rparr>,
       resfail = \<lparr>LOOKUP3resfail.dir_attributes = zero_post_op\<rparr>\<rparr>,
     read3_result = \<lparr>READ3res.status = 0, resok =
       \<lparr>READ3resok.file_attributes = zero_post_op, count = 0, eof = 0, data = []\<rparr>\<rparr>\<rparr>"

section \<open>Paths in handles\<close>

text \<open>
  \<open>path[len] = '\0'\<close> ends the path behind the bytes of the handle, in the first byte of the
  memory that follows them. An empty handle has a null pointer.
\<close>

definition terminated_path :: "nfs_fh3 \<Rightarrow> cstring res" where
  "terminated_path h =
     (if fh_data h = [] then Inl Out_of_bounds else Inr (takeWhile (\<lambda>b. b \<noteq> 0) (fh_data h)))"

text \<open>Without that store the path ends where the memory behind the handle holds a NUL.\<close>

definition raw_path :: "nfs_env \<Rightarrow> nfs_fh3 \<Rightarrow> cstring res" where
  "raw_path env h =
     (if fh_data h = [] \<or> 0 \<notin> set (fh_data h @ os_tail env) then Inl Out_of_bounds
      else Inr (takeWhile (\<lambda>b. b \<noteq> 0) (fh_data h @ os_tail env)))"

text \<open>\<open>attributes_follow = 1; fill_attributes(path, &attributes);\<close>\<close>

definition follow_attributes :: "nfs_env \<Rightarrow> cstring \<Rightarrow> post_op_attr \<Rightarrow> post_op_attr" where
  "follow_attributes env path p =
     p\<lparr>attributes_follow := 1, attributes := snd (fill_attributes env path (attributes p))\<rparr>"

section \<open>Procedures\<close>

definition AUTH_UNIX :: u32 where "AUTH_UNIX = 1"

definition mountproc3_mnt_3_svc :: "cstring \<Rightarrow> nfs_state \<Rightarrow> nfs_state" where
  "mountproc3_mnt_3_svc path s =
     s\<lparr>mnt_result := \<lparr>fhs_status = MNT3_OK,
        mountinfo = \<lparr>fhandle = path, auth_flavors = [AUTH_UNIX]\<rparr>\<rparr>\<rparr>"

definition nfsproc3_fsinfo_3_svc :: "nfs_env \<Rightarrow> FSINFO3args \<Rightarrow> nfs_state \<Rightarrow> nfs_state res" where
  "nfsproc3_fsinfo_3_svc env argp s =
     bind_res (raw_path env (fsroot argp)) (\<lambda>path.
       let maxdata = (if get_socket_type env = SOCK_STREAM then NFS_MAXDATA_TCP else NFS_MAXDATA_UDP);
           resok = FSINFO3res.resok (fsinfo_result s)
       in Inr (s\<lparr>fsinfo_result := \<lparr>FSINFO3res.status = NFS3_OK, resok =
            \<lparr>FSINFO3resok.obj_attributes =
               follow_attributes env path (FSINFO3resok.obj_attributes resok),
             rtmax = maxdata, rtpref = maxdata, rtmult = 4096,
             wtmax = maxdata, wtpref = maxdata, wtmult = 4096,
             dtpref = 4096, maxfilesize = NOT 0,
             time_delta = \<lparr>seconds = 1, nseconds = 0\<rparr>,
             properties = FSF3_LINK OR FSF3_SYMLINK OR FSF3_HOMOGENEOUS OR FSF3_CANSETTIME\<rparr>\<rparr>\<rparr>))"

definition nfsproc3_pathconf_3_svc ::
    "nfs_env \<Rightarrow> PATHCONF3args \<Rightarrow> nfs_state \<Rightarrow> nfs_state res" where
  "nfsproc3_pathconf_3_svc env argp s =
     bind_res (raw_path env (PATHCONF3args.object argp)) (\<lambda>path.
       let resok = PATHCONF3res.resok (pathconf_result s)
       in Inr (s\<lparr>pathconf_result := \<lparr>PATHCONF3res.status = NFS3_OK, resok =
            \<lparr>PATHCONF3resok.obj_attributes =
               follow_attributes env path (PATHCONF3resok.obj_attributes resok),
             linkmax = 0xFFFFFFFF, name_max = of_nat NFS_MAXPATHLEN, no_trunc = 1,
             chown_restricted = 0, case_insensitive = 0, case_preserving = 1\<rparr>\<rparr>\<rparr>))"

definition nfsproc3_getattr_3_svc :: "nfs_env \<Rightarrow> GETATTR3args \<Rightarrow> nfs_state \<Rightarrow> nfs_state res" where
  "nfsproc3_getattr_3_svc env argp s =
     bind_res (terminated_path (GETATTR3args.object argp)) (\<lambda>path.
       let attrs = GETATTR3resok.obj_attributes (GETATTR3res.resok (getattr_result s))
       in Inr (s\<lparr>getattr_result := \<lparr>GETATTR3res.status = NFS3_OK, resok =
            \<lparr>GETATTR3resok.obj_attributes = snd (fill_attributes env path attrs)\<rparr>\<rparr>\<rparr>))"

definition nfsproc3_access_3_svc :: "nfs_env \<Rightarrow> ACCESS3args \<Rightarrow> nfs_state \<Rightarrow> nfs_state res" where
  "nfsproc3_access_3_svc env argp s =
     bind_res (terminated_path (ACCESS3args.object argp)) (\<lambda>path.
       let resok = ACCESS3res.resok (access_result s)
       in Inr (s\<lparr>access_result := \<lparr>ACCESS3res.status = NFS3_OK, resok =
            \<lparr>ACCESS3resok.obj_attributes =
               follow_attributes env path (ACCESS3resok.obj_attributes resok),
             access = ACCESS3_READ OR ACCESS3_LOOKUP OR ACCESS3_MODIFY OR ACCESS3_EXTEND OR
               ACCESS3_DELETE OR ACCESS3_EXECUTE\<rparr>\<rparr>\<rparr>))"

text \<open>The status and the cookie verifier of this result are never set.\<close>

definition nfsproc3_readdir_3_svc :: "nfs_env \<Rightarrow> READDIR3args \<Rightarrow> nfs_state \<Rightarrow> nfs_state res" where
  "nfsproc3_readdir_3_svc env argp s =
     bind_res (terminated_path (READDIR3args.dir argp)) (\<lambda>path.
       let result = readdir_result s;
           resok = READDIR3res.resok result;
           (es, end_of_dir) = fill_entries_for_readdir env path None;
           reply = \<lparr>entries = es, eof = (if end_of_dir \<noteq> 0 then 0 else 1)\<rparr>
       in Inr (s\<lparr>readdir_result := result\<lparr>READDIR3res.resok :=
            resok\<lparr>READDIR3resok.dir_attributes :=
                    follow_attributes env path (READDIR3resok.dir_attributes resok),
                  READDIR3resok.reply := reply\<rparr>\<rparr>\<rparr>))"

text \<open>The path of an entry: a slash between the two parts unless the directory ends with one.\<close>

definition join_path :: "cstring \<Rightarrow> cstring \<Rightarrow> cstring res" where
  "join_path dirPath fileName =
     (if dirPath = [] then Inl Out_of_bounds
      else Inr (dirPath @ (if last dirPath \<noteq> 47 then [47] else []) @ fileName))"

text \<open>
  The handle of the result and the flag of its failure share their storage, see
  \<open>LOOKUP3res\<close>.
\<close>

definition nfsproc3_lookup_3_svc :: "nfs_env \<Rightarrow> LOOKUP3args \<Rightarrow> nfs_state \<Rightarrow> nfs_state res" where
  "nfsproc3_lookup_3_svc env argp s =
     bind_res (terminated_path (diropargs3.dir (what argp))) (\<lambda>dirPath.
       let fileName = name (what argp)
       in if \<not> os_malloc env 0 (length dirPath + length fileName + 2) then Inl Out_of_bounds
          else bind_res (join_path dirPath fileName) (\<lambda>path.
            let result = lookup_result s;
                ok = LOOKUP3res.resok result;
                ok = ok\<lparr>LOOKUP3resok.dir_attributes :=
                  follow_attributes env dirPath (LOOKUP3resok.dir_attributes ok)\<rparr>;
                obj = LOOKUP3resok.obj_attributes ok;
                fail = LOOKUP3resfail.dir_attributes (LOOKUP3res.resfail result);
                (r, attrs) = fill_attributes env path (attributes obj)
            in Inr (s\<lparr>lookup_result :=
                 if r = 0
                 then \<lparr>LOOKUP3res.status = NFS3_OK,
                       resok = ok\<lparr>LOOKUP3resok.object := \<lparr>fh_data = path\<rparr>,
                         LOOKUP3resok.obj_attributes :=
                           \<lparr>attributes_follow = 1, attributes = attrs\<rparr>\<rparr>,
                       resfail = \<lparr>LOOKUP3resfail.dir_attributes =
                         fail\<lparr>attributes_follow := of_nat (length path)\<rparr>\<rparr>\<rparr>
                 else \<lparr>LOOKUP3res.status = NFS3ERR_NOENT,
                       resok = ok\<lparr>LOOKUP3resok.object := \<lparr>fh_data = []\<rparr>,
                         LOOKUP3resok.obj_attributes := obj\<lparr>attributes := attrs\<rparr>\<rparr>,
                       resfail = \<lparr>LOOKUP3resfail.dir_attributes =
                         fail\<lparr>attributes_follow := 0\<rparr>\<rparr>\<rparr>\<rparr>)))"

definition nfsproc3_read_3_svc :: "nfs_env \<Rightarrow> READ3args \<Rightarrow> nfs_state \<Rightarrow> nfs_state res" where
  "nfsproc3_read_3_svc env argp s =
     bind_res (terminated_path (file_fh argp)) (\<lambda>path.
       Inr (s\<lparr>read3_result := fill_READ3res_stream env path (sint (READ3args.offset argp))
         (unat (READ3args.count argp)) (read3_result s)\<rparr>))"

end
