(* ===== verification/Xdr_Stream.thy ===== *)
theory Xdr_Stream
  imports FS_Prelude "HOL-Library.Extended_Nat"
begin

text \<open>
  XDR routines as the C code has them: a routine takes a stream and an object and works in
  both directions, according to the operation of the stream. Encoding appends to the
  buffer of the stream as long as there is room, decoding consumes the bytes of the stream
  and stores into the object, freeing releases what decoding has allocated. The theory holds
  the streams, the two ways in which the generated routines compose smaller ones (one
  routine per field of a structure, one per arm of a union), and the contract
  \<open>transmits\<close>: what has been encoded is decoded as the same value.
\<close>

named_theorems xdr_intros \<open>contract rules of the compositions of routines\<close>

section \<open>Streams and routines\<close>

text \<open>
  \<open>XDR_ENCODE out room\<close> is a stream that holds \<open>out\<close> and has room for \<open>room\<close> further
  bytes: a memory stream of a datagram is bounded, a record stream of a connection is not.
\<close>

datatype XDR =
    XDR_ENCODE "byte list" enat
  | XDR_DECODE "byte list"
  | XDR_FREE

text \<open>A routine returns \<open>FALSE\<close> (here \<open>None\<close>), or \<open>TRUE\<close> with the stream and the object after it.\<close>

type_synonym 'a xdrproc = "XDR \<Rightarrow> 'a \<Rightarrow> (XDR \<times> 'a) option"

text \<open>\<open>if (!xdr_f (xdrs, &objp->f)) return FALSE;\<close>\<close>

definition xdr_field :: "'f xdrproc \<Rightarrow> ('a \<Rightarrow> 'f) \<Rightarrow> (('f \<Rightarrow> 'f) \<Rightarrow> 'a \<Rightarrow> 'a) \<Rightarrow> 'a xdrproc" where
  "xdr_field p get upd xdrs obj =
     (case p xdrs (get obj) of
        None \<Rightarrow> None
      | Some (xdrs, v) \<Rightarrow> Some (xdrs, upd (\<lambda>_. v) obj))"

text \<open>The statements of a routine, one after the other, and \<open>return TRUE;\<close>\<close>

fun xdr_struct :: "'a xdrproc list \<Rightarrow> 'a xdrproc" where
  "xdr_struct [] xdrs obj = Some (xdrs, obj)"
| "xdr_struct (p # ps) xdrs obj =
     (case p xdrs obj of None \<Rightarrow> None | Some (xdrs, obj) \<Rightarrow> xdr_struct ps xdrs obj)"

text \<open>\<open>switch (objp->d) { ... }\<close>: the routine of the arm that the object selects.\<close>

definition xdr_switch :: "('a \<Rightarrow> 'd) \<Rightarrow> ('d \<Rightarrow> 'a xdrproc) \<Rightarrow> 'a xdrproc" where
  "xdr_switch disc arm xdrs obj = arm (disc obj) xdrs obj"

definition xdr_fail :: "'a xdrproc" where
  "xdr_fail xdrs obj = None"

section \<open>The contract of a routine\<close>

text \<open>
  \<open>carries p v w m\<close>: the routine writes \<open>v\<close> as the bytes \<open>w\<close> when there is room for them and
  fails when there is not, and reading \<open>w\<close> into an object \<open>o\<close> gives \<open>m o\<close>.
\<close>

definition carries :: "'a xdrproc \<Rightarrow> 'a \<Rightarrow> byte list \<Rightarrow> ('a \<Rightarrow> 'a) \<Rightarrow> bool" where
  "carries p v w m \<longleftrightarrow>
     (\<forall>out room. p (XDR_ENCODE out room) v =
        (if enat (length w) \<le> room
         then Some (XDR_ENCODE (out @ w) (room - enat (length w)), v) else None)) \<and>
     (\<forall>rest obj. p (XDR_DECODE (w @ rest)) obj = Some (XDR_DECODE rest, m obj))"

definition transmits :: "'a xdrproc \<Rightarrow> ('a \<Rightarrow> bool) \<Rightarrow> ('a \<Rightarrow> 'a \<Rightarrow> 'a) \<Rightarrow> bool" where
  "transmits p V m \<longleftrightarrow> (\<forall>v. V v \<longrightarrow> (\<exists>w. carries p v w (m v)))"

text \<open>The object after reading is the object written, whatever it held before.\<close>

abbreviation whole :: "'a \<Rightarrow> 'a \<Rightarrow> 'a" where
  "whole v obj \<equiv> v"

definition frees :: "'a xdrproc \<Rightarrow> bool" where
  "frees p \<longleftrightarrow> (\<forall>v. \<exists>v'. p XDR_FREE v = Some (XDR_FREE, v'))"

section \<open>Composition\<close>

lemma enat_room:
  "enat (m + n) \<le> room \<longleftrightarrow> enat m \<le> room \<and> enat n \<le> room - enat m"
  by (cases room) auto

lemma enat_room_diff: "room - enat m - enat n = room - enat (m + n)"
  by (cases room) auto

lemma carries_encode:
  "carries p v w m \<Longrightarrow> enat (length w) \<le> room \<Longrightarrow>
    p (XDR_ENCODE out room) v = Some (XDR_ENCODE (out @ w) (room - enat (length w)), v)"
  by (simp add: carries_def)

lemma carries_no_room:
  "carries p v w m \<Longrightarrow> \<not> enat (length w) \<le> room \<Longrightarrow> p (XDR_ENCODE out room) v = None"
  by (simp add: carries_def)

lemma carries_decode:
  "carries p v w m \<Longrightarrow> p (XDR_DECODE (w @ rest)) obj = Some (XDR_DECODE rest, m obj)"
  by (simp add: carries_def)

lemma carries_Nil: "carries (xdr_struct []) v [] (\<lambda>obj. obj)"
  by (simp add: carries_def zero_enat_def [symmetric])

lemma carries_Cons:
  assumes "carries p v w m" and "carries (xdr_struct ps) v w' m'"
  shows "carries (xdr_struct (p # ps)) v (w @ w') (\<lambda>obj. m' (m obj))"
  using assms by (auto simp: carries_def enat_room enat_room_diff simp flip: append_assoc)
    (simp_all add: append_assoc)

lemma xdr_struct_single [simp]: "xdr_struct [p] = p"
  by (intro ext) (simp split: option.split)

lemma xdr_struct_append:
  "xdr_struct (ps @ qs) xdrs obj =
     (case xdr_struct ps xdrs obj of None \<Rightarrow> None | Some (xdrs, obj) \<Rightarrow> xdr_struct qs xdrs obj)"
  by (induction ps arbitrary: xdrs obj) (auto split: option.split)

lemma carries_cong: "carries p v w m \<Longrightarrow> (\<And>obj. m obj = m' obj) \<Longrightarrow> carries p v w m'"
  by (simp add: carries_def)

lemma carries_field:
  assumes "carries p (get v) w m" and "upd (\<lambda>_. get v) v = v"
  shows "carries (xdr_field p get upd) v w (\<lambda>obj. upd (\<lambda>_. m (get obj)) obj)"
  using assms by (auto simp: carries_def xdr_field_def)

lemma transmits_Nil [xdr_intros]: "transmits (xdr_struct []) V (\<lambda>v obj. obj)"
  unfolding transmits_def by (intro allI impI exI) (rule carries_Nil)

lemma transmits_Cons [xdr_intros]:
  assumes "transmits p V m" and "transmits (xdr_struct ps) V m'"
  shows "transmits (xdr_struct (p # ps)) V (\<lambda>v obj. m' v (m v obj))"
  using assms carries_Cons by (fastforce simp: transmits_def)

lemma transmits_field [xdr_intros]:
  assumes "transmits p W m" and "\<And>v. V v \<Longrightarrow> W (get v)" and "\<And>v. upd (\<lambda>_. get v) v = v"
  shows "transmits (xdr_field p get upd) V (\<lambda>v obj. upd (\<lambda>_. m (get v) (get obj)) obj)"
  unfolding transmits_def
proof (intro allI impI)
  fix v assume "V v"
  then obtain w where "carries p (get v) w (m (get v))"
    using assms(1,2) by (auto simp: transmits_def)
  then show "\<exists>w. carries (xdr_field p get upd) v w (\<lambda>obj. upd (\<lambda>_. m (get v) (get obj)) obj)"
    using assms(3) by (intro exI carries_field)
qed

text \<open>
  A structure ends with a switch on a field that has been read by then: the merge of the
  statements before it stores the discriminant of the value written.
\<close>

lemma carries_switch:
  assumes "carries p v w m" and "carries (arm (disc v)) v w' m'"
    and "\<And>obj. disc (m obj) = disc v"
  shows "carries (xdr_struct [p, xdr_switch disc arm]) v (w @ w') (\<lambda>obj. m' (m obj))"
  using assms by (simp add: carries_def xdr_switch_def enat_room enat_room_diff)

lemma transmits_switch:
  assumes "transmits p V m"
    and "\<And>d. transmits (arm d) (\<lambda>v. V v \<and> disc v = d) (m' d)"
    and "\<And>v obj. V v \<Longrightarrow> disc (m v obj) = disc v"
  shows "transmits (xdr_struct [p, xdr_switch disc arm]) V (\<lambda>v obj. m' (disc v) v (m v obj))"
  unfolding transmits_def
proof (intro allI impI)
  fix v assume v: "V v"
  obtain w where w: "carries p v w (m v)"
    using assms(1) v by (auto simp: transmits_def)
  obtain w' where w': "carries (arm (disc v)) v w' (m' (disc v) v)"
    using assms(2) [of "disc v"] v by (auto simp: transmits_def)
  show "\<exists>w. carries (xdr_struct [p, xdr_switch disc arm]) v w (\<lambda>obj. m' (disc v) v (m v obj))"
    using carries_switch [where disc = disc and arm = arm, OF w w' assms(3) [OF v]] by blast
qed

lemma transmits_weaken: "transmits p V m \<Longrightarrow> (\<And>v. V' v \<Longrightarrow> V v) \<Longrightarrow> transmits p V' m"
  by (auto simp: transmits_def)

lemma transmits_cong:
  "transmits p V m \<Longrightarrow> (\<And>v obj. V v \<Longrightarrow> m v obj = m' v obj) \<Longrightarrow> transmits p V m'"
  by (auto simp: transmits_def carries_def)

text \<open>
  The generated routine of a union: the discriminant, then the member of the case \<open>c\<close>, or
  what the default arm does.
\<close>

lemma transmits_union:
  assumes "transmits p V m"
    and "transmits q (\<lambda>v. V v \<and> disc v = c) mq"
    and "\<And>d. d \<noteq> c \<Longrightarrow> transmits (r d) (\<lambda>v. V v \<and> disc v = d) mr"
    and "\<And>v obj. V v \<Longrightarrow> disc (m v obj) = disc v"
    and "\<And>v obj. V v \<Longrightarrow> disc v = c \<Longrightarrow> mq v (m v obj) = M v obj"
    and "\<And>v obj. V v \<Longrightarrow> disc v \<noteq> c \<Longrightarrow> mr v (m v obj) = M v obj"
  shows "transmits (xdr_struct [p, xdr_switch disc (\<lambda>d. if d = c then q else r d)]) V M"
proof -
  have "transmits (if d = c then q else r d) (\<lambda>v. V v \<and> disc v = d)
      (\<lambda>v obj. if d = c then mq v obj else mr v obj)" for d
    using assms(2,3) by simp
  then have "transmits (xdr_struct [p, xdr_switch disc (\<lambda>d. if d = c then q else r d)]) V
      (\<lambda>v obj. if disc v = c then mq v (m v obj) else mr v (m v obj))"
    by (rule transmits_switch [OF assms(1)]) (rule assms(4))
  then show ?thesis by (rule transmits_cong) (use assms(5,6) in auto)
qed

lemma transmits_fail: "(\<And>v. \<not> V v) \<Longrightarrow> transmits xdr_fail V m"
  by (simp add: transmits_def)

lemma transmits_roundtrip:
  assumes "transmits p V m" and "V v"
  obtains w where
    "\<And>out room. enat (length w) \<le> room \<Longrightarrow>
       p (XDR_ENCODE out room) v = Some (XDR_ENCODE (out @ w) (room - enat (length w)), v)"
    "\<And>out room. \<not> enat (length w) \<le> room \<Longrightarrow> p (XDR_ENCODE out room) v = None"
    "\<And>rest obj. p (XDR_DECODE (w @ rest)) obj = Some (XDR_DECODE rest, m v obj)"
proof -
  from assms obtain w where "carries p v w (m v)" by (auto simp: transmits_def)
  then show thesis
    by (intro that) (rule carries_encode carries_no_room carries_decode, assumption+)+
qed

lemma frees_Nil [xdr_intros]: "frees (xdr_struct [])"
  by (simp add: frees_def)

lemma frees_Cons [xdr_intros]: "frees p \<Longrightarrow> frees (xdr_struct ps) \<Longrightarrow> frees (xdr_struct (p # ps))"
  unfolding frees_def by (metis (no_types, lifting) option.simps(5) prod.case xdr_struct.simps(2))

lemma frees_field [xdr_intros]: "frees p \<Longrightarrow> frees (xdr_field p get upd)"
  unfolding frees_def xdr_field_def by (metis (no_types, lifting) option.simps(5) prod.case)

end
