(* ===== verification/Nfs_Xdr.thy ===== *)
theory Nfs_Xdr
  imports Nfs_Types Xdr_Stream
begin

text \<open>
  The XDR routines of the messages (\<open>src/NFS/nfs_xdr.c\<close>), one definition per routine,
  composed as the source composes them. The primitive routines belong to the RPC library:
  they are the parameter \<open>X\<close>, and \<open>Nfs_Xdr_Correct\<close> states what the library documents
  of them.
\<close>

section \<open>The library\<close>

text \<open>
  \<open>xp_put_bools\<close> and \<open>xp_get_bools\<close> stand for \<open>XDR_INLINE\<close> followed by \<open>IXDR_PUT_BOOL\<close> or
  \<open>IXDR_GET_BOOL\<close> on the space it returns; they give \<open>None\<close> when it returns \<open>NULL\<close>.
\<close>

record xdr_prims =
  xp_u_quad_t :: "u64 xdrproc"
  xp_quad_t :: "u64 xdrproc"
  xp_u_long :: "u64 xdrproc"
  xp_long :: "u64 xdrproc"
  xp_int :: "u32 xdrproc"
  xp_enum :: "enum_t xdrproc"
  xp_bool :: "bool_t xdrproc"
  xp_string :: "nat \<Rightarrow> cstring xdrproc"
  xp_opaque :: "nat \<Rightarrow> byte list xdrproc"
  xp_bytes :: "nat \<Rightarrow> byte list xdrproc"
  xp_array :: "nat \<Rightarrow> u32 xdrproc \<Rightarrow> u32 list xdrproc"
  xp_pointer :: "entry3 xdrproc \<Rightarrow> entry3 option xdrproc"
  xp_put_bools :: "XDR \<Rightarrow> bool_t list \<Rightarrow> XDR option"
  xp_get_bools :: "XDR \<Rightarrow> nat \<Rightarrow> (XDR \<times> bool_t list) option"

section \<open>Scalars, names and handles\<close>

definition xdr_uint64 :: "xdr_prims \<Rightarrow> nfs_uint64 xdrproc" where
  "xdr_uint64 X = xp_u_quad_t X"

definition xdr_int64 :: "xdr_prims \<Rightarrow> nfs_int64 xdrproc" where
  "xdr_int64 X = xp_quad_t X"

definition xdr_uint32 :: "xdr_prims \<Rightarrow> nfs_uint32 xdrproc" where
  "xdr_uint32 X = xp_u_long X"

definition xdr_int32 :: "xdr_prims \<Rightarrow> nfs_int32 xdrproc" where
  "xdr_int32 X = xp_long X"

definition xdr_filename3 :: "xdr_prims \<Rightarrow> cstring xdrproc" where
  "xdr_filename3 X = xp_string X XDR_NOBOUND"

definition xdr_nfspath3 :: "xdr_prims \<Rightarrow> cstring xdrproc" where
  "xdr_nfspath3 X = xp_string X XDR_NOBOUND"

definition xdr_fileid3 :: "xdr_prims \<Rightarrow> nfs_uint64 xdrproc" where
  "xdr_fileid3 X = xdr_uint64 X"

definition xdr_cookie3 :: "xdr_prims \<Rightarrow> nfs_uint64 xdrproc" where
  "xdr_cookie3 X = xdr_uint64 X"

definition xdr_cookieverf3 :: "xdr_prims \<Rightarrow> byte list xdrproc" where
  "xdr_cookieverf3 X = xp_opaque X NFS3_COOKIEVERFSIZE"

definition xdr_createverf3 :: "xdr_prims \<Rightarrow> byte list xdrproc" where
  "xdr_createverf3 X = xp_opaque X NFS3_CREATEVERFSIZE"

definition xdr_writeverf3 :: "xdr_prims \<Rightarrow> byte list xdrproc" where
  "xdr_writeverf3 X = xp_opaque X NFS3_WRITEVERFSIZE"

definition xdr_uid3 :: "xdr_prims \<Rightarrow> nfs_uint32 xdrproc" where
  "xdr_uid3 X = xdr_uint32 X"

definition xdr_size3 :: "xdr_prims \<Rightarrow> nfs_uint64 xdrproc" where
  "xdr_size3 X = xdr_uint64 X"

definition xdr_gid3 :: "xdr_prims \<Rightarrow> nfs_uint32 xdrproc" where
  "xdr_gid3 X = xdr_uint32 X"

definition xdr_offset3 :: "xdr_prims \<Rightarrow> nfs_uint64 xdrproc" where
  "xdr_offset3 X = xdr_uint64 X"

definition xdr_mode3 :: "xdr_prims \<Rightarrow> nfs_uint32 xdrproc" where
  "xdr_mode3 X = xdr_uint32 X"

definition xdr_count3 :: "xdr_prims \<Rightarrow> nfs_uint32 xdrproc" where
  "xdr_count3 X = xdr_uint32 X"

definition xdr_mountstat3 :: "xdr_prims \<Rightarrow> enum_t xdrproc" where
  "xdr_mountstat3 X = xp_enum X"

definition xdr_fhandle3 :: "xdr_prims \<Rightarrow> byte list xdrproc" where
  "xdr_fhandle3 X = xp_bytes X FHSIZE3"

definition xdr_dirpath :: "xdr_prims \<Rightarrow> cstring xdrproc" where
  "xdr_dirpath X = xp_string X MNTPATHLEN"

definition xdr_name :: "xdr_prims \<Rightarrow> cstring xdrproc" where
  "xdr_name X = xp_string X MNTNAMLEN"

definition xdr_nfs_fh3 :: "xdr_prims \<Rightarrow> nfs_fh3 xdrproc" where
  "xdr_nfs_fh3 X = xdr_field (xp_bytes X NFS3_FHSIZE) fh_data fh_data_update"

section \<open>MOUNT\<close>

definition xdr_mountres3_ok :: "xdr_prims \<Rightarrow> mountres3_ok xdrproc" where
  "xdr_mountres3_ok X = xdr_struct
    [xdr_field (xdr_fhandle3 X) fhandle fhandle_update,
     xdr_field (xp_array X XDR_NOBOUND (xp_int X)) auth_flavors auth_flavors_update]"

definition xdr_mountres3 :: "xdr_prims \<Rightarrow> mountres3 xdrproc" where
  "xdr_mountres3 X = xdr_struct
    [xdr_field (xdr_mountstat3 X) fhs_status fhs_status_update,
     xdr_switch fhs_status (\<lambda>d.
       if d = MNT3_OK then xdr_field (xdr_mountres3_ok X) mountinfo mountinfo_update
       else xdr_struct [])]"

section \<open>Attributes\<close>

definition xdr_nfsstat3 :: "xdr_prims \<Rightarrow> enum_t xdrproc" where
  "xdr_nfsstat3 X = xp_enum X"

definition xdr_nfstime3 :: "xdr_prims \<Rightarrow> nfstime3 xdrproc" where
  "xdr_nfstime3 X = xdr_struct
    [xdr_field (xdr_uint32 X) nfstime3.seconds nfstime3.seconds_update,
     xdr_field (xdr_uint32 X) nfstime3.nseconds nfstime3.nseconds_update]"

definition xdr_specdata3 :: "xdr_prims \<Rightarrow> specdata3 xdrproc" where
  "xdr_specdata3 X = xdr_struct
    [xdr_field (xdr_uint32 X) specdata3.specdata1 specdata3.specdata1_update,
     xdr_field (xdr_uint32 X) specdata3.specdata2 specdata3.specdata2_update]"

definition xdr_ftype3 :: "xdr_prims \<Rightarrow> enum_t xdrproc" where
  "xdr_ftype3 X = xp_enum X"

definition xdr_fattr3 :: "xdr_prims \<Rightarrow> fattr3 xdrproc" where
  "xdr_fattr3 X = xdr_struct
    [xdr_field (xdr_ftype3 X) fattr3.ftype fattr3.ftype_update,
     xdr_field (xdr_mode3 X) fattr3.fmode fattr3.fmode_update,
     xdr_field (xdr_uint32 X) fattr3.nlink fattr3.nlink_update,
     xdr_field (xdr_uid3 X) fattr3.uid fattr3.uid_update,
     xdr_field (xdr_gid3 X) fattr3.gid fattr3.gid_update,
     xdr_field (xdr_size3 X) fattr3.fsize fattr3.fsize_update,
     xdr_field (xdr_size3 X) fattr3.used fattr3.used_update,
     xdr_field (xdr_specdata3 X) fattr3.rdev fattr3.rdev_update,
     xdr_field (xdr_uint64 X) fattr3.fsid fattr3.fsid_update,
     xdr_field (xdr_fileid3 X) fattr3.fileid fattr3.fileid_update,
     xdr_field (xdr_nfstime3 X) fattr3.atime fattr3.atime_update,
     xdr_field (xdr_nfstime3 X) fattr3.mtime fattr3.mtime_update,
     xdr_field (xdr_nfstime3 X) fattr3.ctime fattr3.ctime_update]"

definition xdr_post_op_attr :: "xdr_prims \<Rightarrow> post_op_attr xdrproc" where
  "xdr_post_op_attr X = xdr_struct
    [xdr_field (xp_bool X) attributes_follow attributes_follow_update,
     xdr_switch attributes_follow (\<lambda>d.
       if d = 1 then xdr_field (xdr_fattr3 X) attributes attributes_update
       else if d = 0 then xdr_struct []
       else xdr_fail)]"

section \<open>FSINFO\<close>

definition xdr_FSINFO3args :: "xdr_prims \<Rightarrow> FSINFO3args xdrproc" where
  "xdr_FSINFO3args X = xdr_struct
    [xdr_field (xdr_nfs_fh3 X) FSINFO3args.fsroot FSINFO3args.fsroot_update]"

definition xdr_FSINFO3resok :: "xdr_prims \<Rightarrow> FSINFO3resok xdrproc" where
  "xdr_FSINFO3resok X = xdr_struct
    [xdr_field (xdr_post_op_attr X) FSINFO3resok.obj_attributes FSINFO3resok.obj_attributes_update,
     xdr_field (xdr_uint32 X) FSINFO3resok.rtmax FSINFO3resok.rtmax_update,
     xdr_field (xdr_uint32 X) FSINFO3resok.rtpref FSINFO3resok.rtpref_update,
     xdr_field (xdr_uint32 X) FSINFO3resok.rtmult FSINFO3resok.rtmult_update,
     xdr_field (xdr_uint32 X) FSINFO3resok.wtmax FSINFO3resok.wtmax_update,
     xdr_field (xdr_uint32 X) FSINFO3resok.wtpref FSINFO3resok.wtpref_update,
     xdr_field (xdr_uint32 X) FSINFO3resok.wtmult FSINFO3resok.wtmult_update,
     xdr_field (xdr_uint32 X) FSINFO3resok.dtpref FSINFO3resok.dtpref_update,
     xdr_field (xdr_size3 X) FSINFO3resok.maxfilesize FSINFO3resok.maxfilesize_update,
     xdr_field (xdr_nfstime3 X) FSINFO3resok.time_delta FSINFO3resok.time_delta_update,
     xdr_field (xdr_uint32 X) FSINFO3resok.properties FSINFO3resok.properties_update]"

definition xdr_FSINFO3resfail :: "xdr_prims \<Rightarrow> FSINFO3resfail xdrproc" where
  "xdr_FSINFO3resfail X = xdr_struct
    [xdr_field (xdr_post_op_attr X) FSINFO3resfail.obj_attributes FSINFO3resfail.obj_attributes_update]"

definition xdr_FSINFO3res :: "xdr_prims \<Rightarrow> FSINFO3res xdrproc" where
  "xdr_FSINFO3res X = xdr_struct
    [xdr_field (xdr_nfsstat3 X) FSINFO3res.status FSINFO3res.status_update,
     xdr_switch FSINFO3res.status (\<lambda>d.
       if d = NFS3_OK then xdr_field (xdr_FSINFO3resok X) FSINFO3res.resok FSINFO3res.resok_update
       else xdr_field (xdr_FSINFO3resfail X) FSINFO3_resfail FSINFO3_resfail_update)]"

section \<open>PATHCONF\<close>

definition xdr_PATHCONF3args :: "xdr_prims \<Rightarrow> PATHCONF3args xdrproc" where
  "xdr_PATHCONF3args X = xdr_struct
    [xdr_field (xdr_nfs_fh3 X) PATHCONF3args.object PATHCONF3args.object_update]"

text \<open>
  The four flags at the end of a \<open>PATHCONF3resok\<close>, routine by routine, and the two fast
  paths through \<open>XDR_INLINE\<close>.
\<close>

definition pathconf_flags :: "xdr_prims \<Rightarrow> PATHCONF3resok xdrproc list" where
  "pathconf_flags X =
    [xdr_field (xp_bool X) no_trunc no_trunc_update,
     xdr_field (xp_bool X) chown_restricted chown_restricted_update,
     xdr_field (xp_bool X) case_insensitive case_insensitive_update,
     xdr_field (xp_bool X) case_preserving case_preserving_update]"

definition pathconf_put_flags :: "xdr_prims \<Rightarrow> PATHCONF3resok xdrproc" where
  "pathconf_put_flags X xdrs obj =
     (case xp_put_bools X xdrs
         [no_trunc obj, chown_restricted obj, case_insensitive obj, case_preserving obj] of
        None \<Rightarrow> xdr_struct (pathconf_flags X) xdrs obj
      | Some xdrs \<Rightarrow> Some (xdrs, obj))"

definition pathconf_get_flags :: "xdr_prims \<Rightarrow> PATHCONF3resok xdrproc" where
  "pathconf_get_flags X xdrs obj =
     (case xp_get_bools X xdrs 4 of
        None \<Rightarrow> xdr_struct (pathconf_flags X) xdrs obj
      | Some (xdrs, bs) \<Rightarrow>
          Some (xdrs, obj\<lparr>no_trunc := bs ! 0, chown_restricted := bs ! 1,
                          case_insensitive := bs ! 2, case_preserving := bs ! 3\<rparr>))"

definition pathconf_head :: "xdr_prims \<Rightarrow> PATHCONF3resok xdrproc list" where
  "pathconf_head X =
    [xdr_field (xdr_post_op_attr X) PATHCONF3resok.obj_attributes PATHCONF3resok.obj_attributes_update,
     xdr_field (xdr_uint32 X) PATHCONF3resok.linkmax PATHCONF3resok.linkmax_update,
     xdr_field (xdr_uint32 X) PATHCONF3resok.name_max PATHCONF3resok.name_max_update]"

definition xdr_PATHCONF3resok :: "xdr_prims \<Rightarrow> PATHCONF3resok xdrproc" where
  "xdr_PATHCONF3resok X xdrs obj =
     (case xdrs of
        XDR_ENCODE _ _ \<Rightarrow> xdr_struct (pathconf_head X @ [pathconf_put_flags X]) xdrs obj
      | XDR_DECODE _ \<Rightarrow> xdr_struct (pathconf_head X @ [pathconf_get_flags X]) xdrs obj
      | XDR_FREE \<Rightarrow> xdr_struct (pathconf_head X @ pathconf_flags X) xdrs obj)"

definition xdr_PATHCONF3resfail :: "xdr_prims \<Rightarrow> PATHCONF3resfail xdrproc" where
  "xdr_PATHCONF3resfail X = xdr_struct
    [xdr_field (xdr_post_op_attr X) PATHCONF3resfail.obj_attributes PATHCONF3resfail.obj_attributes_update]"

definition xdr_PATHCONF3res :: "xdr_prims \<Rightarrow> PATHCONF3res xdrproc" where
  "xdr_PATHCONF3res X = xdr_struct
    [xdr_field (xdr_nfsstat3 X) PATHCONF3res.status PATHCONF3res.status_update,
     xdr_switch PATHCONF3res.status (\<lambda>d.
       if d = NFS3_OK then xdr_field (xdr_PATHCONF3resok X) PATHCONF3res.resok PATHCONF3res.resok_update
       else xdr_field (xdr_PATHCONF3resfail X) PATHCONF3_resfail PATHCONF3_resfail_update)]"

section \<open>GETATTR and ACCESS\<close>

definition xdr_GETATTR3args :: "xdr_prims \<Rightarrow> GETATTR3args xdrproc" where
  "xdr_GETATTR3args X = xdr_struct
    [xdr_field (xdr_nfs_fh3 X) GETATTR3args.object GETATTR3args.object_update]"

definition xdr_GETATTR3resok :: "xdr_prims \<Rightarrow> GETATTR3resok xdrproc" where
  "xdr_GETATTR3resok X = xdr_struct
    [xdr_field (xdr_fattr3 X) GETATTR3resok.obj_attributes GETATTR3resok.obj_attributes_update]"

definition xdr_GETATTR3res :: "xdr_prims \<Rightarrow> GETATTR3res xdrproc" where
  "xdr_GETATTR3res X = xdr_struct
    [xdr_field (xdr_nfsstat3 X) GETATTR3res.status GETATTR3res.status_update,
     xdr_switch GETATTR3res.status (\<lambda>d.
       if d = NFS3_OK then xdr_field (xdr_GETATTR3resok X) GETATTR3res.resok GETATTR3res.resok_update
       else xdr_struct [])]"

definition xdr_ACCESS3args :: "xdr_prims \<Rightarrow> ACCESS3args xdrproc" where
  "xdr_ACCESS3args X = xdr_struct
    [xdr_field (xdr_nfs_fh3 X) ACCESS3args.object ACCESS3args.object_update,
     xdr_field (xdr_uint32 X) ACCESS3args.access ACCESS3args.access_update]"

definition xdr_ACCESS3resok :: "xdr_prims \<Rightarrow> ACCESS3resok xdrproc" where
  "xdr_ACCESS3resok X = xdr_struct
    [xdr_field (xdr_post_op_attr X) ACCESS3resok.obj_attributes ACCESS3resok.obj_attributes_update,
     xdr_field (xdr_uint32 X) ACCESS3resok.access ACCESS3resok.access_update]"

definition xdr_ACCESS3resfail :: "xdr_prims \<Rightarrow> ACCESS3resfail xdrproc" where
  "xdr_ACCESS3resfail X = xdr_struct
    [xdr_field (xdr_post_op_attr X) ACCESS3resfail.obj_attributes ACCESS3resfail.obj_attributes_update]"

definition xdr_ACCESS3res :: "xdr_prims \<Rightarrow> ACCESS3res xdrproc" where
  "xdr_ACCESS3res X = xdr_struct
    [xdr_field (xdr_nfsstat3 X) ACCESS3res.status ACCESS3res.status_update,
     xdr_switch ACCESS3res.status (\<lambda>d.
       if d = NFS3_OK then xdr_field (xdr_ACCESS3resok X) ACCESS3res.resok ACCESS3res.resok_update
       else xdr_field (xdr_ACCESS3resfail X) ACCESS3_resfail ACCESS3_resfail_update)]"

section \<open>READDIR\<close>

definition xdr_READDIR3args :: "xdr_prims \<Rightarrow> READDIR3args xdrproc" where
  "xdr_READDIR3args X = xdr_struct
    [xdr_field (xdr_nfs_fh3 X) READDIR3args.dir READDIR3args.dir_update,
     xdr_field (xdr_cookie3 X) READDIR3args.cookie READDIR3args.cookie_update,
     xdr_field (xdr_cookieverf3 X) READDIR3args.cookieverf READDIR3args.cookieverf_update,
     xdr_field (xdr_count3 X) READDIR3args.count READDIR3args.count_update]"

text \<open>
  \<open>xdr_entry3\<close> calls itself through \<open>xdr_pointer\<close>, once per entry of the list. The bound of
  the model is the length of the list when there is one, and the number of bytes left when
  the list is read: every entry takes some.
\<close>

fun entries_depth :: "entry3 option \<Rightarrow> nat" where
  "entries_depth None = 0"
| "entries_depth (Some (Entry3 _ _ _ nxt)) = Suc (entries_depth nxt)"

primrec set_fileid :: "(u64 \<Rightarrow> u64) \<Rightarrow> entry3 \<Rightarrow> entry3" where
  "set_fileid f (Entry3 i n c nxt) = Entry3 (f i) n c nxt"

primrec set_name :: "(cstring \<Rightarrow> cstring) \<Rightarrow> entry3 \<Rightarrow> entry3" where
  "set_name f (Entry3 i n c nxt) = Entry3 i (f n) c nxt"

primrec set_cookie :: "(u64 \<Rightarrow> u64) \<Rightarrow> entry3 \<Rightarrow> entry3" where
  "set_cookie f (Entry3 i n c nxt) = Entry3 i n (f c) nxt"

primrec set_next :: "(entry3 option \<Rightarrow> entry3 option) \<Rightarrow> entry3 \<Rightarrow> entry3" where
  "set_next f (Entry3 i n c nxt) = Entry3 i n c (f nxt)"

fun xdr_entry3 :: "xdr_prims \<Rightarrow> nat \<Rightarrow> entry3 xdrproc" where
  "xdr_entry3 X 0 = xdr_fail"
| "xdr_entry3 X (Suc fuel) = xdr_struct
    [xdr_field (xdr_fileid3 X) entry_fileid set_fileid,
     xdr_field (xdr_filename3 X) entry_name set_name,
     xdr_field (xdr_cookie3 X) entry_cookie set_cookie,
     xdr_field (xp_pointer X (xdr_entry3 X fuel)) nextentry set_next]"

fun xdr_fuel :: "XDR \<Rightarrow> entry3 option \<Rightarrow> nat" where
  "xdr_fuel (XDR_DECODE bs) obj = length bs"
| "xdr_fuel xdrs obj = entries_depth obj"

definition xdr_entries :: "xdr_prims \<Rightarrow> entry3 option xdrproc" where
  "xdr_entries X xdrs obj = xp_pointer X (xdr_entry3 X (xdr_fuel xdrs obj)) xdrs obj"

definition xdr_dirlist3 :: "xdr_prims \<Rightarrow> dirlist3 xdrproc" where
  "xdr_dirlist3 X = xdr_struct
    [xdr_field (xdr_entries X) dirlist3.entries dirlist3.entries_update,
     xdr_field (xp_bool X) dirlist3.eof dirlist3.eof_update]"

definition xdr_READDIR3resok :: "xdr_prims \<Rightarrow> READDIR3resok xdrproc" where
  "xdr_READDIR3resok X = xdr_struct
    [xdr_field (xdr_post_op_attr X) READDIR3resok.dir_attributes READDIR3resok.dir_attributes_update,
     xdr_field (xdr_cookieverf3 X) READDIR3resok.cookieverf READDIR3resok.cookieverf_update,
     xdr_field (xdr_dirlist3 X) READDIR3resok.reply READDIR3resok.reply_update]"

definition xdr_READDIR3resfail :: "xdr_prims \<Rightarrow> READDIR3resfail xdrproc" where
  "xdr_READDIR3resfail X = xdr_struct
    [xdr_field (xdr_post_op_attr X) READDIR3resfail.dir_attributes READDIR3resfail.dir_attributes_update]"

definition xdr_READDIR3res :: "xdr_prims \<Rightarrow> READDIR3res xdrproc" where
  "xdr_READDIR3res X = xdr_struct
    [xdr_field (xdr_nfsstat3 X) READDIR3res.status READDIR3res.status_update,
     xdr_switch READDIR3res.status (\<lambda>d.
       if d = NFS3_OK then xdr_field (xdr_READDIR3resok X) READDIR3res.resok READDIR3res.resok_update
       else xdr_field (xdr_READDIR3resfail X) READDIR3_resfail READDIR3_resfail_update)]"

section \<open>LOOKUP\<close>

definition xdr_diropargs3 :: "xdr_prims \<Rightarrow> diropargs3 xdrproc" where
  "xdr_diropargs3 X = xdr_struct
    [xdr_field (xdr_nfs_fh3 X) diropargs3.dir diropargs3.dir_update,
     xdr_field (xdr_filename3 X) diropargs3.name diropargs3.name_update]"

definition xdr_LOOKUP3args :: "xdr_prims \<Rightarrow> LOOKUP3args xdrproc" where
  "xdr_LOOKUP3args X = xdr_struct
    [xdr_field (xdr_diropargs3 X) LOOKUP3args.what LOOKUP3args.what_update]"

definition xdr_LOOKUP3resok :: "xdr_prims \<Rightarrow> LOOKUP3resok xdrproc" where
  "xdr_LOOKUP3resok X = xdr_struct
    [xdr_field (xdr_nfs_fh3 X) LOOKUP3resok.object LOOKUP3resok.object_update,
     xdr_field (xdr_post_op_attr X) LOOKUP3resok.obj_attributes LOOKUP3resok.obj_attributes_update,
     xdr_field (xdr_post_op_attr X) LOOKUP3resok.dir_attributes LOOKUP3resok.dir_attributes_update]"

definition xdr_LOOKUP3resfail :: "xdr_prims \<Rightarrow> LOOKUP3resfail xdrproc" where
  "xdr_LOOKUP3resfail X = xdr_struct
    [xdr_field (xdr_post_op_attr X) LOOKUP3resfail.dir_attributes LOOKUP3resfail.dir_attributes_update]"

definition xdr_LOOKUP3res :: "xdr_prims \<Rightarrow> LOOKUP3res xdrproc" where
  "xdr_LOOKUP3res X = xdr_struct
    [xdr_field (xdr_nfsstat3 X) LOOKUP3res.status LOOKUP3res.status_update,
     xdr_switch LOOKUP3res.status (\<lambda>d.
       if d = NFS3_OK then xdr_field (xdr_LOOKUP3resok X) LOOKUP3res.resok LOOKUP3res.resok_update
       else xdr_field (xdr_LOOKUP3resfail X) LOOKUP3res.resfail LOOKUP3res.resfail_update)]"

section \<open>READ\<close>

definition xdr_READ3args :: "xdr_prims \<Rightarrow> READ3args xdrproc" where
  "xdr_READ3args X = xdr_struct
    [xdr_field (xdr_nfs_fh3 X) READ3args.file_fh READ3args.file_fh_update,
     xdr_field (xdr_offset3 X) READ3args.offset READ3args.offset_update,
     xdr_field (xdr_count3 X) READ3args.count READ3args.count_update]"

definition xdr_READ3resok :: "xdr_prims \<Rightarrow> READ3resok xdrproc" where
  "xdr_READ3resok X = xdr_struct
    [xdr_field (xdr_post_op_attr X) READ3resok.file_attributes READ3resok.file_attributes_update,
     xdr_field (xdr_count3 X) READ3resok.count READ3resok.count_update,
     xdr_field (xp_bool X) READ3resok.eof READ3resok.eof_update,
     xdr_field (xp_bytes X XDR_NOBOUND) READ3resok.data READ3resok.data_update]"

definition xdr_READ3resfail :: "xdr_prims \<Rightarrow> READ3resfail xdrproc" where
  "xdr_READ3resfail X = xdr_struct
    [xdr_field (xdr_post_op_attr X) READ3resfail.file_attributes READ3resfail.file_attributes_update]"

definition xdr_READ3res :: "xdr_prims \<Rightarrow> READ3res xdrproc" where
  "xdr_READ3res X = xdr_struct
    [xdr_field (xdr_nfsstat3 X) READ3res.status READ3res.status_update,
     xdr_switch READ3res.status (\<lambda>d.
       if d = NFS3_OK then xdr_field (xdr_READ3resok X) READ3res.resok READ3res.resok_update
       else xdr_field (xdr_READ3resfail X) READ3_resfail READ3_resfail_update)]"

end
