(* ===== verification/Nfs_Svc.thy ===== *)
theory Nfs_Svc
  imports Nfs_Server Nfs_Xdr
begin

text \<open>
  The dispatch of requests (\<open>src/NFS/nfs_svc.c\<close>): decode the arguments, call the procedure,
  send the encoded result, free the arguments. A request is its procedure number and the
  bytes of its arguments; the answer is what the server sends back.
\<close>

section \<open>Answers\<close>

datatype svc_answer =
    Sendreply "byte list"   \<comment> \<open>the encoded result\<close>
  | Svcerr_noproc           \<comment> \<open>no such procedure\<close>
  | Svcerr_decode           \<comment> \<open>the arguments cannot be decoded\<close>
  | Svcerr_systemerr        \<comment> \<open>the result cannot be encoded\<close>

text \<open>\<open>svc_sendreply\<close>: \<open>room\<close> is the space the transport has for the result.\<close>

definition svc_sendreply :: "'r xdrproc \<Rightarrow> enat \<Rightarrow> 'r \<Rightarrow> byte list option" where
  "svc_sendreply xdr_result room r =
     (case xdr_result (XDR_ENCODE [] room) r of
        Some (XDR_ENCODE out _, _) \<Rightarrow> Some out
      | _ \<Rightarrow> None)"

definition svc_getargs :: "'a xdrproc \<Rightarrow> byte list \<Rightarrow> 'a \<Rightarrow> 'a option" where
  "svc_getargs xdr_argument body zero = map_option snd (xdr_argument (XDR_DECODE body) zero)"

definition svc_freeargs :: "'a xdrproc \<Rightarrow> 'a \<Rightarrow> bool" where
  "svc_freeargs xdr_argument a = (xdr_argument XDR_FREE a \<noteq> None)"

text \<open>
  The part that every procedure shares. The flag says whether the server goes on: it exits
  when the arguments cannot be freed.
\<close>

definition svc_call ::
    "'a xdrproc \<Rightarrow> 'a \<Rightarrow> 'r xdrproc \<Rightarrow> ('a \<Rightarrow> nfs_state \<Rightarrow> nfs_state res) \<Rightarrow> (nfs_state \<Rightarrow> 'r) \<Rightarrow>
      enat \<Rightarrow> byte list \<Rightarrow> nfs_state \<Rightarrow> (svc_answer \<times> bool \<times> nfs_state) res" where
  "svc_call xdr_argument zero xdr_result local result room body s =
     (case svc_getargs xdr_argument body zero of
        None \<Rightarrow> Inr (Svcerr_decode, True, s)
      | Some argument \<Rightarrow>
          bind_res (local argument s) (\<lambda>s.
            Inr (case svc_sendreply xdr_result room (result s) of
                   None \<Rightarrow> Svcerr_systemerr | Some out \<Rightarrow> Sendreply out,
                 svc_freeargs xdr_argument argument, s)))"

section \<open>The two programs\<close>

definition zero_fh :: nfs_fh3 where "zero_fh = \<lparr>fh_data = []\<rparr>"

definition mount_3 ::
    "xdr_prims \<Rightarrow> enat \<Rightarrow> nat \<Rightarrow> byte list \<Rightarrow> nfs_state \<Rightarrow> (svc_answer \<times> bool \<times> nfs_state) res" where
  "mount_3 X room rq_proc body s =
     (if rq_proc = NULLPROC then Inr (Sendreply [], True, s)
      else if rq_proc = MOUNTPROC3_MNT then
        svc_call (xdr_dirpath X) [] (xdr_mountres3 X)
          (\<lambda>path s. Inr (mountproc3_mnt_3_svc path s)) mnt_result room body s
      else Inr (Svcerr_noproc, True, s))"

definition nfs_program_3 ::
    "xdr_prims \<Rightarrow> nfs_env \<Rightarrow> enat \<Rightarrow> nat \<Rightarrow> byte list \<Rightarrow> nfs_state \<Rightarrow>
      (svc_answer \<times> bool \<times> nfs_state) res" where
  "nfs_program_3 X env room rq_proc body s =
     (if rq_proc = NULLPROC then Inr (Sendreply [], True, s)
      else if rq_proc = NFSPROC3_GETATTR then
        svc_call (xdr_GETATTR3args X) \<lparr>GETATTR3args.object = zero_fh\<rparr> (xdr_GETATTR3res X)
          (nfsproc3_getattr_3_svc env) getattr_result room body s
      else if rq_proc = NFSPROC3_LOOKUP then
        svc_call (xdr_LOOKUP3args X) \<lparr>what = \<lparr>diropargs3.dir = zero_fh, name = []\<rparr>\<rparr> (xdr_LOOKUP3res X)
          (nfsproc3_lookup_3_svc env) lookup_result room body s
      else if rq_proc = NFSPROC3_ACCESS then
        svc_call (xdr_ACCESS3args X) \<lparr>ACCESS3args.object = zero_fh, access = 0\<rparr> (xdr_ACCESS3res X)
          (nfsproc3_access_3_svc env) access_result room body s
      else if rq_proc = NFSPROC3_READ then
        svc_call (xdr_READ3args X) \<lparr>file_fh = zero_fh, offset = 0, READ3args.count = 0\<rparr> (xdr_READ3res X)
          (nfsproc3_read_3_svc env) read3_result room body s
      else if rq_proc = NFSPROC3_READDIR then
        svc_call (xdr_READDIR3args X)
          \<lparr>READDIR3args.dir = zero_fh, cookie = 0, cookieverf = replicate 8 0, count = 0\<rparr>
          (xdr_READDIR3res X) (nfsproc3_readdir_3_svc env) readdir_result room body s
      else if rq_proc = NFSPROC3_FSINFO then
        svc_call (xdr_FSINFO3args X) \<lparr>fsroot = zero_fh\<rparr> (xdr_FSINFO3res X)
          (nfsproc3_fsinfo_3_svc env) fsinfo_result room body s
      else if rq_proc = NFSPROC3_PATHCONF then
        svc_call (xdr_PATHCONF3args X) \<lparr>PATHCONF3args.object = zero_fh\<rparr> (xdr_PATHCONF3res X)
          (nfsproc3_pathconf_3_svc env) pathconf_result room body s
      else Inr (Svcerr_noproc, True, s))"

section \<open>Runs of the server\<close>

text \<open>
  The programs the server registers, and the requests it answers one after the other: with
  each the answers of the operating system and the room of the reply.
\<close>

datatype program = MOUNT | NFS_PROGRAM

text \<open>
  The start of the server: the transports it creates and the programs it registers on them, with
  the answers of the RPC library. If one of the calls fails the server exits with a message.
\<close>

datatype transport = UDP | TCP

record rpc_setup =
  m_create :: "transport \<Rightarrow> bool"
  m_register :: "transport \<Rightarrow> program \<Rightarrow> bool"

definition nfs_main :: "rpc_setup \<Rightarrow> string + (transport \<times> program) list" where
  "nfs_main env =
     (if \<not> m_create env UDP then Inl ''cannot create udp service.''
      else if \<not> m_register env UDP MOUNT
      then Inl ''unable to register (MOUNT, MOUNT_VERSION, udp).''
      else if \<not> m_register env UDP NFS_PROGRAM
      then Inl ''unable to register (NFS_PROGRAM, NFS_V3, udp).''
      else if \<not> m_create env TCP then Inl ''cannot create tcp service.''
      else if \<not> m_register env TCP MOUNT
      then Inl ''unable to register (MOUNT, MOUNT_VERSION, tcp).''
      else if \<not> m_register env TCP NFS_PROGRAM
      then Inl ''unable to register (NFS_PROGRAM, NFS_V3, tcp).''
      else Inr [(UDP, MOUNT), (UDP, NFS_PROGRAM), (TCP, MOUNT), (TCP, NFS_PROGRAM)])"

text \<open>The server runs exactly when no call fails, and then every program is on every transport.\<close>

lemma nfs_main_runs:
  "(\<exists>regs. nfs_main env = Inr regs) \<longleftrightarrow>
    (\<forall>t. m_create env t \<and> (\<forall>p. m_register env t p))"
  unfolding nfs_main_def by (auto split: if_splits) (metis transport.exhaust program.exhaust)+

lemma nfs_main_registers:
  assumes "nfs_main env = Inr regs"
  shows "distinct regs" and "(t, p) \<in> set regs"
proof -
  have "regs = [(UDP, MOUNT), (UDP, NFS_PROGRAM), (TCP, MOUNT), (TCP, NFS_PROGRAM)]"
    using assms by (simp add: nfs_main_def split: if_splits)
  then show "distinct regs" "(t, p) \<in> set regs" by (cases t; cases p; simp)+
qed

record request =
  rq_prog :: program
  rq_proc :: nat
  rq_body :: "byte list"
  rq_env :: nfs_env
  rq_room :: enat

definition svc_dispatch ::
    "xdr_prims \<Rightarrow> request \<Rightarrow> nfs_state \<Rightarrow> (svc_answer \<times> bool \<times> nfs_state) res" where
  "svc_dispatch X rq s =
     (case rq_prog rq of
        MOUNT \<Rightarrow> mount_3 X (rq_room rq) (rq_proc rq) (rq_body rq) s
      | NFS_PROGRAM \<Rightarrow> nfs_program_3 X (rq_env rq) (rq_room rq) (rq_proc rq) (rq_body rq) s)"

inductive svc_run :: "xdr_prims \<Rightarrow> nfs_state \<Rightarrow> request list \<Rightarrow> svc_answer list \<Rightarrow> nfs_state \<Rightarrow> bool"
  for X where
  idle: "svc_run X s [] [] s"
| serve: "svc_run X s rqs ans t \<Longrightarrow> svc_dispatch X rq t = Inr (a, True, u) \<Longrightarrow>
    svc_run X s (rqs @ [rq]) (ans @ [a]) u"

end
