(* ===== verification/Nfs_Xdr_Correct.thy ===== *)
theory Nfs_Xdr_Correct
  imports Nfs_Xdr
begin

text \<open>
  What the generated routines promise, given what the RPC library documents of its
  primitive routines: the locale \<open>xdr_library\<close> states the library's part, and inside it each
  routine is shown to transmit every message whose numbers fit their encoding.
\<close>

section \<open>Well-formed messages\<close>

text \<open>A \<open>u_long\<close> travels in 32 bits.\<close>

definition fits32 :: "u64 \<Rightarrow> bool" where
  "fits32 v \<longleftrightarrow> unat v < 2 ^ 32"

definition is_bool :: "bool_t \<Rightarrow> bool" where
  "is_bool b \<longleftrightarrow> b = 0 \<or> b = 1"

definition wf_name :: "nat \<Rightarrow> cstring \<Rightarrow> bool" where
  "wf_name m s \<longleftrightarrow> length s \<le> m \<and> 0 \<notin> set s"

definition wf_fh :: "nfs_fh3 \<Rightarrow> bool" where
  "wf_fh h \<longleftrightarrow> length (fh_data h) \<le> NFS3_FHSIZE"

definition wf_time :: "nfstime3 \<Rightarrow> bool" where
  "wf_time t \<longleftrightarrow> fits32 (seconds t) \<and> fits32 (nseconds t)"

definition wf_specdata :: "specdata3 \<Rightarrow> bool" where
  "wf_specdata d \<longleftrightarrow> fits32 (specdata1 d) \<and> fits32 (specdata2 d)"

definition wf_fattr :: "fattr3 \<Rightarrow> bool" where
  "wf_fattr a \<longleftrightarrow> fits32 (fmode a) \<and> fits32 (nlink a) \<and> fits32 (uid a) \<and> fits32 (gid a) \<and>
     wf_specdata (rdev a) \<and> wf_time (atime a) \<and> wf_time (mtime a) \<and> wf_time (ctime a)"

definition wf_post_op :: "post_op_attr \<Rightarrow> bool" where
  "wf_post_op p \<longleftrightarrow> is_bool (attributes_follow p) \<and>
     (attributes_follow p = 1 \<longrightarrow> wf_fattr (attributes p))"

text \<open>Reading attributes that do not follow leaves the storage of the attributes as it was.\<close>

definition merge_post_op :: "post_op_attr \<Rightarrow> post_op_attr \<Rightarrow> post_op_attr" where
  "merge_post_op v obj = (if attributes_follow v = 1 then v else obj\<lparr>attributes_follow := 0\<rparr>)"

definition wf_mountres :: "mountres3 \<Rightarrow> bool" where
  "wf_mountres r \<longleftrightarrow> (fhs_status r = MNT3_OK \<longrightarrow>
     length (fhandle (mountinfo r)) \<le> FHSIZE3 \<and> length (auth_flavors (mountinfo r)) \<le> XDR_NOBOUND)"

definition merge_mountres :: "mountres3 \<Rightarrow> mountres3 \<Rightarrow> mountres3" where
  "merge_mountres v obj = (if fhs_status v = MNT3_OK then v else obj\<lparr>fhs_status := fhs_status v\<rparr>)"

definition wf_fsinfo_ok :: "FSINFO3resok \<Rightarrow> bool" where
  "wf_fsinfo_ok r \<longleftrightarrow> wf_post_op (FSINFO3resok.obj_attributes r) \<and> fits32 (rtmax r) \<and>
     fits32 (rtpref r) \<and> fits32 (rtmult r) \<and> fits32 (wtmax r) \<and> fits32 (wtpref r) \<and>
     fits32 (wtmult r) \<and> fits32 (dtpref r) \<and> wf_time (time_delta r) \<and> fits32 (properties r)"

definition wf_pathconf_ok :: "PATHCONF3resok \<Rightarrow> bool" where
  "wf_pathconf_ok r \<longleftrightarrow> wf_post_op (PATHCONF3resok.obj_attributes r) \<and> fits32 (linkmax r) \<and>
     fits32 (name_max r) \<and> is_bool (no_trunc r) \<and> is_bool (chown_restricted r) \<and>
     is_bool (case_insensitive r) \<and> is_bool (case_preserving r)"

definition wf_access_ok :: "ACCESS3resok \<Rightarrow> bool" where
  "wf_access_ok r \<longleftrightarrow> wf_post_op (ACCESS3resok.obj_attributes r) \<and> fits32 (ACCESS3resok.access r)"

fun wf_entries :: "entry3 option \<Rightarrow> bool" where
  "wf_entries None = True"
| "wf_entries (Some (Entry3 _ n _ nxt)) \<longleftrightarrow> wf_name XDR_NOBOUND n \<and> wf_entries nxt"

definition wf_readdir_ok :: "READDIR3resok \<Rightarrow> bool" where
  "wf_readdir_ok r \<longleftrightarrow> wf_post_op (READDIR3resok.dir_attributes r) \<and>
     length (READDIR3resok.cookieverf r) = NFS3_COOKIEVERFSIZE \<and>
     wf_entries (entries (reply r)) \<and> is_bool (dirlist3.eof (reply r))"

definition wf_lookup_ok :: "LOOKUP3resok \<Rightarrow> bool" where
  "wf_lookup_ok r \<longleftrightarrow> wf_fh (LOOKUP3resok.object r) \<and> wf_post_op (LOOKUP3resok.obj_attributes r) \<and>
     wf_post_op (LOOKUP3resok.dir_attributes r)"

definition wf_read_ok :: "READ3resok \<Rightarrow> bool" where
  "wf_read_ok r \<longleftrightarrow> wf_post_op (READ3resok.file_attributes r) \<and> fits32 (READ3resok.count r) \<and>
     is_bool (READ3resok.eof r) \<and> length (READ3resok.data r) \<le> XDR_NOBOUND"

definition merge_fsinfo_ok :: "FSINFO3resok \<Rightarrow> FSINFO3resok \<Rightarrow> FSINFO3resok" where
  "merge_fsinfo_ok v obj = v\<lparr>FSINFO3resok.obj_attributes :=
     merge_post_op (FSINFO3resok.obj_attributes v) (FSINFO3resok.obj_attributes obj)\<rparr>"

definition wf_fsinfo :: "FSINFO3res \<Rightarrow> bool" where
  "wf_fsinfo r = (if FSINFO3res.status r = NFS3_OK then wf_fsinfo_ok (FSINFO3res.resok r)
     else wf_post_op (FSINFO3resok.obj_attributes (FSINFO3res.resok r)))"

definition merge_fsinfo :: "FSINFO3res \<Rightarrow> FSINFO3res \<Rightarrow> FSINFO3res" where
  "merge_fsinfo v obj =
     (if FSINFO3res.status v = NFS3_OK
      then v\<lparr>FSINFO3res.resok := merge_fsinfo_ok (FSINFO3res.resok v) (FSINFO3res.resok obj)\<rparr>
      else obj\<lparr>FSINFO3res.status := FSINFO3res.status v,
         FSINFO3res.resok := (FSINFO3res.resok obj)\<lparr>FSINFO3resok.obj_attributes :=
           merge_post_op (FSINFO3resok.obj_attributes (FSINFO3res.resok v)) (FSINFO3resok.obj_attributes (FSINFO3res.resok obj))\<rparr>\<rparr>)"

definition merge_pathconf_ok :: "PATHCONF3resok \<Rightarrow> PATHCONF3resok \<Rightarrow> PATHCONF3resok" where
  "merge_pathconf_ok v obj = v\<lparr>PATHCONF3resok.obj_attributes :=
     merge_post_op (PATHCONF3resok.obj_attributes v) (PATHCONF3resok.obj_attributes obj)\<rparr>"

definition wf_pathconf :: "PATHCONF3res \<Rightarrow> bool" where
  "wf_pathconf r = (if PATHCONF3res.status r = NFS3_OK then wf_pathconf_ok (PATHCONF3res.resok r)
     else wf_post_op (PATHCONF3resok.obj_attributes (PATHCONF3res.resok r)))"

definition merge_pathconf :: "PATHCONF3res \<Rightarrow> PATHCONF3res \<Rightarrow> PATHCONF3res" where
  "merge_pathconf v obj =
     (if PATHCONF3res.status v = NFS3_OK
      then v\<lparr>PATHCONF3res.resok := merge_pathconf_ok (PATHCONF3res.resok v) (PATHCONF3res.resok obj)\<rparr>
      else obj\<lparr>PATHCONF3res.status := PATHCONF3res.status v,
         PATHCONF3res.resok := (PATHCONF3res.resok obj)\<lparr>PATHCONF3resok.obj_attributes :=
           merge_post_op (PATHCONF3resok.obj_attributes (PATHCONF3res.resok v)) (PATHCONF3resok.obj_attributes (PATHCONF3res.resok obj))\<rparr>\<rparr>)"

definition merge_access_ok :: "ACCESS3resok \<Rightarrow> ACCESS3resok \<Rightarrow> ACCESS3resok" where
  "merge_access_ok v obj = v\<lparr>ACCESS3resok.obj_attributes :=
     merge_post_op (ACCESS3resok.obj_attributes v) (ACCESS3resok.obj_attributes obj)\<rparr>"

definition wf_access :: "ACCESS3res \<Rightarrow> bool" where
  "wf_access r = (if ACCESS3res.status r = NFS3_OK then wf_access_ok (ACCESS3res.resok r)
     else wf_post_op (ACCESS3resok.obj_attributes (ACCESS3res.resok r)))"

definition merge_access :: "ACCESS3res \<Rightarrow> ACCESS3res \<Rightarrow> ACCESS3res" where
  "merge_access v obj =
     (if ACCESS3res.status v = NFS3_OK
      then v\<lparr>ACCESS3res.resok := merge_access_ok (ACCESS3res.resok v) (ACCESS3res.resok obj)\<rparr>
      else obj\<lparr>ACCESS3res.status := ACCESS3res.status v,
         ACCESS3res.resok := (ACCESS3res.resok obj)\<lparr>ACCESS3resok.obj_attributes :=
           merge_post_op (ACCESS3resok.obj_attributes (ACCESS3res.resok v)) (ACCESS3resok.obj_attributes (ACCESS3res.resok obj))\<rparr>\<rparr>)"

definition merge_readdir_ok :: "READDIR3resok \<Rightarrow> READDIR3resok \<Rightarrow> READDIR3resok" where
  "merge_readdir_ok v obj = v\<lparr>READDIR3resok.dir_attributes :=
     merge_post_op (READDIR3resok.dir_attributes v) (READDIR3resok.dir_attributes obj)\<rparr>"

definition wf_readdir :: "READDIR3res \<Rightarrow> bool" where
  "wf_readdir r = (if READDIR3res.status r = NFS3_OK then wf_readdir_ok (READDIR3res.resok r)
     else wf_post_op (READDIR3resok.dir_attributes (READDIR3res.resok r)))"

definition merge_readdir :: "READDIR3res \<Rightarrow> READDIR3res \<Rightarrow> READDIR3res" where
  "merge_readdir v obj =
     (if READDIR3res.status v = NFS3_OK
      then v\<lparr>READDIR3res.resok := merge_readdir_ok (READDIR3res.resok v) (READDIR3res.resok obj)\<rparr>
      else obj\<lparr>READDIR3res.status := READDIR3res.status v,
         READDIR3res.resok := (READDIR3res.resok obj)\<lparr>READDIR3resok.dir_attributes :=
           merge_post_op (READDIR3resok.dir_attributes (READDIR3res.resok v)) (READDIR3resok.dir_attributes (READDIR3res.resok obj))\<rparr>\<rparr>)"

definition merge_read_ok :: "READ3resok \<Rightarrow> READ3resok \<Rightarrow> READ3resok" where
  "merge_read_ok v obj = v\<lparr>READ3resok.file_attributes :=
     merge_post_op (READ3resok.file_attributes v) (READ3resok.file_attributes obj)\<rparr>"

definition wf_read :: "READ3res \<Rightarrow> bool" where
  "wf_read r = (if READ3res.status r = NFS3_OK then wf_read_ok (READ3res.resok r)
     else wf_post_op (READ3resok.file_attributes (READ3res.resok r)))"

definition merge_read :: "READ3res \<Rightarrow> READ3res \<Rightarrow> READ3res" where
  "merge_read v obj =
     (if READ3res.status v = NFS3_OK
      then v\<lparr>READ3res.resok := merge_read_ok (READ3res.resok v) (READ3res.resok obj)\<rparr>
      else obj\<lparr>READ3res.status := READ3res.status v,
         READ3res.resok := (READ3res.resok obj)\<lparr>READ3resok.file_attributes :=
           merge_post_op (READ3resok.file_attributes (READ3res.resok v)) (READ3resok.file_attributes (READ3res.resok obj))\<rparr>\<rparr>)"

definition wf_getattr :: "GETATTR3res \<Rightarrow> bool" where
  "wf_getattr r \<longleftrightarrow> (GETATTR3res.status r = NFS3_OK \<longrightarrow>
     wf_fattr (GETATTR3resok.obj_attributes (GETATTR3res.resok r)))"

definition merge_getattr :: "GETATTR3res \<Rightarrow> GETATTR3res \<Rightarrow> GETATTR3res" where
  "merge_getattr v obj = (if GETATTR3res.status v = NFS3_OK then v
     else obj\<lparr>GETATTR3res.status := GETATTR3res.status v\<rparr>)"

definition merge_lookup_ok :: "LOOKUP3resok \<Rightarrow> LOOKUP3resok \<Rightarrow> LOOKUP3resok" where
  "merge_lookup_ok v obj = v\<lparr>
     LOOKUP3resok.obj_attributes :=
       merge_post_op (LOOKUP3resok.obj_attributes v) (LOOKUP3resok.obj_attributes obj),
     LOOKUP3resok.dir_attributes :=
       merge_post_op (LOOKUP3resok.dir_attributes v) (LOOKUP3resok.dir_attributes obj)\<rparr>"

definition wf_lookup :: "LOOKUP3res \<Rightarrow> bool" where
  "wf_lookup r = (if LOOKUP3res.status r = NFS3_OK then wf_lookup_ok (LOOKUP3res.resok r)
     else wf_post_op (LOOKUP3resfail.dir_attributes (LOOKUP3res.resfail r)))"

definition merge_lookup :: "LOOKUP3res \<Rightarrow> LOOKUP3res \<Rightarrow> LOOKUP3res" where
  "merge_lookup v obj =
     (if LOOKUP3res.status v = NFS3_OK
      then obj\<lparr>LOOKUP3res.status := LOOKUP3res.status v,
         LOOKUP3res.resok := merge_lookup_ok (LOOKUP3res.resok v) (LOOKUP3res.resok obj)\<rparr>
      else obj\<lparr>LOOKUP3res.status := LOOKUP3res.status v,
         LOOKUP3res.resfail := \<lparr>LOOKUP3resfail.dir_attributes =
           merge_post_op (LOOKUP3resfail.dir_attributes (LOOKUP3res.resfail v))
             (LOOKUP3resfail.dir_attributes (LOOKUP3res.resfail obj))\<rparr>\<rparr>)"

definition wf_readdir_args :: "READDIR3args \<Rightarrow> bool" where
  "wf_readdir_args a \<longleftrightarrow> wf_fh (READDIR3args.dir a) \<and>
     length (READDIR3args.cookieverf a) = NFS3_COOKIEVERFSIZE \<and> fits32 (READDIR3args.count a)"

definition wf_lookup_args :: "LOOKUP3args \<Rightarrow> bool" where
  "wf_lookup_args a \<longleftrightarrow> wf_fh (diropargs3.dir (what a)) \<and> wf_name XDR_NOBOUND (name (what a))"

definition wf_read_args :: "READ3args \<Rightarrow> bool" where
  "wf_read_args a \<longleftrightarrow> wf_fh (file_fh a) \<and> fits32 (READ3args.count a)"

lemmas wf_message_defs =
  wf_fh_def wf_time_def wf_specdata_def wf_fattr_def wf_post_op_def wf_name_def is_bool_def

section \<open>What the library documents\<close>

text \<open>One \<open>xdr_bool\<close> after the other, the reference for the inlined form.\<close>

fun put_each :: "xdr_prims \<Rightarrow> XDR \<Rightarrow> bool_t list \<Rightarrow> XDR option" where
  "put_each X xdrs [] = Some xdrs"
| "put_each X xdrs (b # bs) =
     (case xp_bool X xdrs b of None \<Rightarrow> None | Some (xdrs, _) \<Rightarrow> put_each X xdrs bs)"

locale xdr_library =
  fixes X :: xdr_prims
  assumes u_quad_t: "transmits (xp_u_quad_t X) (\<lambda>_. True) whole"
    and quad_t: "transmits (xp_quad_t X) (\<lambda>_. True) whole"
    and u_long: "transmits (xp_u_long X) fits32 whole"
    and int: "transmits (xp_int X) (\<lambda>_. True) whole"
    and enum: "transmits (xp_enum X) (\<lambda>_. True) whole"
    and bool: "transmits (xp_bool X) is_bool whole"
    and string: "m \<le> XDR_NOBOUND \<Longrightarrow> transmits (xp_string X m) (wf_name m) whole"
    and opaque: "transmits (xp_opaque X n) (\<lambda>bs. length bs = n) whole"
    and bytes: "m \<le> XDR_NOBOUND \<Longrightarrow> transmits (xp_bytes X m) (\<lambda>bs. length bs \<le> m) whole"
    and bytes_too_long: "m < length bs \<Longrightarrow> xp_bytes X m (XDR_ENCODE out room) bs = None"
    and bytes_refused: "n \<le> XDR_NOBOUND \<Longrightarrow> carries (xp_bytes X n) bs w (\<lambda>_. bs) \<Longrightarrow>
          m < length bs \<Longrightarrow>
          xp_bytes X m (XDR_DECODE (w @ rest)) obj = None"
    and array: "m \<le> XDR_NOBOUND \<Longrightarrow> transmits q (\<lambda>_. True) whole \<Longrightarrow>
          transmits (xp_array X m q) (\<lambda>vs. length vs \<le> m) whole"
    and null_pointer: "\<exists>w. \<forall>p. carries (xp_pointer X p) None w (\<lambda>_. None)"
    and pointer: "\<exists>t. t \<noteq> [] \<and> (\<forall>p e w. carries p e w (\<lambda>_. e) \<longrightarrow>
          carries (xp_pointer X p) (Some e) (t @ w) (\<lambda>_. Some e))"
    and put_bools: "xp_put_bools X (XDR_ENCODE out room) fs = Some xdrs \<Longrightarrow>
          list_all is_bool fs \<Longrightarrow> put_each X (XDR_ENCODE out room) fs = Some xdrs"
    and get_bools: "put_each X (XDR_ENCODE [] \<infinity>) fs = Some (XDR_ENCODE w r) \<Longrightarrow>
          list_all is_bool fs \<Longrightarrow>
          xp_get_bools X (XDR_DECODE (w @ rest)) (length fs) \<in> {None, Some (XDR_DECODE rest, fs)}"
    and frees_scalars: "frees (xp_u_quad_t X)" "frees (xp_u_long X)"
    and frees_arrays: "frees (xp_opaque X n)" "frees (xp_bytes X m)" "frees (xp_string X m)"
begin

section \<open>Scalars, names and handles\<close>

lemma xdr_uint64 [xdr_intros]: "transmits (xdr_uint64 X) (\<lambda>_. True) whole"
  using u_quad_t by (simp add: xdr_uint64_def)

lemma xdr_uint32 [xdr_intros]: "transmits (xdr_uint32 X) fits32 whole"
  using u_long by (simp add: xdr_uint32_def)

lemma xdr_ints [xdr_intros]:
  "transmits (xdr_fileid3 X) (\<lambda>_. True) whole" "transmits (xdr_cookie3 X) (\<lambda>_. True) whole"
  "transmits (xdr_size3 X) (\<lambda>_. True) whole" "transmits (xdr_offset3 X) (\<lambda>_. True) whole"
  "transmits (xdr_uid3 X) fits32 whole" "transmits (xdr_gid3 X) fits32 whole"
  "transmits (xdr_mode3 X) fits32 whole" "transmits (xdr_count3 X) fits32 whole"
  by (simp_all add: xdr_fileid3_def xdr_cookie3_def xdr_size3_def xdr_offset3_def xdr_uid3_def
      xdr_gid3_def xdr_mode3_def xdr_count3_def xdr_uint64 xdr_uint32)

lemma xdr_enums [xdr_intros]:
  "transmits (xdr_mountstat3 X) (\<lambda>_. True) whole" "transmits (xdr_nfsstat3 X) (\<lambda>_. True) whole"
  "transmits (xdr_ftype3 X) (\<lambda>_. True) whole" "transmits (xp_bool X) is_bool whole"
  using enum bool by (simp_all add: xdr_mountstat3_def xdr_nfsstat3_def xdr_ftype3_def)

lemma xdr_filename3 [xdr_intros]: "transmits (xdr_filename3 X) (wf_name XDR_NOBOUND) whole"
  using string by (simp add: xdr_filename3_def)

lemma xdr_dirpath [xdr_intros]: "transmits (xdr_dirpath X) (wf_name MNTPATHLEN) whole"
  using string by (simp add: xdr_dirpath_def XDR_NOBOUND_def MNTPATHLEN_def)

lemma xdr_cookieverf3 [xdr_intros]:
  "transmits (xdr_cookieverf3 X) (\<lambda>bs. length bs = NFS3_COOKIEVERFSIZE) whole"
  using opaque by (simp add: xdr_cookieverf3_def)

lemma xdr_fhandle3 [xdr_intros]: "transmits (xdr_fhandle3 X) (\<lambda>bs. length bs \<le> FHSIZE3) whole"
  using bytes by (simp add: xdr_fhandle3_def FHSIZE3_def XDR_NOBOUND_def)

lemma xdr_fh_bytes [xdr_intros]:
  "transmits (xp_bytes X NFS3_FHSIZE) (\<lambda>bs. length bs \<le> NFS3_FHSIZE) whole"
  using bytes by (simp add: NFS3_FHSIZE_def XDR_NOBOUND_def)

lemma xdr_data [xdr_intros]:
  "transmits (xp_bytes X XDR_NOBOUND) (\<lambda>bs. length bs \<le> XDR_NOBOUND) whole"
  using bytes by simp

lemma xdr_flavors [xdr_intros]:
  "transmits (xp_array X XDR_NOBOUND (xp_int X)) (\<lambda>vs. length vs \<le> XDR_NOBOUND) whole"
  using array int by simp

lemma xdr_nfs_fh3 [xdr_intros]: "transmits (xdr_nfs_fh3 X) wf_fh whole"
  unfolding xdr_nfs_fh3_def
  by (rule transmits_cong, rule transmits_field, rule xdr_fh_bytes) (simp_all add: wf_fh_def)

section \<open>Attributes\<close>

lemma xdr_nfstime3 [xdr_intros]: "transmits (xdr_nfstime3 X) wf_time whole"
  unfolding xdr_nfstime3_def
  by (rule transmits_cong, (rule xdr_intros | simp add: wf_message_defs)+)

lemma xdr_specdata3 [xdr_intros]: "transmits (xdr_specdata3 X) wf_specdata whole"
  unfolding xdr_specdata3_def
  by (rule transmits_cong, (rule xdr_intros | simp add: wf_message_defs)+)

lemma xdr_fattr3 [xdr_intros]: "transmits (xdr_fattr3 X) wf_fattr whole"
  unfolding xdr_fattr3_def
  by (rule transmits_cong, (rule xdr_intros | simp add: wf_fattr_def)+)

lemma post_op_default:
  "d \<noteq> 1 \<Longrightarrow> transmits (if d = 0 then xdr_struct [] else xdr_fail)
     (\<lambda>v. wf_post_op v \<and> attributes_follow v = d) (\<lambda>v obj. obj)"
  by (auto simp: wf_post_op_def is_bool_def simp del: xdr_struct.simps
      intro: transmits_fail transmits_Nil)

lemma xdr_post_op_attr [xdr_intros]: "transmits (xdr_post_op_attr X) wf_post_op merge_post_op"
  unfolding xdr_post_op_attr_def
  by (rule transmits_union [OF _ _ post_op_default], rule transmits_field, rule xdr_enums(4))
    (rule transmits_field xdr_fattr3 | (auto simp: wf_post_op_def merge_post_op_def is_bool_def)[1])+

section \<open>Arguments\<close>

lemma xdr_args [xdr_intros]:
  "transmits (xdr_FSINFO3args X) (\<lambda>a. wf_fh (fsroot a)) whole"
  "transmits (xdr_PATHCONF3args X) (\<lambda>a. wf_fh (PATHCONF3args.object a)) whole"
  "transmits (xdr_GETATTR3args X) (\<lambda>a. wf_fh (GETATTR3args.object a)) whole"
  unfolding xdr_FSINFO3args_def xdr_PATHCONF3args_def xdr_GETATTR3args_def
  by (rule transmits_cong, (rule xdr_intros | simp)+)+

lemma xdr_ACCESS3args [xdr_intros]:
  "transmits (xdr_ACCESS3args X)
     (\<lambda>a. wf_fh (ACCESS3args.object a) \<and> fits32 (ACCESS3args.access a)) whole"
  unfolding xdr_ACCESS3args_def by (rule transmits_cong, (rule xdr_intros | simp)+)

lemma xdr_READDIR3args [xdr_intros]: "transmits (xdr_READDIR3args X) wf_readdir_args whole"
  unfolding xdr_READDIR3args_def
  by (rule transmits_cong, (rule xdr_intros | simp add: wf_readdir_args_def)+)

lemma xdr_diropargs3 [xdr_intros]:
  "transmits (xdr_diropargs3 X)
     (\<lambda>a. wf_fh (diropargs3.dir a) \<and> wf_name XDR_NOBOUND (name a)) whole"
  unfolding xdr_diropargs3_def by (rule transmits_cong, (rule xdr_intros | simp)+)

lemma xdr_LOOKUP3args [xdr_intros]: "transmits (xdr_LOOKUP3args X) wf_lookup_args whole"
  unfolding xdr_LOOKUP3args_def
  by (rule transmits_cong, (rule xdr_intros | simp add: wf_lookup_args_def)+)

lemma xdr_READ3args [xdr_intros]: "transmits (xdr_READ3args X) wf_read_args whole"
  unfolding xdr_READ3args_def
  by (rule transmits_cong, (rule xdr_intros | simp add: wf_read_args_def)+)

lemma frees_args [xdr_intros]:
  "frees (xdr_nfs_fh3 X)" "frees (xdr_filename3 X)" "frees (xdr_uint32 X)" "frees (xdr_uint64 X)"
  "frees (xdr_cookie3 X)" "frees (xdr_offset3 X)" "frees (xdr_count3 X)"
  "frees (xdr_cookieverf3 X)" "frees (xdr_dirpath X)"
  by (simp_all add: xdr_nfs_fh3_def xdr_filename3_def xdr_uint32_def xdr_uint64_def xdr_cookie3_def
      xdr_offset3_def xdr_count3_def xdr_cookieverf3_def xdr_dirpath_def frees_scalars frees_arrays
      frees_field)

lemma frees_messages:
  "frees (xdr_FSINFO3args X)" "frees (xdr_PATHCONF3args X)" "frees (xdr_GETATTR3args X)"
  "frees (xdr_ACCESS3args X)" "frees (xdr_READDIR3args X)" "frees (xdr_LOOKUP3args X)"
  "frees (xdr_READ3args X)"
  unfolding xdr_FSINFO3args_def xdr_PATHCONF3args_def xdr_GETATTR3args_def xdr_ACCESS3args_def
    xdr_READDIR3args_def xdr_LOOKUP3args_def xdr_diropargs3_def xdr_READ3args_def
  by (rule xdr_intros)+

section \<open>Results\<close>

lemma xdr_mountres3_ok [xdr_intros]:
  "transmits (xdr_mountres3_ok X)
     (\<lambda>r. length (fhandle r) \<le> FHSIZE3 \<and> length (auth_flavors r) \<le> XDR_NOBOUND) whole"
  unfolding xdr_mountres3_ok_def by (rule transmits_cong, (rule xdr_intros | simp)+)

lemma xdr_mountres3: "transmits (xdr_mountres3 X) wf_mountres merge_mountres"
  unfolding xdr_mountres3_def
  by (rule transmits_union)
    (rule xdr_intros | simp add: wf_mountres_def merge_mountres_def)+

lemma xdr_FSINFO3resok [xdr_intros]: "transmits (xdr_FSINFO3resok X) wf_fsinfo_ok merge_fsinfo_ok"
  unfolding xdr_FSINFO3resok_def
  by (rule transmits_cong, (rule xdr_intros | simp add: wf_fsinfo_ok_def merge_fsinfo_ok_def)+)

lemma xdr_ACCESS3resok [xdr_intros]: "transmits (xdr_ACCESS3resok X) wf_access_ok merge_access_ok"
  unfolding xdr_ACCESS3resok_def
  by (rule transmits_cong, (rule xdr_intros | simp add: wf_access_ok_def merge_access_ok_def)+)

lemma xdr_READ3resok [xdr_intros]: "transmits (xdr_READ3resok X) wf_read_ok merge_read_ok"
  unfolding xdr_READ3resok_def
  by (rule transmits_cong, (rule xdr_intros | simp add: wf_read_ok_def merge_read_ok_def)+)

lemma xdr_FSINFO3resfail [xdr_intros]:
  "transmits (xdr_FSINFO3resfail X) (\<lambda>r. wf_post_op (FSINFO3resfail.obj_attributes r))
     (\<lambda>v obj. obj\<lparr>FSINFO3resfail.obj_attributes :=
        merge_post_op (FSINFO3resfail.obj_attributes v) (FSINFO3resfail.obj_attributes obj)\<rparr>)"
  unfolding xdr_FSINFO3resfail_def by (rule transmits_cong, (rule xdr_intros | simp)+)

lemma xdr_FSINFO3res: "transmits (xdr_FSINFO3res X) wf_fsinfo merge_fsinfo"
  unfolding xdr_FSINFO3res_def
  by (rule transmits_union)
    (rule xdr_intros | simp add: wf_fsinfo_def merge_fsinfo_def resfail_views)+

lemma xdr_ACCESS3resfail [xdr_intros]:
  "transmits (xdr_ACCESS3resfail X) (\<lambda>r. wf_post_op (ACCESS3resfail.obj_attributes r))
     (\<lambda>v obj. obj\<lparr>ACCESS3resfail.obj_attributes :=
        merge_post_op (ACCESS3resfail.obj_attributes v) (ACCESS3resfail.obj_attributes obj)\<rparr>)"
  unfolding xdr_ACCESS3resfail_def by (rule transmits_cong, (rule xdr_intros | simp)+)

lemma xdr_ACCESS3res: "transmits (xdr_ACCESS3res X) wf_access merge_access"
  unfolding xdr_ACCESS3res_def
  by (rule transmits_union)
    (rule xdr_intros | simp add: wf_access_def merge_access_def resfail_views)+

lemma xdr_READ3resfail [xdr_intros]:
  "transmits (xdr_READ3resfail X) (\<lambda>r. wf_post_op (READ3resfail.file_attributes r))
     (\<lambda>v obj. obj\<lparr>READ3resfail.file_attributes :=
        merge_post_op (READ3resfail.file_attributes v) (READ3resfail.file_attributes obj)\<rparr>)"
  unfolding xdr_READ3resfail_def by (rule transmits_cong, (rule xdr_intros | simp)+)

lemma xdr_READ3res: "transmits (xdr_READ3res X) wf_read merge_read"
  unfolding xdr_READ3res_def
  by (rule transmits_union)
    (rule xdr_intros | simp add: wf_read_def merge_read_def resfail_views)+

lemma xdr_GETATTR3resok [xdr_intros]:
  "transmits (xdr_GETATTR3resok X) (\<lambda>r. wf_fattr (GETATTR3resok.obj_attributes r)) whole"
  unfolding xdr_GETATTR3resok_def by (rule transmits_cong, (rule xdr_intros | simp)+)

lemma xdr_GETATTR3res: "transmits (xdr_GETATTR3res X) wf_getattr merge_getattr"
  unfolding xdr_GETATTR3res_def
  by (rule transmits_union)
    (rule xdr_intros | simp add: wf_getattr_def merge_getattr_def)+

lemma xdr_LOOKUP3resok [xdr_intros]: "transmits (xdr_LOOKUP3resok X) wf_lookup_ok merge_lookup_ok"
  unfolding xdr_LOOKUP3resok_def
  by (rule transmits_cong, (rule xdr_intros | simp add: wf_lookup_ok_def merge_lookup_ok_def)+)

lemma xdr_LOOKUP3resfail [xdr_intros]:
  "transmits (xdr_LOOKUP3resfail X) (\<lambda>r. wf_post_op (LOOKUP3resfail.dir_attributes r))
     (\<lambda>v obj. obj\<lparr>LOOKUP3resfail.dir_attributes :=
        merge_post_op (LOOKUP3resfail.dir_attributes v) (LOOKUP3resfail.dir_attributes obj)\<rparr>)"
  unfolding xdr_LOOKUP3resfail_def by (rule transmits_cong, (rule xdr_intros | simp)+)

lemma xdr_LOOKUP3res: "transmits (xdr_LOOKUP3res X) wf_lookup merge_lookup"
  unfolding xdr_LOOKUP3res_def
  by (rule transmits_union)
    (rule xdr_intros | simp add: wf_lookup_def merge_lookup_def resfail_views)+

section \<open>Directory listings\<close>

lemma entries_carried:
  "wf_entries es \<Longrightarrow> \<exists>w. entries_depth es \<le> length w \<and>
     (\<forall>n \<ge> entries_depth es. carries (xp_pointer X (xdr_entry3 X n)) es w (\<lambda>_. es))"
proof (induction es rule: entries_depth.induct)
  case 1
  then show ?case using null_pointer by auto
next
  case (2 i s c nxt)
  then obtain w where w: "entries_depth nxt \<le> length w"
    "\<And>n. n \<ge> entries_depth nxt \<Longrightarrow> carries (xp_pointer X (xdr_entry3 X n)) nxt w (\<lambda>_. nxt)"
    by auto
  obtain t where t: "t \<noteq> []" "\<And>p e w. carries p e w (\<lambda>_. e) \<Longrightarrow>
      carries (xp_pointer X p) (Some e) (t @ w) (\<lambda>_. Some e)"
    using pointer by blast
  obtain wi ws wc where parts: "carries (xdr_fileid3 X) i wi (\<lambda>_. i)"
    "carries (xdr_filename3 X) s ws (\<lambda>_. s)" "carries (xdr_cookie3 X) c wc (\<lambda>_. c)"
    using xdr_ints(1,2) xdr_filename3 2(2) unfolding transmits_def by fastforce
  let ?e = "Entry3 i s c nxt" and ?w = "wi @ ws @ wc @ w @ []"
  have "carries (xdr_entry3 X (Suc n)) ?e ?w (\<lambda>_. ?e)" if "n \<ge> entries_depth nxt" for n
  proof -
    note fields = carries_field [of "xdr_fileid3 X" entry_fileid ?e wi "\<lambda>_. i" set_fileid]
      carries_field [of "xdr_filename3 X" entry_name ?e ws "\<lambda>_. s" set_name]
      carries_field [of "xdr_cookie3 X" entry_cookie ?e wc "\<lambda>_. c" set_cookie]
      carries_field [of "xp_pointer X (xdr_entry3 X n)" nextentry ?e w "\<lambda>_. nxt" set_next]
    have "set_next (\<lambda>_. nxt) (set_cookie (\<lambda>_. c) (set_name (\<lambda>_. s) (set_fileid (\<lambda>_. i) obj))) = ?e"
      for obj by (cases obj) simp
    then show ?thesis
      unfolding xdr_entry3.simps using parts w(2) [OF that]
      by (intro carries_cong [OF carries_Cons [OF fields(1) carries_Cons [OF fields(2)
              carries_Cons [OF fields(3) carries_Cons [OF fields(4) carries_Nil]]]]]) simp_all
  qed
  then have "carries (xp_pointer X (xdr_entry3 X n)) (Some ?e) (t @ ?w) (\<lambda>_. Some ?e)"
    if "n \<ge> Suc (entries_depth nxt)" for n
    using that by (cases n) (auto intro: t(2))
  with t(1) w(1) show ?case
    by (intro exI [of _ "t @ ?w"]) (auto simp: Suc_le_eq neq_Nil_conv)
qed

lemma xdr_entries [xdr_intros]: "transmits (xdr_entries X) wf_entries whole"
  unfolding transmits_def
proof (intro allI impI)
  fix es assume "wf_entries es"
  then obtain w where w: "entries_depth es \<le> length w"
    "\<And>n. n \<ge> entries_depth es \<Longrightarrow> carries (xp_pointer X (xdr_entry3 X n)) es w (\<lambda>_. es)"
    using entries_carried by blast
  have "carries (xdr_entries X) es w (\<lambda>_. es)"
    using w(2) [of "entries_depth es"] w(1) carries_decode [OF w(2)]
    by (simp add: carries_def xdr_entries_def)
  then show "\<exists>w. carries (xdr_entries X) es w (\<lambda>_. es)" by blast
qed

lemma xdr_dirlist3 [xdr_intros]:
  "transmits (xdr_dirlist3 X) (\<lambda>r. wf_entries (entries r) \<and> is_bool (dirlist3.eof r)) whole"
  unfolding xdr_dirlist3_def by (rule transmits_cong, (rule xdr_intros | simp)+)

lemma xdr_READDIR3resok [xdr_intros]:
  "transmits (xdr_READDIR3resok X) wf_readdir_ok merge_readdir_ok"
  unfolding xdr_READDIR3resok_def
  by (rule transmits_cong, (rule xdr_intros | simp add: wf_readdir_ok_def merge_readdir_ok_def)+)

lemma xdr_READDIR3resfail [xdr_intros]:
  "transmits (xdr_READDIR3resfail X) (\<lambda>r. wf_post_op (READDIR3resfail.dir_attributes r))
     (\<lambda>v obj. obj\<lparr>READDIR3resfail.dir_attributes :=
        merge_post_op (READDIR3resfail.dir_attributes v) (READDIR3resfail.dir_attributes obj)\<rparr>)"
  unfolding xdr_READDIR3resfail_def by (rule transmits_cong, (rule xdr_intros | simp)+)

lemma xdr_READDIR3res: "transmits (xdr_READDIR3res X) wf_readdir merge_readdir"
  unfolding xdr_READDIR3res_def
  by (rule transmits_union)
    (rule xdr_intros | simp add: wf_readdir_def merge_readdir_def resfail_views)+

section \<open>The flags of PATHCONF\<close>

definition bool_wire :: "bool_t \<Rightarrow> byte list" where
  "bool_wire b = (SOME w. carries (xp_bool X) b w (\<lambda>_. b))"

lemma carries_bool: "is_bool b \<Longrightarrow> carries (xp_bool X) b (bool_wire b) (\<lambda>_. b)"
  unfolding bool_wire_def by (rule someI_ex) (use bool in \<open>simp add: transmits_def\<close>)

lemma put_each_wire:
  "list_all is_bool bs \<Longrightarrow> put_each X (XDR_ENCODE out room) bs =
     (let w = concat (map bool_wire bs)
      in if enat (length w) \<le> room then Some (XDR_ENCODE (out @ w) (room - enat (length w)))
         else None)"
proof (induction bs arbitrary: out room)
  case Nil
  then show ?case by (simp add: zero_enat_def [symmetric])
next
  case (Cons b bs)
  then have b: "carries (xp_bool X) b (bool_wire b) (\<lambda>_. b)" by (simp add: carries_bool)
  show ?case
    using Cons by (cases "enat (length (bool_wire b)) \<le> room")
      (simp_all add: carries_encode [OF b] carries_no_room [OF b] enat_room enat_room_diff Let_def)
qed

definition flags_of :: "PATHCONF3resok \<Rightarrow> bool_t list" where
  "flags_of r = [no_trunc r, chown_restricted r, case_insensitive r, case_preserving r]"

lemma carries_flags:
  assumes "list_all is_bool (flags_of v)"
  shows "carries (xdr_struct (pathconf_flags X)) v (concat (map bool_wire (flags_of v)))
    (\<lambda>obj. obj\<lparr>no_trunc := no_trunc v, chown_restricted := chown_restricted v,
       case_insensitive := case_insensitive v, case_preserving := case_preserving v\<rparr>)"
proof -
  note fields = carries_field [where p = "xp_bool X" and v = v, OF carries_bool]
  show ?thesis
    unfolding pathconf_flags_def flags_of_def list.map concat.simps using assms
    by (intro carries_cong [OF carries_Cons [OF fields carries_Cons [OF fields
            carries_Cons [OF fields carries_Cons [OF fields carries_Nil]]]]])
      (simp_all add: flags_of_def)
qed

lemma put_flags:
  assumes "list_all is_bool (flags_of v)"
  shows "pathconf_put_flags X (XDR_ENCODE out room) v =
    xdr_struct (pathconf_flags X) (XDR_ENCODE out room) v"
proof (cases "xp_put_bools X (XDR_ENCODE out room) (flags_of v)")
  case None
  then show ?thesis by (simp add: pathconf_put_flags_def flags_of_def)
next
  case (Some xdrs)
  from put_bools [OF this assms] show ?thesis
    using carries_flags [OF assms] Some
    by (simp add: pathconf_put_flags_def flags_of_def [symmetric] put_each_wire [OF assms] Let_def
        carries_def split: if_splits)
qed

lemma get_flags:
  assumes "list_all is_bool (flags_of v)"
  shows "pathconf_get_flags X (XDR_DECODE (concat (map bool_wire (flags_of v)) @ rest)) obj =
    xdr_struct (pathconf_flags X) (XDR_DECODE (concat (map bool_wire (flags_of v)) @ rest)) obj"
proof -
  let ?w = "concat (map bool_wire (flags_of v))"
  have "xp_get_bools X (XDR_DECODE (?w @ rest)) (length (flags_of v)) \<in>
      {None, Some (XDR_DECODE rest, flags_of v)}"
    by (rule get_bools) (use assms in \<open>simp_all add: put_each_wire\<close>)
  moreover have "length (flags_of v) = 4" by (simp add: flags_of_def)
  ultimately consider "xp_get_bools X (XDR_DECODE (?w @ rest)) 4 = None"
    | "xp_get_bools X (XDR_DECODE (?w @ rest)) 4 = Some (XDR_DECODE rest, flags_of v)"
    by auto
  then show ?thesis
    unfolding carries_decode [OF carries_flags [OF assms]]
    by cases (simp_all add: pathconf_get_flags_def carries_decode [OF carries_flags [OF assms]],
      simp add: flags_of_def)
qed

lemma xdr_PATHCONF3resok [xdr_intros]:
  "transmits (xdr_PATHCONF3resok X) wf_pathconf_ok merge_pathconf_ok"
  unfolding transmits_def
proof (intro allI impI)
  fix v assume v: "wf_pathconf_ok v"
  then have bools: "list_all is_bool (flags_of v)"
    by (simp add: wf_pathconf_ok_def flags_of_def)
  have "transmits (xdr_struct (pathconf_head X)) wf_pathconf_ok (\<lambda>v obj. obj\<lparr>
      PATHCONF3resok.obj_attributes :=
        merge_post_op (PATHCONF3resok.obj_attributes v) (PATHCONF3resok.obj_attributes obj),
      linkmax := linkmax v, name_max := name_max v\<rparr>)"
    unfolding pathconf_head_def
    by (rule transmits_cong, (rule xdr_intros | simp add: wf_pathconf_ok_def)+)
  with v obtain w where w: "carries (xdr_struct (pathconf_head X)) v w (\<lambda>obj. obj\<lparr>
      PATHCONF3resok.obj_attributes :=
        merge_post_op (PATHCONF3resok.obj_attributes v) (PATHCONF3resok.obj_attributes obj),
      linkmax := linkmax v, name_max := name_max v\<rparr>)"
    unfolding transmits_def by blast
  have "carries (xdr_PATHCONF3resok X) v (w @ concat (map bool_wire (flags_of v)))
      (merge_pathconf_ok v)"
    using w carries_flags [OF bools]
    by (simp add: carries_def xdr_PATHCONF3resok_def xdr_struct_append put_flags [OF bools]
        get_flags [OF bools] merge_pathconf_ok_def enat_room enat_room_diff)
  then show "\<exists>w. carries (xdr_PATHCONF3resok X) v w (merge_pathconf_ok v)" by blast
qed

lemma xdr_PATHCONF3resfail [xdr_intros]:
  "transmits (xdr_PATHCONF3resfail X) (\<lambda>r. wf_post_op (PATHCONF3resfail.obj_attributes r))
     (\<lambda>v obj. obj\<lparr>PATHCONF3resfail.obj_attributes :=
        merge_post_op (PATHCONF3resfail.obj_attributes v) (PATHCONF3resfail.obj_attributes obj)\<rparr>)"
  unfolding xdr_PATHCONF3resfail_def by (rule transmits_cong, (rule xdr_intros | simp)+)

lemma xdr_PATHCONF3res: "transmits (xdr_PATHCONF3res X) wf_pathconf merge_pathconf"
  unfolding xdr_PATHCONF3res_def
  by (rule transmits_union)
    (rule xdr_intros | simp add: wf_pathconf_def merge_pathconf_def resfail_views)+

end

end
