(* ===== verification/Nfs_Svc_Correct.thy ===== *)
theory Nfs_Svc_Correct
  imports Nfs_Svc Nfs_Xdr_Correct
begin

text \<open>
  What the server promises: the static results stay well formed over every run, and a
  well-formed request is answered by the encoding of the result of its procedure.
\<close>

section \<open>Attributes fit their encoding\<close>

definition wf_timespec :: "timespec \<Rightarrow> bool" where
  "wf_timespec ts \<longleftrightarrow> fits32 (tv_sec ts) \<and> fits32 (tv_nsec ts)"

definition wf_stat :: "posix_stat \<Rightarrow> bool" where
  "wf_stat st \<longleftrightarrow> fits32 (s_nlink st) \<and> wf_timespec (s_atim st) \<and> wf_timespec (s_mtim st) \<and>
     wf_timespec (s_ctim st)"

text \<open>
  What POSIX and Linux document of the calls: names have no NUL in them and are short, a
  transfer is bounded, whatever the size of the buffer.
\<close>

definition wf_env :: "nfs_env \<Rightarrow> bool" where
  "wf_env env \<longleftrightarrow>
     (\<forall>p st. os_stat env p = Some st \<longrightarrow> wf_stat st) \<and>
     (\<forall>p ds. os_dir env p = Some ds \<longrightarrow>
        (\<forall>d \<in> set ds. wf_name XDR_NOBOUND (os_stale env (d_name d)))) \<and>
     (\<forall>fd n off bs. os_pread env fd n off = Some bs \<longrightarrow> length bs \<le> 2147479552)"

lemma fits32_ucast [simp]: "fits32 (ucast (w :: u32))"
  using unat_u32_bound [of w] by (simp add: fits32_def unsigned_ucast_eq take_bit_nat_eq_self)

lemma fits32_less: "v < 4294967296 \<Longrightarrow> fits32 v"
  by (simp add: fits32_def word_less_nat_alt)

lemma wf_attributes_of: "wf_stat st \<Longrightarrow> wf_fattr (attributes_of st)"
  by (simp add: attributes_of_def wf_fattr_def wf_specdata_def wf_time_def wf_stat_def
      wf_timespec_def timespec_to_nfstime3_def Let_def)

lemma wf_zero_fattr [simp]: "wf_fattr zero_fattr"
  by (simp add: zero_fattr_def zero_time_def wf_message_defs fits32_def)

text \<open>Attributes in static storage: well formed whether they follow or not.\<close>

definition sound_post_op :: "post_op_attr \<Rightarrow> bool" where
  "sound_post_op p \<longleftrightarrow> is_bool (attributes_follow p) \<and> wf_fattr (attributes p)"

lemma sound_post_op_wf: "sound_post_op p \<Longrightarrow> wf_post_op p"
  by (simp add: sound_post_op_def wf_post_op_def)

lemma sound_zero [simp]: "sound_post_op zero_post_op"
  by (simp add: sound_post_op_def zero_post_op_def is_bool_def)

lemma wf_fill_attributes:
  "wf_env env \<Longrightarrow> wf_fattr a \<Longrightarrow> wf_fattr (snd (fill_attributes env path a))"
  by (auto simp: fill_attributes_def wf_env_def wf_attributes_of split: option.split)

lemma sound_follow:
  "wf_env env \<Longrightarrow> sound_post_op p \<Longrightarrow> sound_post_op (follow_attributes env path p)"
  by (simp add: sound_post_op_def follow_attributes_def is_bool_def wf_fill_attributes)

section \<open>Directory listings\<close>

definition entry_of :: "nfs_env \<Rightarrow> dirent \<Rightarrow> entry3" where
  "entry_of env d = Entry3 (d_ino d) (os_stale env (d_name d)) (d_off d) None"

lemma readdir_loop_Cons:
  "readdir_loop env acc (d # ds) =
     (if os_malloc env (length acc) sizeof_entry3
      then readdir_loop env (acc @ [entry_of env d]) ds else None)"
  by (simp add: entry_of_def)

lemma readdir_loop_ok:
  assumes "\<And>k. k < length acc + length ds \<Longrightarrow> os_malloc env k sizeof_entry3"
  shows "readdir_loop env acc ds = Some (acc @ map (entry_of env) ds)"
  using assms
proof (induction ds arbitrary: acc)
  case (Cons d ds)
  from Cons.IH [of "acc @ [entry_of env d]"] Cons.prems show ?case
    by (simp only: readdir_loop_Cons) simp
qed simp

lemma readdir_loop_result:
  assumes "readdir_loop env acc ds = Some es"
  shows "es = acc @ map (entry_of env) ds"
  using assms
proof (induction ds arbitrary: acc)
  case (Cons d ds)
  then have "readdir_loop env (acc @ [entry_of env d]) ds = Some es"
    by (auto simp: readdir_loop_Cons simp del: readdir_loop.simps split: if_splits)
  then show ?case by (auto dest: Cons.IH)
qed simp

fun entries_list :: "entry3 option \<Rightarrow> (u64 \<times> cstring \<times> u64) list" where
  "entries_list None = []"
| "entries_list (Some (Entry3 i n c nxt)) = (i, n, c) # entries_list nxt"

lemma entries_list_link:
  "entries_list (link_entries es) = map (\<lambda>e. (entry_fileid e, entry_name e, entry_cookie e)) es"
  by (induction es rule: link_entries.induct) simp_all

lemma wf_link_entries:
  "wf_entries (link_entries es) \<longleftrightarrow> (\<forall>e \<in> set es. wf_name XDR_NOBOUND (entry_name e))"
  by (induction es rule: link_entries.induct) simp_all

lemma wf_fill_entries:
  assumes "wf_env env"
  shows "wf_entries (fst (fill_entries_for_readdir env path None))"
proof (cases "os_dir env path")
  case None
  then show ?thesis by (simp add: fill_entries_for_readdir_def)
next
  case (Some ds)
  then have "\<forall>e \<in> set (map (entry_of env) ds). wf_name XDR_NOBOUND (entry_name e)"
    using assms by (auto simp: wf_env_def entry_of_def)
  with Some show ?thesis
    by (auto simp: fill_entries_for_readdir_def wf_link_entries dest!: readdir_loop_result
        split: option.split)
qed

section \<open>The invariant of the static results\<close>

text \<open>
  Every result can be encoded: the attributes fit, flags are 0 or 1, the statuses are the ones
  the procedures set. The handles of MNT and LOOKUP may be longer than a handle can be.
\<close>

definition fsinfo_ok :: "FSINFO3res \<Rightarrow> bool" where
  "fsinfo_ok r \<longleftrightarrow> FSINFO3res.status r = NFS3_OK \<and>
     sound_post_op (FSINFO3resok.obj_attributes (FSINFO3res.resok r)) \<and> wf_fsinfo r"

definition pathconf_ok :: "PATHCONF3res \<Rightarrow> bool" where
  "pathconf_ok r \<longleftrightarrow> PATHCONF3res.status r = NFS3_OK \<and>
     sound_post_op (PATHCONF3resok.obj_attributes (PATHCONF3res.resok r)) \<and> wf_pathconf r"

definition access_ok :: "ACCESS3res \<Rightarrow> bool" where
  "access_ok r \<longleftrightarrow> ACCESS3res.status r = NFS3_OK \<and>
     sound_post_op (ACCESS3resok.obj_attributes (ACCESS3res.resok r)) \<and> wf_access r"

definition readdir_ok :: "READDIR3res \<Rightarrow> bool" where
  "readdir_ok r \<longleftrightarrow> READDIR3res.status r = NFS3_OK \<and>
     sound_post_op (READDIR3resok.dir_attributes (READDIR3res.resok r)) \<and> wf_readdir r"

definition lookup_ok :: "LOOKUP3res \<Rightarrow> bool" where
  "lookup_ok r \<longleftrightarrow> LOOKUP3res.status r \<in> {NFS3_OK, NFS3ERR_NOENT} \<and>
     sound_post_op (LOOKUP3resok.obj_attributes (LOOKUP3res.resok r)) \<and>
     sound_post_op (LOOKUP3resok.dir_attributes (LOOKUP3res.resok r)) \<and>
     (LOOKUP3res.status r = NFS3ERR_NOENT \<longrightarrow>
        attributes_follow (LOOKUP3resfail.dir_attributes (LOOKUP3res.resfail r)) = 0)"

definition read_ok :: "READ3res \<Rightarrow> bool" where
  "read_ok r \<longleftrightarrow> READ3res.status r \<in> {NFS3_OK, NFS3ERR_IO} \<and>
     READ3resok.file_attributes (READ3res.resok r) = zero_post_op \<and> wf_read r"

definition results_ok :: "nfs_state \<Rightarrow> bool" where
  "results_ok s \<longleftrightarrow>
     fhs_status (mnt_result s) = MNT3_OK \<and> length (auth_flavors (mountinfo (mnt_result s))) \<le> 1 \<and>
     GETATTR3res.status (getattr_result s) = NFS3_OK \<and> wf_getattr (getattr_result s) \<and>
     fsinfo_ok (fsinfo_result s) \<and> pathconf_ok (pathconf_result s) \<and> access_ok (access_result s) \<and>
     readdir_ok (readdir_result s) \<and> lookup_ok (lookup_result s) \<and> read_ok (read3_result s)"

lemmas result_defs =
  fsinfo_ok_def wf_fsinfo_def wf_fsinfo_ok_def pathconf_ok_def wf_pathconf_def wf_pathconf_ok_def
  wf_getattr_def access_ok_def wf_access_def wf_access_ok_def readdir_ok_def wf_readdir_def
  wf_readdir_ok_def lookup_ok_def read_ok_def wf_read_def wf_read_ok_def

lemmas enum_simps = MNT3_OK_def NFS3_OK_def NFS3ERR_NOENT_def NFS3ERR_IO_def

lemma fits32_numeral [simp]:
  "fits32 0" "fits32 1" "fits32 4096" "fits32 0xFFFFFFFF" "fits32 (of_nat NFS_MAXPATHLEN)"
  "fits32 NFS_MAXDATA_TCP" "fits32 NFS_MAXDATA_UDP"
  "fits32 (FSF3_LINK OR FSF3_SYMLINK OR FSF3_HOMOGENEOUS OR FSF3_CANSETTIME)"
  "fits32 (ACCESS3_READ OR ACCESS3_LOOKUP OR ACCESS3_MODIFY OR ACCESS3_EXTEND OR
     ACCESS3_DELETE OR ACCESS3_EXECUTE)"
  by (simp_all add: fits32_def NFS_MAXPATHLEN_def NFS_MAXDATA_TCP_def NFS_MAXDATA_UDP_def
      FSF3_LINK_def FSF3_SYMLINK_def FSF3_HOMOGENEOUS_def FSF3_CANSETTIME_def ACCESS3_READ_def
      ACCESS3_LOOKUP_def ACCESS3_MODIFY_def ACCESS3_EXTEND_def ACCESS3_DELETE_def
      ACCESS3_EXECUTE_def)

lemma fits32_length: "n \<le> 2147479552 \<Longrightarrow> fits32 (of_nat n)"
  by (simp add: fits32_def unat_of_nat take_bit_nat_eq_self_iff)

lemma results_ok_initial: "results_ok initial_results"
  by (simp add: results_ok_def initial_results_def result_defs sound_post_op_wf zero_time_def
      wf_time_def is_bool_def NFS3_COOKIEVERFSIZE_def enum_simps XDR_NOBOUND_def)

lemma results_ok_mnt: "results_ok s \<Longrightarrow> results_ok (mountproc3_mnt_3_svc path s)"
  by (simp add: results_ok_def mountproc3_mnt_3_svc_def)

lemma results_ok_fsinfo:
  assumes "results_ok s" and "wf_env env" and "nfsproc3_fsinfo_3_svc env a s = Inr t"
  shows "results_ok t"
  using assms sound_follow [OF assms(2), of "FSINFO3resok.obj_attributes (FSINFO3res.resok (fsinfo_result s))"]
  by (auto simp: results_ok_def nfsproc3_fsinfo_3_svc_def bind_res_eq_Inr Let_def fsinfo_ok_def
      wf_fsinfo_def wf_fsinfo_ok_def wf_time_def sound_post_op_wf)

lemma results_ok_pathconf:
  assumes "results_ok s" and "wf_env env" and "nfsproc3_pathconf_3_svc env a s = Inr t"
  shows "results_ok t"
  using assms sound_follow [OF assms(2), of "PATHCONF3resok.obj_attributes (PATHCONF3res.resok (pathconf_result s))"]
  by (auto simp: results_ok_def nfsproc3_pathconf_3_svc_def bind_res_eq_Inr Let_def pathconf_ok_def
      wf_pathconf_def wf_pathconf_ok_def is_bool_def sound_post_op_wf)

lemma results_ok_getattr:
  assumes "results_ok s" and "wf_env env" and "nfsproc3_getattr_3_svc env a s = Inr t"
  shows "results_ok t"
  using assms
  by (auto simp: results_ok_def nfsproc3_getattr_3_svc_def bind_res_eq_Inr Let_def wf_getattr_def
      wf_fill_attributes)

lemma results_ok_access:
  assumes "results_ok s" and "wf_env env" and "nfsproc3_access_3_svc env a s = Inr t"
  shows "results_ok t"
  using assms sound_follow [OF assms(2), of "ACCESS3resok.obj_attributes (ACCESS3res.resok (access_result s))"]
  by (auto simp: results_ok_def nfsproc3_access_3_svc_def bind_res_eq_Inr Let_def access_ok_def
      wf_access_def wf_access_ok_def sound_post_op_wf)

lemma results_ok_readdir:
  assumes "results_ok s" and "wf_env env" and "nfsproc3_readdir_3_svc env a s = Inr t"
  shows "results_ok t"
proof -
  obtain path where t: "t = s\<lparr>readdir_result := (readdir_result s)\<lparr>READDIR3res.resok :=
      (READDIR3res.resok (readdir_result s))\<lparr>READDIR3resok.dir_attributes :=
        follow_attributes env path (READDIR3resok.dir_attributes (READDIR3res.resok (readdir_result s))),
      READDIR3resok.reply := \<lparr>entries = fst (fill_entries_for_readdir env path None),
        eof = (if snd (fill_entries_for_readdir env path None) \<noteq> 0 then 0 else 1)\<rparr>\<rparr>\<rparr>\<rparr>"
    using assms(3) by (auto simp: nfsproc3_readdir_3_svc_def bind_res_eq_Inr Let_def case_prod_beta)
  have "readdir_ok (readdir_result s)" using assms(1) by (simp add: results_ok_def)
  then have "readdir_ok (readdir_result t)"
    using wf_fill_entries [OF assms(2)] assms(2)
    by (simp add: t readdir_ok_def wf_readdir_def wf_readdir_ok_def is_bool_def sound_post_op_wf
        sound_follow split: if_splits)
  with assms(1) show ?thesis by (simp add: results_ok_def t)
qed

definition lookup_found :: "nfs_env \<Rightarrow> cstring \<Rightarrow> cstring \<Rightarrow> posix_stat \<Rightarrow> LOOKUP3res \<Rightarrow> LOOKUP3res" where
  "lookup_found env dirPath path st r = \<lparr>LOOKUP3res.status = NFS3_OK,
     resok = \<lparr>LOOKUP3resok.object = \<lparr>fh_data = path\<rparr>,
       obj_attributes = \<lparr>attributes_follow = 1, attributes = attributes_of st\<rparr>,
       dir_attributes = follow_attributes env dirPath (LOOKUP3resok.dir_attributes (LOOKUP3res.resok r))\<rparr>,
     resfail = \<lparr>LOOKUP3resfail.dir_attributes = (LOOKUP3resfail.dir_attributes (LOOKUP3res.resfail r))
       \<lparr>attributes_follow := of_nat (length path)\<rparr>\<rparr>\<rparr>"

definition lookup_missing :: "nfs_env \<Rightarrow> cstring \<Rightarrow> LOOKUP3res \<Rightarrow> LOOKUP3res" where
  "lookup_missing env dirPath r = \<lparr>LOOKUP3res.status = NFS3ERR_NOENT,
     resok = \<lparr>LOOKUP3resok.object = \<lparr>fh_data = []\<rparr>,
       obj_attributes = LOOKUP3resok.obj_attributes (LOOKUP3res.resok r),
       dir_attributes = follow_attributes env dirPath (LOOKUP3resok.dir_attributes (LOOKUP3res.resok r))\<rparr>,
     resfail = \<lparr>LOOKUP3resfail.dir_attributes = (LOOKUP3resfail.dir_attributes (LOOKUP3res.resfail r))
       \<lparr>attributes_follow := 0\<rparr>\<rparr>\<rparr>"

lemma lookup_svc:
  assumes "terminated_path (diropargs3.dir (what a)) = Inr dirPath"
    and "os_malloc env 0 (length dirPath + length (name (what a)) + 2)"
    and "join_path dirPath (name (what a)) = Inr path"
  shows "nfsproc3_lookup_3_svc env a s = Inr (s\<lparr>lookup_result :=
    case os_stat env path of
      Some st \<Rightarrow> lookup_found env dirPath path st (lookup_result s)
    | None \<Rightarrow> lookup_missing env dirPath (lookup_result s)\<rparr>)"
  using assms
  by (simp add: nfsproc3_lookup_3_svc_def Let_def fill_attributes_def lookup_found_def
      lookup_missing_def split: option.split)

lemma lookup_svcE:
  assumes "nfsproc3_lookup_3_svc env a s = Inr t"
  obtains dirPath path where "terminated_path (diropargs3.dir (what a)) = Inr dirPath"
    "os_malloc env 0 (length dirPath + length (name (what a)) + 2)"
    "join_path dirPath (name (what a)) = Inr path"
  using assms by (auto simp: nfsproc3_lookup_3_svc_def bind_res_eq_Inr Let_def split: if_splits)

lemma results_ok_lookup:
  assumes "results_ok s" and "wf_env env" and "nfsproc3_lookup_3_svc env a s = Inr t"
  shows "results_ok t"
proof -
  let ?r = "lookup_result s"
  let ?dir = "LOOKUP3resok.dir_attributes (LOOKUP3res.resok ?r)"
  have ok: "lookup_ok ?r" using assms(1) by (simp add: results_ok_def)
  have dir: "sound_post_op (follow_attributes env p ?dir)" for p
    using assms(2) ok by (intro sound_follow) (simp_all add: lookup_ok_def)
  have found: "sound_post_op \<lparr>attributes_follow = 1, attributes = attributes_of st\<rparr>"
    if "os_stat env p = Some st" for p st
    using assms(2) that by (auto simp: sound_post_op_def is_bool_def wf_env_def wf_attributes_of)
  obtain dirPath path where "terminated_path (diropargs3.dir (what a)) = Inr dirPath"
    "os_malloc env 0 (length dirPath + length (name (what a)) + 2)"
    "join_path dirPath (name (what a)) = Inr path"
    using assms(3) by (rule lookup_svcE)
  from lookup_svc [OF this] assms(3) have t: "t = s\<lparr>lookup_result :=
    case os_stat env path of
      Some st \<Rightarrow> lookup_found env dirPath path st (lookup_result s)
    | None \<Rightarrow> lookup_missing env dirPath (lookup_result s)\<rparr>" by simp
  have "lookup_ok (lookup_result t)"
    using ok dir found
    by (auto simp: t lookup_ok_def lookup_found_def lookup_missing_def enum_simps split: option.split)
  with assms(1) show ?thesis by (simp add: results_ok_def t)
qed

lemma read_ok_stream:
  assumes "wf_env env" and "read_ok r"
  shows "read_ok (fill_READ3res_stream env path off n r)"
proof -
  have len: "length bs \<le> 2147479552" if "os_pread env fd n off = Some bs" for fd n off bs
    using assms(1) that by (auto simp: wf_env_def)
  have "wf_post_op zero_post_op" by (simp add: sound_post_op_wf)
  then show ?thesis
    using assms(2)
    by (auto simp: fill_READ3res_stream_def read_ok_def wf_read_def wf_read_ok_def Let_def enum_simps
        is_bool_def read_file_chunk_def XDR_NOBOUND_def fits32_length split: option.split
        dest!: len)
qed

lemma results_ok_read:
  assumes "results_ok s" and "wf_env env" and "nfsproc3_read_3_svc env a s = Inr t"
  shows "results_ok t"
  using assms read_ok_stream [OF assms(2)]
  by (auto simp: results_ok_def nfsproc3_read_3_svc_def bind_res_eq_Inr)

section \<open>Runs\<close>

lemma svc_call_keeps:
  assumes "svc_call xa zero xr local result room body s = Inr (ans, go, t)"
    and "P s" and "\<And>a t. local a s = Inr t \<Longrightarrow> P t"
  shows "P t"
  using assms by (auto simp: svc_call_def bind_res_eq_Inr split: option.splits)

lemma results_ok_dispatch:
  assumes "svc_dispatch X rq s = Inr (ans, go, t)" and "results_ok s" and "wf_env (rq_env rq)"
  shows "results_ok t"
proof -
  note keeps = svc_call_keeps [where P = results_ok, OF _ assms(2)]
  show ?thesis
  proof (cases "rq_prog rq")
    case MOUNT
    with assms(1,2) show ?thesis
      by (auto simp: svc_dispatch_def mount_3_def results_ok_mnt elim!: keeps split: if_splits)
  next
    case NFS_PROGRAM
    with assms(1,2) show ?thesis
      by (auto simp: svc_dispatch_def nfs_program_3_def split: if_splits elim!: keeps
          intro: results_ok_getattr [OF assms(2,3)] results_ok_lookup [OF assms(2,3)]
            results_ok_access [OF assms(2,3)] results_ok_read [OF assms(2,3)]
            results_ok_readdir [OF assms(2,3)] results_ok_fsinfo [OF assms(2,3)]
            results_ok_pathconf [OF assms(2,3)])
  qed
qed

lemma results_ok_run:
  "svc_run X s rqs ans t \<Longrightarrow> results_ok s \<Longrightarrow> \<forall>rq \<in> set rqs. wf_env (rq_env rq) \<Longrightarrow> results_ok t"
  by (induction rule: svc_run.induct) (auto intro: results_ok_dispatch)

section \<open>Served requests\<close>

text \<open>
  A request whose arguments the client encodes is answered by the encoding of the result of
  the procedure if it fits, and by a system error if it does not.
\<close>

definition answer_in :: "enat \<Rightarrow> byte list \<Rightarrow> svc_answer" where
  "answer_in room out = (if enat (length out) \<le> room then Sendreply out else Svcerr_systemerr)"

lemma svc_freeargs_ok: "frees xa \<Longrightarrow> svc_freeargs xa a"
  unfolding frees_def svc_freeargs_def by (metis option.distinct(1))

lemma svc_call_served:
  assumes "transmits xr W m" and "transmits xa V whole" and "frees xa"
    and "W (result t)" and "V a" and "local a s = Inr t"
  shows "\<exists>body out. svc_sendreply xa \<infinity> a = Some body \<and>
    svc_call xa zero xr local result room body s =
      Inr (answer_in room out, True, t) \<and>
    (\<forall>obj. svc_getargs xr out obj = Some (m (result t) obj))"
proof -
  obtain body where body: "carries xa a body (\<lambda>_. a)"
    using assms(2,5) by (auto simp: transmits_def)
  obtain out where out: "carries xr (result t) out (m (result t))"
    using assms(1,4) by (auto simp: transmits_def)
  have "svc_sendreply xa \<infinity> a = Some body"
    by (simp add: svc_sendreply_def carries_encode [OF body])
  moreover have "svc_getargs xr out obj = Some (m (result t) obj)" for obj
    using carries_decode [OF out, of "[]"] by (simp add: svc_getargs_def)
  moreover have "svc_call xa zero xr local result room body s =
      Inr (answer_in room out, True, t)"
    using assms(3) carries_decode [OF body, of "[]"]
    by (auto simp: svc_call_def svc_getargs_def assms(6) svc_sendreply_def carries_encode [OF out]
        carries_no_room [OF out] svc_freeargs_ok answer_in_def)
  ultimately show ?thesis by blast
qed

text \<open>A result that the routine refuses is a system error, whatever the room.\<close>

lemma svc_call_unsendable:
  assumes "transmits xa V whole" and "V a" and "frees xa" and "local a s = Inr t"
    and "\<And>room. xr (XDR_ENCODE [] room) (result t) = None"
  obtains body where "svc_sendreply xa \<infinity> a = Some body"
    and "svc_call xa zero xr local result room body s = Inr (Svcerr_systemerr, True, t)"
proof -
  obtain body where body: "carries xa a body (\<lambda>_. a)"
    using assms(1,2) by (auto simp: transmits_def)
  have "svc_call xa zero xr local result room body s = Inr (Svcerr_systemerr, True, t)"
    using assms(3) carries_decode [OF body, of "[]"]
    by (auto simp: svc_call_def svc_getargs_def assms(4) svc_sendreply_def assms(5) svc_freeargs_ok)
  then show thesis by (intro that) (simp_all add: svc_sendreply_def carries_encode [OF body])
qed

text \<open>What a client has encoded is what the server decodes, whatever follows it.\<close>

lemma transmits_sendreply:
  assumes "transmits xa V whole" and "V a"
  shows "\<exists>body. svc_sendreply xa \<infinity> a = Some body \<and>
    (\<forall>rest obj. xa (XDR_DECODE (body @ rest)) obj = Some (XDR_DECODE rest, a))"
proof -
  obtain body where body: "carries xa a body (\<lambda>_. a)"
    using assms by (auto simp: transmits_def)
  then show ?thesis by (auto simp: svc_sendreply_def carries_def)
qed

section \<open>The programs as a service\<close>

text \<open>
  The service without the wire: a call names its procedure and its arguments, and its effect
  is that of the procedure on the static results.
\<close>

datatype nfs_call =
    Getattr GETATTR3args
  | Lookup LOOKUP3args
  | Access ACCESS3args
  | Read READ3args
  | Readdir READDIR3args
  | Fsinfo FSINFO3args
  | Pathconf PATHCONF3args

datatype nfs_reply =
    Getattr_reply GETATTR3res
  | Lookup_reply LOOKUP3res
  | Access_reply ACCESS3res
  | Read_reply READ3res
  | Readdir_reply READDIR3res
  | Fsinfo_reply FSINFO3res
  | Pathconf_reply PATHCONF3res

fun nfs_service :: "nfs_env \<Rightarrow> nfs_call \<Rightarrow> nfs_state \<Rightarrow> nfs_state res" where
  "nfs_service env (Getattr a) = nfsproc3_getattr_3_svc env a"
| "nfs_service env (Lookup a) = nfsproc3_lookup_3_svc env a"
| "nfs_service env (Access a) = nfsproc3_access_3_svc env a"
| "nfs_service env (Read a) = nfsproc3_read_3_svc env a"
| "nfs_service env (Readdir a) = nfsproc3_readdir_3_svc env a"
| "nfs_service env (Fsinfo a) = nfsproc3_fsinfo_3_svc env a"
| "nfs_service env (Pathconf a) = nfsproc3_pathconf_3_svc env a"

text \<open>What a client sends for a call, and how it reads the reply into zeroed memory.\<close>

fun call_proc :: "nfs_call \<Rightarrow> nat" where
  "call_proc (Getattr _) = NFSPROC3_GETATTR"
| "call_proc (Lookup _) = NFSPROC3_LOOKUP"
| "call_proc (Access _) = NFSPROC3_ACCESS"
| "call_proc (Read _) = NFSPROC3_READ"
| "call_proc (Readdir _) = NFSPROC3_READDIR"
| "call_proc (Fsinfo _) = NFSPROC3_FSINFO"
| "call_proc (Pathconf _) = NFSPROC3_PATHCONF"

fun call_body :: "xdr_prims \<Rightarrow> nfs_call \<Rightarrow> byte list option" where
  "call_body X (Getattr a) = svc_sendreply (xdr_GETATTR3args X) \<infinity> a"
| "call_body X (Lookup a) = svc_sendreply (xdr_LOOKUP3args X) \<infinity> a"
| "call_body X (Access a) = svc_sendreply (xdr_ACCESS3args X) \<infinity> a"
| "call_body X (Read a) = svc_sendreply (xdr_READ3args X) \<infinity> a"
| "call_body X (Readdir a) = svc_sendreply (xdr_READDIR3args X) \<infinity> a"
| "call_body X (Fsinfo a) = svc_sendreply (xdr_FSINFO3args X) \<infinity> a"
| "call_body X (Pathconf a) = svc_sendreply (xdr_PATHCONF3args X) \<infinity> a"

fun read_reply :: "xdr_prims \<Rightarrow> nfs_call \<Rightarrow> byte list \<Rightarrow> nfs_reply option" where
  "read_reply X (Getattr _) out =
     map_option Getattr_reply (svc_getargs (xdr_GETATTR3res X) out (getattr_result initial_results))"
| "read_reply X (Lookup _) out =
     map_option Lookup_reply (svc_getargs (xdr_LOOKUP3res X) out (lookup_result initial_results))"
| "read_reply X (Access _) out =
     map_option Access_reply (svc_getargs (xdr_ACCESS3res X) out (access_result initial_results))"
| "read_reply X (Read _) out =
     map_option Read_reply (svc_getargs (xdr_READ3res X) out (read3_result initial_results))"
| "read_reply X (Readdir _) out =
     map_option Readdir_reply (svc_getargs (xdr_READDIR3res X) out (readdir_result initial_results))"
| "read_reply X (Fsinfo _) out =
     map_option Fsinfo_reply (svc_getargs (xdr_FSINFO3res X) out (fsinfo_result initial_results))"
| "read_reply X (Pathconf _) out =
     map_option Pathconf_reply (svc_getargs (xdr_PATHCONF3res X) out (pathconf_result initial_results))"

text \<open>The transmitted part of the result of a call.\<close>

fun call_result :: "nfs_call \<Rightarrow> nfs_state \<Rightarrow> nfs_reply" where
  "call_result (Getattr _) t =
     Getattr_reply (merge_getattr (getattr_result t) (getattr_result initial_results))"
| "call_result (Lookup _) t =
     Lookup_reply (merge_lookup (lookup_result t) (lookup_result initial_results))"
| "call_result (Access _) t =
     Access_reply (merge_access (access_result t) (access_result initial_results))"
| "call_result (Read _) t = Read_reply (merge_read (read3_result t) (read3_result initial_results))"
| "call_result (Readdir _) t =
     Readdir_reply (merge_readdir (readdir_result t) (readdir_result initial_results))"
| "call_result (Fsinfo _) t =
     Fsinfo_reply (merge_fsinfo (fsinfo_result t) (fsinfo_result initial_results))"
| "call_result (Pathconf _) t =
     Pathconf_reply (merge_pathconf (pathconf_result t) (pathconf_result initial_results))"

fun wf_call :: "nfs_call \<Rightarrow> bool" where
  "wf_call (Getattr a) \<longleftrightarrow> wf_fh (GETATTR3args.object a)"
| "wf_call (Lookup a) \<longleftrightarrow> wf_lookup_args a"
| "wf_call (Access a) \<longleftrightarrow> wf_fh (ACCESS3args.object a) \<and> fits32 (ACCESS3args.access a)"
| "wf_call (Read a) \<longleftrightarrow> wf_read_args a"
| "wf_call (Readdir a) \<longleftrightarrow> wf_readdir_args a"
| "wf_call (Fsinfo a) \<longleftrightarrow> wf_fh (fsroot a)"
| "wf_call (Pathconf a) \<longleftrightarrow> wf_fh (PATHCONF3args.object a)"

text \<open>A handle that LOOKUP has found must not be longer than a handle can be.\<close>

fun sendable :: "nfs_call \<Rightarrow> nfs_state \<Rightarrow> bool" where
  "sendable (Lookup _) t \<longleftrightarrow> wf_fh (LOOKUP3resok.object (LOOKUP3res.resok (lookup_result t)))"
| "sendable _ t \<longleftrightarrow> True"

lemmas proc_numbers = NULLPROC_def NFSPROC3_GETATTR_def NFSPROC3_LOOKUP_def NFSPROC3_ACCESS_def
  NFSPROC3_READ_def NFSPROC3_READDIR_def NFSPROC3_FSINFO_def NFSPROC3_PATHCONF_def

lemma results_ok_service:
  "nfs_service env c s = Inr t \<Longrightarrow> results_ok s \<Longrightarrow> wf_env env \<Longrightarrow> results_ok t"
  by (cases c) (auto intro: results_ok_getattr results_ok_lookup results_ok_access results_ok_read
      results_ok_readdir results_ok_fsinfo results_ok_pathconf)

lemma results_ok_wf:
  assumes "results_ok t"
  shows "wf_getattr (getattr_result t)" "wf_access (access_result t)" "wf_read (read3_result t)"
    "wf_readdir (readdir_result t)" "wf_fsinfo (fsinfo_result t)" "wf_pathconf (pathconf_result t)"
  using assms by (simp_all add: results_ok_def access_ok_def read_ok_def readdir_ok_def fsinfo_ok_def
      pathconf_ok_def)

lemma lookup_ok_wf:
  assumes "results_ok t" and "wf_fh (LOOKUP3resok.object (LOOKUP3res.resok (lookup_result t)))"
  shows "wf_lookup (lookup_result t)"
proof -
  have "lookup_ok (lookup_result t)" using assms(1) by (simp add: results_ok_def)
  with assms(2) show ?thesis
    by (auto simp: lookup_ok_def wf_lookup_def wf_lookup_ok_def wf_post_op_def [of "LOOKUP3resfail.dir_attributes _"]
        is_bool_def enum_simps sound_post_op_wf)
qed

context xdr_library
begin

text \<open>The dispatch on the wire refines the service.\<close>

lemma program_refines_service:
  assumes "wf_call c" and "results_ok s" and "wf_env env" and "nfs_service env c s = Inr t"
    and "sendable c t"
  shows "\<exists>body out. call_body X c = Some body \<and>
    nfs_program_3 X env room (call_proc c) body s =
      Inr (answer_in room out, True, t) \<and>
    read_reply X c out = Some (call_result c t)"
proof -
  note ok = results_ok_service [OF assms(4,2,3)]
  note wf = results_ok_wf [OF ok]
  show ?thesis
  proof (cases c)
    case (Getattr a)
    from svc_call_served [where result = getattr_result and t = t and local = "nfsproc3_getattr_3_svc env" and
        a = a and s = s and room = room and zero = "\<lparr>GETATTR3args.object = zero_fh\<rparr>",
        OF xdr_GETATTR3res xdr_args(3) frees_messages(3) wf(1)] Getattr assms(1,4)
    show ?thesis by (auto simp: nfs_program_3_def proc_numbers)
  next
    case (Lookup a)
    from svc_call_served [where result = lookup_result and t = t and local = "nfsproc3_lookup_3_svc env" and
        a = a and s = s and room = room and zero = "\<lparr>what = \<lparr>diropargs3.dir = zero_fh, name = []\<rparr>\<rparr>",
        OF xdr_LOOKUP3res xdr_LOOKUP3args frees_messages(6)] Lookup assms(1,4,5)
    show ?thesis by (auto simp: nfs_program_3_def proc_numbers lookup_ok_wf [OF ok])
  next
    case (Access a)
    from svc_call_served [where result = access_result and t = t and local = "nfsproc3_access_3_svc env" and
        a = a and s = s and room = room and zero = "\<lparr>ACCESS3args.object = zero_fh, access = 0\<rparr>",
        OF xdr_ACCESS3res xdr_ACCESS3args frees_messages(4) wf(2)] Access assms(1,4)
    show ?thesis by (auto simp: nfs_program_3_def proc_numbers)
  next
    case (Read a)
    from svc_call_served [where result = read3_result and t = t and local = "nfsproc3_read_3_svc env" and
        a = a and s = s and room = room and zero = "\<lparr>file_fh = zero_fh, offset = 0, READ3args.count = 0\<rparr>",
        OF xdr_READ3res xdr_READ3args frees_messages(7) wf(3)] Read assms(1,4)
    show ?thesis by (auto simp: nfs_program_3_def proc_numbers)
  next
    case (Readdir a)
    from svc_call_served [where result = readdir_result and t = t and local = "nfsproc3_readdir_3_svc env" and
        a = a and s = s and room = room and zero = "\<lparr>READDIR3args.dir = zero_fh, cookie = 0, cookieverf = replicate 8 0, count = 0\<rparr>",
        OF xdr_READDIR3res xdr_READDIR3args frees_messages(5) wf(4)] Readdir assms(1,4)
    show ?thesis by (auto simp: nfs_program_3_def proc_numbers)
  next
    case (Fsinfo a)
    from svc_call_served [where result = fsinfo_result and t = t and local = "nfsproc3_fsinfo_3_svc env" and
        a = a and s = s and room = room and zero = "\<lparr>fsroot = zero_fh\<rparr>",
        OF xdr_FSINFO3res xdr_args(1) frees_messages(1) wf(5)] Fsinfo assms(1,4)
    show ?thesis by (auto simp: nfs_program_3_def proc_numbers)
  next
    case (Pathconf a)
    from svc_call_served [where result = pathconf_result and t = t and local = "nfsproc3_pathconf_3_svc env" and
        a = a and s = s and room = room and zero = "\<lparr>PATHCONF3args.object = zero_fh\<rparr>",
        OF xdr_PATHCONF3res xdr_args(2) frees_messages(2) wf(6)] Pathconf assms(1,4)
    show ?thesis by (auto simp: nfs_program_3_def proc_numbers)
  qed
qed

text \<open>Handles beyond the bound: the server neither sends nor accepts them.\<close>

lemma long_handle_not_sent:
  "\<not> wf_fh h \<Longrightarrow> xdr_nfs_fh3 X (XDR_ENCODE out room) h = None"
  by (simp add: xdr_nfs_fh3_def xdr_field_def wf_fh_def bytes_too_long)

lemma long_lookup_not_sent:
  assumes "LOOKUP3res.status r = NFS3_OK" and "\<not> wf_fh (LOOKUP3resok.object (LOOKUP3res.resok r))"
  shows "xdr_LOOKUP3res X (XDR_ENCODE out room) r = None"
proof -
  obtain w where "carries (xdr_nfsstat3 X) (LOOKUP3res.status r) w (\<lambda>_. LOOKUP3res.status r)"
    using xdr_enums(2) by (auto simp: transmits_def)
  then have st: "xdr_nfsstat3 X (XDR_ENCODE out room) (LOOKUP3res.status r) =
      (if enat (length w) \<le> room
       then Some (XDR_ENCODE (out @ w) (room - enat (length w)), LOOKUP3res.status r) else None)"
    by (simp add: carries_def)
  have "xdr_LOOKUP3resok X (XDR_ENCODE o' r') (LOOKUP3res.resok r) = None" for o' r'
    using long_handle_not_sent [OF assms(2)] by (simp add: xdr_LOOKUP3resok_def xdr_field_def)
  then show ?thesis
    using st assms(1) by (simp add: xdr_LOOKUP3res_def xdr_field_def xdr_switch_def)
qed

lemma long_handle_refused:
  assumes "carries (xp_bytes X XDR_NOBOUND) bs w (\<lambda>_. bs)" and "NFS3_FHSIZE < length bs"
  shows "xdr_nfs_fh3 X (XDR_DECODE (w @ rest)) h = None"
  using bytes_refused [OF _ assms] by (simp add: xdr_nfs_fh3_def xdr_field_def)

lemma undecodable_handle:
  assumes "\<And>h. xdr_nfs_fh3 X (XDR_DECODE body) h = None"
    and "p \<in> {NFSPROC3_GETATTR, NFSPROC3_LOOKUP, NFSPROC3_ACCESS, NFSPROC3_READ, NFSPROC3_READDIR,
      NFSPROC3_FSINFO, NFSPROC3_PATHCONF}"
  shows "nfs_program_3 X env room p body s = Inr (Svcerr_decode, True, s)"
proof -
  note args = xdr_GETATTR3args_def xdr_LOOKUP3args_def xdr_diropargs3_def xdr_ACCESS3args_def
    xdr_READ3args_def xdr_READDIR3args_def xdr_FSINFO3args_def xdr_PATHCONF3args_def
  from assms show ?thesis
    by (elim insertE emptyE)
      (simp_all add: nfs_program_3_def proc_numbers svc_call_def svc_getargs_def args xdr_field_def)
qed

end

end
