(* ===== verification/Nfs_Client.thy ===== *)
theory Nfs_Client
  imports Nfs_Svc_Correct
begin

text \<open>
  A client that reads a file by READ requests until the server reports the end of the file,
  and what it gets: the contents of the file.
\<close>

section \<open>The client\<close>

definition read_args :: "nfs_fh3 \<Rightarrow> u64 \<Rightarrow> u64 \<Rightarrow> READ3args" where
  "read_args h off n = \<lparr>file_fh = h, offset = off, READ3args.count = n\<rparr>"

definition read_rpc ::
    "xdr_prims \<Rightarrow> nfs_env \<Rightarrow> nfs_fh3 \<Rightarrow> u64 \<Rightarrow> u64 \<Rightarrow> nfs_state \<Rightarrow> (READ3res \<times> nfs_state) option" where
  "read_rpc X env h off n s =
     (case call_body X (Read (read_args h off n)) of
        None \<Rightarrow> None
      | Some body \<Rightarrow>
          (case nfs_program_3 X env \<infinity> NFSPROC3_READ body s of
             Inr (Sendreply out, go, t) \<Rightarrow>
               map_option (\<lambda>r. (r, t)) (svc_getargs (xdr_READ3res X) out (read3_result initial_results))
           | _ \<Rightarrow> None))"

fun fetch_file ::
    "xdr_prims \<Rightarrow> nfs_env \<Rightarrow> nfs_fh3 \<Rightarrow> u64 \<Rightarrow> nat \<Rightarrow> u64 \<Rightarrow> nfs_state \<Rightarrow> byte list option" where
  "fetch_file X env h n 0 off s = None"
| "fetch_file X env h n (Suc fuel) off s =
     (case read_rpc X env h off n s of
        None \<Rightarrow> None
      | Some (r, t) \<Rightarrow>
          if READ3res.status r \<noteq> NFS3_OK then None
          else if READ3resok.eof (READ3res.resok r) = 1 then Some []
          else map_option (\<lambda>rest. READ3resok.data (READ3res.resok r) @ rest)
            (fetch_file X env h n fuel (off + READ3resok.count (READ3res.resok r)) t))"

section \<open>A file that can be read\<close>

text \<open>
  What POSIX documents of a regular file with contents \<open>c\<close>: it opens, every offset can be
  sought, and a read returns some of the bytes at the offset, none of them only at the end of
  the file or when none was asked for.
\<close>

definition serves_file :: "nfs_env \<Rightarrow> cstring \<Rightarrow> byte list \<Rightarrow> bool" where
  "serves_file env path c \<longleftrightarrow>
     os_open env path \<noteq> -1 \<and> (\<forall>k n. os_malloc env k n) \<and>
     (\<forall>off \<ge> 0. os_lseek env (os_open env path) off \<noteq> -1) \<and>
     (\<forall>n off. \<exists>bs rest. os_pread env (os_open env path) n (int off) = Some bs \<and>
        length bs \<le> n \<and> drop off c = bs @ rest \<and> (bs = [] \<longleftrightarrow> n = 0 \<or> length c \<le> off))"

lemma serves_fileE:
  assumes "serves_file env path c" and "0 < n"
  obtains bs rest where "os_pread env (os_open env path) n (int off) = Some bs"
    "length bs \<le> n" "drop off c = bs @ rest" "bs = [] \<longleftrightarrow> length c \<le> off"
proof -
  have "\<forall>n off. \<exists>bs rest. os_pread env (os_open env path) n (int off) = Some bs \<and>
      length bs \<le> n \<and> drop off c = bs @ rest \<and> (bs = [] \<longleftrightarrow> n = 0 \<or> length c \<le> off)"
    using assms(1) unfolding serves_file_def by (elim conjE)
  from this [THEN spec, THEN spec, of n off] show thesis
    using assms(2) by (elim exE conjE) (rule that; simp)
qed

text \<open>The result of one READ: the bytes with their number, or the end of the file.\<close>

lemma stream_result:
  assumes "serves_file env path c" and "0 < n"
    and "os_pread env (os_open env path) n (int off) = Some bs"
  shows "fill_READ3res_stream env path (int off) n r = r\<lparr>READ3res.status := NFS3_OK,
    READ3res.resok := (READ3res.resok r)\<lparr>READ3resok.count := of_nat (length bs),
      READ3resok.eof := (if bs = [] then 1 else 0), READ3resok.data := bs\<rparr>\<rparr>"
  using assms by (simp add: serves_file_def fill_READ3res_stream_def open_file_def
      read_file_chunk_def Let_def)

lemma sint_of_nat_small: "off < 2 ^ 63 \<Longrightarrow> sint (of_nat off :: u64) = int off"
  by (simp add: sint_u64 unat_of_nat take_bit_nat_eq_self_iff)

section \<open>Reading the whole file\<close>

context xdr_library
begin

lemma read_rpc_served:
  assumes "wf_fh h" and "fits32 n" and "results_ok s" and "wf_env env"
    and "nfsproc3_read_3_svc env (read_args h off n) s = Inr t"
  shows "read_rpc X env h off n s = Some (merge_read (read3_result t) (read3_result initial_results), t)"
proof -
  have "wf_call (Read (read_args h off n))"
    using assms(1,2) by (simp add: wf_read_args_def read_args_def)
  from program_refines_service [OF this assms(3,4), of t \<infinity>] assms(5)
  obtain body out where "call_body X (Read (read_args h off n)) = Some body"
    "nfs_program_3 X env \<infinity> NFSPROC3_READ body s = Inr (Sendreply out, True, t)"
    "svc_getargs (xdr_READ3res X) out (read3_result initial_results) =
       Some (merge_read (read3_result t) (read3_result initial_results))"
    by (auto simp: answer_in_def)
  then show ?thesis by (simp add: read_rpc_def)
qed

lemma read_rpc_file:
  assumes "serves_file env path c" and "terminated_path h = Inr path" and "wf_fh h"
    and "wf_env env" and "results_ok s" and "fits32 n" and "0 < n" and "off < 2 ^ 63"
  obtains bs rest t r where "read_rpc X env h (of_nat off) n s = Some (r, t)" and "results_ok t"
    and "READ3res.status r = NFS3_OK" and "drop off c = bs @ rest" and "bs = [] \<longleftrightarrow> length c \<le> off"
    and "READ3res.resok r = \<lparr>READ3resok.file_attributes = zero_post_op, count = of_nat (length bs),
      eof = (if bs = [] then 1 else 0), data = bs\<rparr>"
proof -
  let ?a = "read_args h (of_nat off) n"
  have n: "0 < unat n" using assms(7) by (simp add: unat_gt_0)
  obtain bs rest where bs: "os_pread env (os_open env path) (unat n) (int off) = Some bs"
    "drop off c = bs @ rest" "bs = [] \<longleftrightarrow> length c \<le> off"
    using serves_fileE [OF assms(1) n] by metis
  define r where "r = fill_READ3res_stream env path (int off) (unat n) (read3_result s)"
  define t where "t = s\<lparr>read3_result := r\<rparr>"
  have svc: "nfsproc3_read_3_svc env ?a s = Inr t"
    using assms(2,8) by (simp add: nfsproc3_read_3_svc_def read_args_def sint_of_nat_small t_def r_def)
  have ok: "results_ok t" using results_ok_read [OF assms(5,4) svc] .
  have "read_ok (read3_result s)" using assms(5) by (simp add: results_ok_def)
  then have r: "r = \<lparr>READ3res.status = NFS3_OK, resok =
      \<lparr>READ3resok.file_attributes = zero_post_op, count = of_nat (length bs),
       eof = (if bs = [] then 1 else 0), data = bs\<rparr>\<rparr>"
    using stream_result [OF assms(1) n bs(1), of "read3_result s"] by (simp add: r_def read_ok_def)
  have "merge_read r (read3_result initial_results) = r"
    by (simp add: r merge_read_def merge_read_ok_def merge_post_op_def initial_results_def zero_post_op_def)
  then have "read_rpc X env h (of_nat off) n s = Some (r, t)"
    using read_rpc_served [OF assms(3,6,5,4) svc] by (simp add: t_def)
  then show thesis using that ok bs(2,3) r by simp
qed

lemma fetch_file_from:
  assumes "serves_file env path c" and "terminated_path h = Inr path" and "wf_fh h"
    and "wf_env env" and "fits32 n" and "0 < n" and "length c < 2 ^ 63"
  shows "results_ok s \<Longrightarrow> off \<le> length c \<Longrightarrow> length c - off < fuel \<Longrightarrow>
    fetch_file X env h n fuel (of_nat off) s = Some (drop off c)"
proof (induction fuel arbitrary: off s)
  case (Suc fuel)
  have "off < 2 ^ 63" using Suc.prems(2) assms(7) by simp
  from read_rpc_file [OF assms(1-4) Suc.prems(1) assms(5,6) this]
  obtain bs rest t r where rpc: "read_rpc X env h (of_nat off) n s = Some (r, t)" "results_ok t"
    "READ3res.status r = NFS3_OK" and bs: "drop off c = bs @ rest" "bs = [] \<longleftrightarrow> length c \<le> off"
    and r: "READ3res.resok r = \<lparr>READ3resok.file_attributes = zero_post_op,
      count = of_nat (length bs), eof = (if bs = [] then 1 else 0), data = bs\<rparr>" .
  show ?case
  proof (cases "bs = []")
    case True
    with rpc r bs show ?thesis by simp
  next
    case False
    have "length c - off = length bs + length rest"
      using arg_cong [OF bs(1), of length] by simp
    then have len: "off + length bs \<le> length c" "length c - (off + length bs) < fuel"
      using False bs(2) Suc.prems(2,3) by (auto simp: not_le) (cases bs; simp)
    have "drop (off + length bs) c = rest"
      using bs(1) by (metis add.commute append_eq_conv_conj drop_drop)
    with Suc.IH [OF rpc(2) len] False rpc r bs(1) show ?thesis by simp
  qed
qed simp

end

section \<open>Looking up a name\<close>

definition lookup_args :: "cstring \<Rightarrow> cstring \<Rightarrow> LOOKUP3args" where
  "lookup_args d n = \<lparr>what = \<lparr>diropargs3.dir = \<lparr>fh_data = d\<rparr>, name = n\<rparr>\<rparr>"

definition path_in :: "cstring \<Rightarrow> cstring \<Rightarrow> cstring" where
  "path_in d n = d @ (if last d = 47 then [] else [47]) @ n"

lemma lookup_served:
  assumes "d \<noteq> []" and "0 \<notin> set d" and "\<forall>k n. os_malloc env k n"
  shows "nfs_service env (Lookup (lookup_args d n)) s = Inr (s\<lparr>lookup_result :=
    case os_stat env (path_in d n) of
      Some st \<Rightarrow> lookup_found env d (path_in d n) st (lookup_result s)
    | None \<Rightarrow> lookup_missing env d (lookup_result s)\<rparr>)"
proof -
  have "takeWhile (\<lambda>b. b \<noteq> 0) d = d"
    using assms(2) by (auto simp: takeWhile_eq_all_conv)
  then show ?thesis
    using lookup_svc [of "lookup_args d n" d env "path_in d n" s] assms
    by (simp add: lookup_args_def terminated_path_def join_path_def path_in_def)
qed

lemma wf_lookup_call:
  "length d \<le> NFS3_FHSIZE \<Longrightarrow> wf_name XDR_NOBOUND n \<Longrightarrow> wf_call (Lookup (lookup_args d n))"
  by (simp add: wf_lookup_args_def lookup_args_def wf_fh_def)

context xdr_library
begin

lemma lookup_reply_missing:
  assumes "wf_env env" and "results_ok s" and "\<forall>k n. os_malloc env k n"
    and "d \<noteq> []" and "0 \<notin> set d" and "length d \<le> NFS3_FHSIZE" and "wf_name XDR_NOBOUND n"
    and "os_stat env (path_in d n) = None"
  shows "\<exists>body out t r. call_body X (Lookup (lookup_args d n)) = Some body \<and>
    nfs_program_3 X env \<infinity> NFSPROC3_LOOKUP body s = Inr (Sendreply out, True, t) \<and>
    read_reply X (Lookup (lookup_args d n)) out = Some (Lookup_reply r) \<and>
    LOOKUP3res.status r = NFS3ERR_NOENT \<and>
    attributes_follow (LOOKUP3resfail.dir_attributes (LOOKUP3res.resfail r)) = 0"
proof -
  let ?c = "Lookup (lookup_args d n)"
  define t where "t = s\<lparr>lookup_result := lookup_missing env d (lookup_result s)\<rparr>"
  have svc: "nfs_service env ?c s = Inr t"
    using lookup_served [OF assms(4,5,3), of n s] assms(8) by (simp add: t_def)
  have "sendable ?c t" by (simp add: t_def lookup_missing_def wf_fh_def)
  from program_refines_service [OF wf_lookup_call [OF assms(6,7)] assms(2,1) svc this, of \<infinity>]
  obtain body out where "call_body X ?c = Some body"
    "nfs_program_3 X env \<infinity> NFSPROC3_LOOKUP body s = Inr (Sendreply out, True, t)"
    "read_reply X ?c out = Some (call_result ?c t)"
    by (auto simp: answer_in_def)
  then show ?thesis
    by (intro exI [of _ body] exI [of _ out] exI [of _ t])
      (simp add: t_def merge_lookup_def lookup_missing_def merge_post_op_def enum_simps)
qed

lemma lookup_reply_found:
  assumes "wf_env env" and "results_ok s" and "\<forall>k n. os_malloc env k n"
    and "d \<noteq> []" and "0 \<notin> set d" and "length d \<le> NFS3_FHSIZE" and "wf_name XDR_NOBOUND n"
    and "os_stat env (path_in d n) = Some st" and "length (path_in d n) \<le> NFS3_FHSIZE"
  shows "\<exists>body out t r. call_body X (Lookup (lookup_args d n)) = Some body \<and>
    nfs_program_3 X env \<infinity> NFSPROC3_LOOKUP body s = Inr (Sendreply out, True, t) \<and>
    read_reply X (Lookup (lookup_args d n)) out = Some (Lookup_reply r) \<and>
    LOOKUP3res.status r = NFS3_OK \<and>
    fh_data (LOOKUP3resok.object (LOOKUP3res.resok r)) = path_in d n \<and>
    LOOKUP3resok.obj_attributes (LOOKUP3res.resok r) =
      \<lparr>attributes_follow = 1, attributes = attributes_of st\<rparr>"
proof -
  let ?c = "Lookup (lookup_args d n)"
  define t where "t = s\<lparr>lookup_result := lookup_found env d (path_in d n) st (lookup_result s)\<rparr>"
  have svc: "nfs_service env ?c s = Inr t"
    using lookup_served [OF assms(4,5,3), of n s] assms(8) by (simp add: t_def)
  have "sendable ?c t" using assms(9) by (simp add: t_def lookup_found_def wf_fh_def)
  from program_refines_service [OF wf_lookup_call [OF assms(6,7)] assms(2,1) svc this, of \<infinity>]
  obtain body out where "call_body X ?c = Some body"
    "nfs_program_3 X env \<infinity> NFSPROC3_LOOKUP body s = Inr (Sendreply out, True, t)"
    "read_reply X ?c out = Some (call_result ?c t)"
    by (auto simp: answer_in_def)
  then show ?thesis
    by (intro exI [of _ body] exI [of _ out] exI [of _ t])
      (simp add: t_def merge_lookup_def merge_lookup_ok_def lookup_found_def merge_post_op_def)
qed

lemma lookup_reply_long:
  assumes "wf_env env" and "results_ok s" and "\<forall>k n. os_malloc env k n"
    and "d \<noteq> []" and "0 \<notin> set d" and "length d \<le> NFS3_FHSIZE" and "wf_name XDR_NOBOUND n"
    and "os_stat env (path_in d n) = Some st" and "\<not> length (path_in d n) \<le> NFS3_FHSIZE"
  shows "\<exists>body t. call_body X (Lookup (lookup_args d n)) = Some body \<and>
    nfs_program_3 X env \<infinity> NFSPROC3_LOOKUP body s = Inr (Svcerr_systemerr, True, t)"
proof -
  define t where "t = s\<lparr>lookup_result := lookup_found env d (path_in d n) st (lookup_result s)\<rparr>"
  have svc: "nfsproc3_lookup_3_svc env (lookup_args d n) s = Inr t"
    using lookup_served [OF assms(4,5,3), of n s] assms(8) by (simp add: t_def)
  have "xdr_LOOKUP3res X (XDR_ENCODE [] room) (lookup_result t) = None" for room
    by (rule long_lookup_not_sent) (use assms(9) in \<open>simp_all add: t_def lookup_found_def wf_fh_def\<close>)
  with wf_lookup_call [OF assms(6,7)] svc obtain body where
    "svc_sendreply (xdr_LOOKUP3args X) \<infinity> (lookup_args d n) = Some body"
    "svc_call (xdr_LOOKUP3args X) \<lparr>what = \<lparr>diropargs3.dir = zero_fh, name = []\<rparr>\<rparr> (xdr_LOOKUP3res X)
      (nfsproc3_lookup_3_svc env) lookup_result \<infinity> body s = Inr (Svcerr_systemerr, True, t)"
    by (auto intro: svc_call_unsendable [where result = lookup_result and xr = "xdr_LOOKUP3res X",
          OF xdr_LOOKUP3args _ frees_messages(6)])
  then show ?thesis by (auto simp: nfs_program_3_def proc_numbers)
qed

end

end
