(* ===== verification/Nfs_Walk.thy ===== *)
theory Nfs_Walk
  imports Nfs_Client
begin

text \<open>
  A client from the mount to the contents of a file: it asks the MOUNT program for the handle of a
  directory, looks a name up in it, and reads the file. Every step is a request to the dispatch
  of \<open>src/NFS/nfs_svc.c\<close> and the reading of its reply.
\<close>

section \<open>The client\<close>

definition mnt_rpc :: "xdr_prims \<Rightarrow> cstring \<Rightarrow> nfs_state \<Rightarrow> (mountres3 \<times> nfs_state) option" where
  "mnt_rpc X path s =
     (case svc_sendreply (xdr_dirpath X) \<infinity> path of
        None \<Rightarrow> None
      | Some body \<Rightarrow>
          (case mount_3 X \<infinity> MOUNTPROC3_MNT body s of
             Inr (Sendreply out, go, t) \<Rightarrow>
               map_option (\<lambda>r. (r, t)) (svc_getargs (xdr_mountres3 X) out (mnt_result initial_results))
           | _ \<Rightarrow> None))"

definition lookup_rpc ::
    "xdr_prims \<Rightarrow> nfs_env \<Rightarrow> byte list \<Rightarrow> cstring \<Rightarrow> nfs_state \<Rightarrow> (LOOKUP3res \<times> nfs_state) option" where
  "lookup_rpc X env d n s =
     (case call_body X (Lookup (lookup_args d n)) of
        None \<Rightarrow> None
      | Some body \<Rightarrow>
          (case nfs_program_3 X env \<infinity> NFSPROC3_LOOKUP body s of
             Inr (Sendreply out, go, t) \<Rightarrow>
               map_option (\<lambda>r. (r, t)) (svc_getargs (xdr_LOOKUP3res X) out (lookup_result initial_results))
           | _ \<Rightarrow> None))"

definition client_fetch ::
    "xdr_prims \<Rightarrow> nfs_env \<Rightarrow> cstring \<Rightarrow> cstring \<Rightarrow> u64 \<Rightarrow> nat \<Rightarrow> nfs_state \<Rightarrow> byte list option" where
  "client_fetch X env d n k fuel s =
     Option.bind (mnt_rpc X d s) (\<lambda>(m, s).
     if fhs_status m \<noteq> MNT3_OK then None
     else Option.bind (lookup_rpc X env (fhandle (mountinfo m)) n s) (\<lambda>(r, s).
     if LOOKUP3res.status r \<noteq> NFS3_OK then None
     else fetch_file X env (LOOKUP3resok.object (LOOKUP3res.resok r)) k fuel 0 s))"

section \<open>Every step is answered\<close>

context xdr_library
begin

lemma mnt_rpc_served:
  assumes "wf_name MNTPATHLEN d" and "length d \<le> FHSIZE3"
  shows "mnt_rpc X d s = Some (mnt_result (mountproc3_mnt_3_svc d s), mountproc3_mnt_3_svc d s)"
proof -
  let ?t = "mountproc3_mnt_3_svc d s"
  have ok: "fhs_status (mnt_result ?t) = MNT3_OK" and wf: "wf_mountres (mnt_result ?t)"
    using assms(2) by (simp_all add: mountproc3_mnt_3_svc_def wf_mountres_def XDR_NOBOUND_def)
  have "frees (xdr_dirpath X)" by (rule frees_args)
  from svc_call_served [OF xdr_mountres3 xdr_dirpath this, where result = mnt_result
      and local = "\<lambda>path s. Inr (mountproc3_mnt_3_svc path s)", OF wf assms(1) refl, of "[]" \<infinity>]
  obtain body out where "svc_sendreply (xdr_dirpath X) \<infinity> d = Some body"
    "svc_call (xdr_dirpath X) [] (xdr_mountres3 X) (\<lambda>path s. Inr (mountproc3_mnt_3_svc path s))
       mnt_result \<infinity> body s = Inr (Sendreply out, True, ?t)"
    "svc_getargs (xdr_mountres3 X) out (mnt_result initial_results) =
       Some (merge_mountres (mnt_result ?t) (mnt_result initial_results))"
    by (auto simp: answer_in_def)
  then show ?thesis
    using ok by (simp add: mnt_rpc_def mount_3_def proc_numbers MOUNTPROC3_MNT_def NULLPROC_def merge_mountres_def)
qed

lemma lookup_rpc_served:
  assumes "wf_env env" and "results_ok s" and "\<forall>k n. os_malloc env k n"
    and "d \<noteq> []" and "0 \<notin> set d" and "length d \<le> NFS3_FHSIZE" and "wf_name XDR_NOBOUND n"
    and "os_stat env (path_in d n) = Some st" and "length (path_in d n) \<le> NFS3_FHSIZE"
  shows "\<exists>r t. lookup_rpc X env d n s = Some (r, t) \<and> results_ok t \<and> LOOKUP3res.status r = NFS3_OK \<and>
    LOOKUP3resok.object (LOOKUP3res.resok r) = \<lparr>fh_data = path_in d n\<rparr>"
proof -
  obtain body out t r where l: "call_body X (Lookup (lookup_args d n)) = Some body"
      "nfs_program_3 X env \<infinity> NFSPROC3_LOOKUP body s = Inr (Sendreply out, True, t)"
      "read_reply X (Lookup (lookup_args d n)) out = Some (Lookup_reply r)"
      "LOOKUP3res.status r = NFS3_OK" "fh_data (LOOKUP3resok.object (LOOKUP3res.resok r)) = path_in d n"
    using lookup_reply_found [OF assms] by blast
  let ?rq = "\<lparr>rq_prog = NFS_PROGRAM, rq_proc = NFSPROC3_LOOKUP, rq_body = body, rq_env = env, rq_room = \<infinity>\<rparr>"
  have "svc_dispatch X ?rq s = Inr (Sendreply out, True, t)" using l(2) by (simp add: svc_dispatch_def)
  from results_ok_dispatch [OF this assms(2)] assms(1) have "results_ok t" by simp
  moreover have "LOOKUP3resok.object (LOOKUP3res.resok r) = \<lparr>fh_data = path_in d n\<rparr>" using l(5) by (cases "LOOKUP3resok.object (LOOKUP3res.resok r)") simp
  moreover have "lookup_rpc X env d n s = Some (r, t)" using l(1-3) by (auto simp: lookup_rpc_def)
  ultimately show ?thesis using l(4) by blast
qed

lemma client_fetch_file:
  assumes "wf_env env" and "results_ok s" and "serves_file env (path_in d n) c"
    and "d \<noteq> []" and "0 \<notin> set d" and "length d \<le> NFS3_FHSIZE" and "wf_name XDR_NOBOUND n"
    and "os_stat env (path_in d n) = Some st" and "length (path_in d n) \<le> NFS3_FHSIZE"
    and "fits32 k" and "0 < k" and "length c < 2 ^ 63"
  shows "client_fetch X env d n k (Suc (length c)) s = Some c"
proof -
  let ?s = "mountproc3_mnt_3_svc d s"
  have d: "wf_name MNTPATHLEN d" "length d \<le> FHSIZE3"
    using assms(5,6) by (simp_all add: wf_name_def MNTPATHLEN_def FHSIZE3_def NFS3_FHSIZE_def)
  have malloc: "\<forall>k n. os_malloc env k n" using assms(3) by (simp add: serves_file_def)
  obtain r t where r: "lookup_rpc X env d n ?s = Some (r, t)" "results_ok t" "LOOKUP3res.status r = NFS3_OK"
      "LOOKUP3resok.object (LOOKUP3res.resok r) = \<lparr>fh_data = path_in d n\<rparr>"
    using lookup_rpc_served [OF assms(1) results_ok_mnt [OF assms(2)] malloc assms(4-9)] by blast
  have "0 \<notin> set (path_in d n)" "path_in d n \<noteq> []"
    using assms(4,5,7) by (auto simp: path_in_def wf_name_def)
  then have h: "terminated_path \<lparr>fh_data = path_in d n\<rparr> = Inr (path_in d n)" "wf_fh \<lparr>fh_data = path_in d n\<rparr>"
    using assms(9) by (auto simp: terminated_path_def wf_fh_def takeWhile_eq_all_conv)
  have "fetch_file X env \<lparr>fh_data = path_in d n\<rparr> k (Suc (length c)) 0 t = Some c"
    using fetch_file_from [OF assms(3) h assms(1) assms(10-12) r(2), of 0 "Suc (length c)"]
    by (simp del: fetch_file.simps)
  then show ?thesis
    using mnt_rpc_served [OF d] r(1,3,4)
    by (simp add: client_fetch_def mountproc3_mnt_3_svc_def del: fetch_file.simps)
qed

end

end
