(* ===== verification/Xdr_Rfc4506.thy ===== *)
theory Xdr_Rfc4506
  imports Nfs_Xdr_Correct
begin

text \<open>
  A library that satisfies what \<open>xdr_library\<close> asks for: the external data representation of
  RFC 4506, with numbers in big-endian order and every item padded to a multiple of four
  bytes. It is the instance at which the properties of the routines are evaluated.
\<close>

section \<open>Primitive routines\<close>

definition be_bytes :: "nat \<Rightarrow> nat \<Rightarrow> byte list" where
  "be_bytes n v = rev (le_bytes n v)"

definition be_nat :: "byte list \<Rightarrow> nat" where
  "be_nat bs = le_nat (rev bs)"

definition xdr_put :: "byte list \<Rightarrow> XDR \<Rightarrow> XDR option" where
  "xdr_put w xdrs = (case xdrs of
     XDR_ENCODE out room \<Rightarrow>
       if enat (length w) \<le> room then Some (XDR_ENCODE (out @ w) (room - enat (length w))) else None
   | _ \<Rightarrow> None)"

definition xdr_get :: "nat \<Rightarrow> XDR \<Rightarrow> (byte list \<times> XDR) option" where
  "xdr_get n xdrs = (case xdrs of
     XDR_DECODE bs \<Rightarrow> if n \<le> length bs then Some (take n bs, XDR_DECODE (drop n bs)) else None
   | _ \<Rightarrow> None)"

text \<open>A number of \<open>n\<close> bytes.\<close>

definition rfc_num :: "nat \<Rightarrow> ('a \<Rightarrow> nat option) \<Rightarrow> (nat \<Rightarrow> 'a) \<Rightarrow> 'a xdrproc" where
  "rfc_num n f g xdrs v = (case xdrs of
     XDR_ENCODE _ _ \<Rightarrow> (case f v of
         None \<Rightarrow> None
       | Some k \<Rightarrow> map_option (\<lambda>xdrs. (xdrs, v)) (xdr_put (be_bytes n k) xdrs))
   | XDR_DECODE _ \<Rightarrow> map_option (\<lambda>(bs, xdrs). (xdrs, g (be_nat bs))) (xdr_get n xdrs)
   | XDR_FREE \<Rightarrow> Some (xdrs, v))"

definition rfc_pad :: "nat \<Rightarrow> nat" where
  "rfc_pad n = (4 - n mod 4) mod 4"

text \<open>An array of bytes of known length.\<close>

definition rfc_opaque :: "nat \<Rightarrow> byte list xdrproc" where
  "rfc_opaque n xdrs v = (case xdrs of
     XDR_ENCODE _ _ \<Rightarrow> if length v = n
       then map_option (\<lambda>xdrs. (xdrs, v)) (xdr_put (v @ replicate (rfc_pad n) 0) xdrs) else None
   | XDR_DECODE _ \<Rightarrow> map_option (\<lambda>(bs, xdrs). (xdrs, take n bs)) (xdr_get (n + rfc_pad n) xdrs)
   | XDR_FREE \<Rightarrow> Some (xdrs, v))"

text \<open>An array of bytes that carries its length, which is at most \<open>m\<close>.\<close>

definition rfc_bytes :: "nat \<Rightarrow> byte list xdrproc" where
  "rfc_bytes m xdrs v = (case xdrs of
     XDR_ENCODE _ _ \<Rightarrow> if length v \<le> m
       then map_option (\<lambda>xdrs. (xdrs, v))
         (xdr_put (be_bytes 4 (length v) @ v @ replicate (rfc_pad (length v)) 0) xdrs)
       else None
   | XDR_DECODE _ \<Rightarrow> (case xdr_get 4 xdrs of
         None \<Rightarrow> None
       | Some (bs, xdrs) \<Rightarrow> if be_nat bs \<le> m then rfc_opaque (be_nat bs) xdrs v else None)
   | XDR_FREE \<Rightarrow> Some (xdrs, []))"

definition rfc_string :: "nat \<Rightarrow> cstring xdrproc" where
  "rfc_string m xdrs v = map_option (\<lambda>(xdrs, s). (xdrs, takeWhile (\<lambda>b. b \<noteq> 0) s)) (rfc_bytes m xdrs v)"

fun rfc_elems :: "u32 xdrproc \<Rightarrow> XDR \<Rightarrow> u32 list \<Rightarrow> (XDR \<times> u32 list) option" where
  "rfc_elems p xdrs [] = Some (xdrs, [])"
| "rfc_elems p xdrs (v # vs) = (case p xdrs v of None \<Rightarrow> None
     | Some (xdrs, v) \<Rightarrow> map_option (\<lambda>(xdrs, vs). (xdrs, v # vs)) (rfc_elems p xdrs vs))"

definition rfc_array :: "nat \<Rightarrow> u32 xdrproc \<Rightarrow> u32 list xdrproc" where
  "rfc_array m p xdrs v = (case xdrs of
     XDR_ENCODE _ _ \<Rightarrow> if length v \<le> m
       then (case xdr_put (be_bytes 4 (length v)) xdrs of
           None \<Rightarrow> None | Some xdrs \<Rightarrow> rfc_elems p xdrs v)
       else None
   | XDR_DECODE _ \<Rightarrow> (case xdr_get 4 xdrs of
         None \<Rightarrow> None
       | Some (bs, xdrs) \<Rightarrow> if be_nat bs \<le> m then rfc_elems p xdrs (replicate (be_nat bs) 0) else None)
   | XDR_FREE \<Rightarrow> Some (xdrs, []))"

definition rfc_bool :: "bool_t xdrproc" where
  "rfc_bool = rfc_num 4 (\<lambda>b. Some (if b = 0 then 0 else 1)) (\<lambda>k. if k = 0 then 0 else 1)"

definition zero_entry3 :: entry3 where
  "zero_entry3 = Entry3 0 [] 0 None"

definition rfc_pointer :: "entry3 xdrproc \<Rightarrow> entry3 option xdrproc" where
  "rfc_pointer p xdrs v =
     (case rfc_bool xdrs (if v = None then 0 else 1) of
        None \<Rightarrow> None
      | Some (xdrs, more_data) \<Rightarrow>
          if more_data = 0 then Some (xdrs, None)
          else map_option (\<lambda>(xdrs, e). (xdrs, Some e))
            (p xdrs (case v of None \<Rightarrow> zero_entry3 | Some e \<Rightarrow> e)))"

definition rfc_put_bools :: "XDR \<Rightarrow> bool_t list \<Rightarrow> XDR option" where
  "rfc_put_bools xdrs bs = xdr_put (concat (map (\<lambda>b. be_bytes 4 (unat b)) bs)) xdrs"

fun rfc_get_bools :: "XDR \<Rightarrow> nat \<Rightarrow> (XDR \<times> bool_t list) option" where
  "rfc_get_bools xdrs 0 = Some (xdrs, [])"
| "rfc_get_bools xdrs (Suc n) = (case xdr_get 4 xdrs of
     None \<Rightarrow> None
   | Some (bs, xdrs) \<Rightarrow>
       map_option (\<lambda>(xdrs, vs). (xdrs, of_nat (be_nat bs) # vs)) (rfc_get_bools xdrs n))"

definition rfc4506 :: xdr_prims where
  "rfc4506 = \<lparr>
     xp_u_quad_t = rfc_num 8 (\<lambda>v. Some (unat v)) of_nat,
     xp_quad_t = rfc_num 8 (\<lambda>v. Some (unat v)) of_nat,
     xp_u_long = rfc_num 4 (\<lambda>v. if fits32 v then Some (unat v) else None) of_nat,
     xp_long = rfc_num 4 (\<lambda>v. if - (2 ^ 31) \<le> sint v \<and> sint v < 2 ^ 31
       then Some (unat (ucast v :: u32)) else None) (\<lambda>k. scast (of_nat k :: u32)),
     xp_int = rfc_num 4 (\<lambda>v. Some (unat v)) of_nat,
     xp_enum = rfc_num 4 (\<lambda>v. Some (unat v)) of_nat,
     xp_bool = rfc_bool,
     xp_string = rfc_string,
     xp_opaque = rfc_opaque,
     xp_bytes = rfc_bytes,
     xp_array = rfc_array,
     xp_pointer = rfc_pointer,
     xp_put_bools = rfc_put_bools,
     xp_get_bools = rfc_get_bools\<rparr>"

lemma rfc4506_simps [simp]:
  "xp_u_quad_t rfc4506 = rfc_num 8 (\<lambda>v. Some (unat v)) of_nat"
  "xp_quad_t rfc4506 = rfc_num 8 (\<lambda>v. Some (unat v)) of_nat"
  "xp_u_long rfc4506 = rfc_num 4 (\<lambda>v. if fits32 v then Some (unat v) else None) of_nat"
  "xp_int rfc4506 = rfc_num 4 (\<lambda>v. Some (unat v)) of_nat"
  "xp_enum rfc4506 = rfc_num 4 (\<lambda>v. Some (unat v)) of_nat"
  "xp_bool rfc4506 = rfc_bool" "xp_string rfc4506 = rfc_string" "xp_opaque rfc4506 = rfc_opaque"
  "xp_bytes rfc4506 = rfc_bytes" "xp_array rfc4506 = rfc_array" "xp_pointer rfc4506 = rfc_pointer"
  "xp_put_bools rfc4506 = rfc_put_bools" "xp_get_bools rfc4506 = rfc_get_bools"
  by (simp_all add: rfc4506_def)

section \<open>The library's laws\<close>

lemma length_be_bytes [simp]: "length (be_bytes n v) = n"
  by (simp add: be_bytes_def)

lemma be_nat_be_bytes [simp]: "be_nat (be_bytes n v) = v mod 256 ^ n"
  by (simp add: be_nat_def be_bytes_def le_nat_le_bytes)

lemma xdr_get_append [simp]:
  "n = length w \<Longrightarrow> xdr_get n (XDR_DECODE (w @ rest)) = Some (w, XDR_DECODE rest)"
  by (simp add: xdr_get_def)

lemma carries_num:
  "f v = Some k \<Longrightarrow> k < 256 ^ n \<Longrightarrow> g k = v \<Longrightarrow> carries (rfc_num n f g) v (be_bytes n k) (\<lambda>_. v)"
  by (simp add: carries_def rfc_num_def xdr_put_def)

lemma carries_opaque:
  "length v = n \<Longrightarrow> carries (rfc_opaque n) v (v @ replicate (rfc_pad n) 0) (\<lambda>_. v)"
  by (simp add: carries_def rfc_opaque_def xdr_put_def
      xdr_get_append [of _ "v @ replicate (rfc_pad n) 0", simplified])

definition rfc_bytes_wire :: "byte list \<Rightarrow> byte list" where
  "rfc_bytes_wire v = be_bytes 4 (length v) @ v @ replicate (rfc_pad (length v)) 0"

lemma rfc_bytes_decode:
  assumes "length v \<le> XDR_NOBOUND"
  shows "rfc_bytes m (XDR_DECODE (rfc_bytes_wire v @ rest)) obj =
    (if length v \<le> m then Some (XDR_DECODE rest, v) else None)"
proof -
  have "length v mod 4294967296 = length v"
    using assms by (simp add: XDR_NOBOUND_def)
  then show ?thesis
    using carries_decode [OF carries_opaque [of v "length v"]]
    by (simp add: rfc_bytes_def rfc_bytes_wire_def)
qed

lemma carries_bytes:
  "length v \<le> m \<Longrightarrow> m \<le> XDR_NOBOUND \<Longrightarrow> carries (rfc_bytes m) v (rfc_bytes_wire v) (\<lambda>_. v)"
  unfolding carries_def
  by (simp add: rfc_bytes_decode) (simp add: rfc_bytes_def rfc_bytes_wire_def xdr_put_def)

lemma carries_string:
  "wf_name m v \<Longrightarrow> m \<le> XDR_NOBOUND \<Longrightarrow> carries (rfc_string m) v (rfc_bytes_wire v) (\<lambda>_. v)"
  using carries_bytes [of v m] by (auto simp: carries_def rfc_string_def wf_name_def takeWhile_eq_all_conv)

lemma bytes_wire_unique:
  assumes "carries (rfc_bytes n) v w m"
  shows "length v \<le> n \<and> w = rfc_bytes_wire v"
proof -
  have "rfc_bytes n (XDR_ENCODE [] \<infinity>) v = Some (XDR_ENCODE w (\<infinity> - enat (length w)), v)"
    using carries_encode [OF assms, of \<infinity> "[]"] by simp
  then show ?thesis
    by (simp add: rfc_bytes_def rfc_bytes_wire_def xdr_put_def split: if_splits)
qed

lemma carries_elems:
  assumes "transmits p (\<lambda>_. True) whole"
  shows "\<exists>w. (\<forall>out room. rfc_elems p (XDR_ENCODE out room) vs =
      (if enat (length w) \<le> room
       then Some (XDR_ENCODE (out @ w) (room - enat (length w)), vs) else None)) \<and>
    (\<forall>rest. rfc_elems p (XDR_DECODE (w @ rest)) (replicate (length vs) 0) = Some (XDR_DECODE rest, vs))"
proof (induction vs)
  case Nil
  show ?case by (rule exI [of _ "[]"]) (simp add: zero_enat_def [symmetric])
next
  case (Cons v vs)
  obtain wv where wv: "carries p v wv (\<lambda>_. v)"
    using assms by (auto simp: transmits_def)
  obtain w where w: "\<And>out room. rfc_elems p (XDR_ENCODE out room) vs =
      (if enat (length w) \<le> room
       then Some (XDR_ENCODE (out @ w) (room - enat (length w)), vs) else None)"
    "\<And>rest. rfc_elems p (XDR_DECODE (w @ rest)) (replicate (length vs) 0) = Some (XDR_DECODE rest, vs)"
    using Cons by blast
  show ?case
  proof (intro exI [of _ "wv @ w"] conjI allI)
    fix out room
    show "rfc_elems p (XDR_ENCODE out room) (v # vs) = (if enat (length (wv @ w)) \<le> room
        then Some (XDR_ENCODE (out @ wv @ w) (room - enat (length (wv @ w))), v # vs) else None)"
      by (cases "enat (length wv) \<le> room")
        (simp_all add: carries_encode [OF wv] carries_no_room [OF wv] w(1) enat_room enat_room_diff)
  qed (simp add: carries_decode [OF wv] w(2))
qed

lemma carries_array:
  assumes "transmits p (\<lambda>_. True) whole" and "m \<le> XDR_NOBOUND" and "length vs \<le> m"
  shows "\<exists>w. carries (rfc_array m p) vs w (\<lambda>_. vs)"
proof -
  obtain w where w: "\<And>out room. rfc_elems p (XDR_ENCODE out room) vs =
      (if enat (length w) \<le> room
       then Some (XDR_ENCODE (out @ w) (room - enat (length w)), vs) else None)"
    "\<And>rest. rfc_elems p (XDR_DECODE (w @ rest)) (replicate (length vs) 0) = Some (XDR_DECODE rest, vs)"
    using carries_elems [OF assms(1), of vs] by blast
  have len: "length vs mod 4294967296 = length vs"
    using assms(2,3) by (simp add: XDR_NOBOUND_def)
  have "enat (4 + n) \<le> room \<longleftrightarrow> enat 4 \<le> room \<and> enat n \<le> room - enat 4" for n room
    by (rule enat_room)
  then have "carries (rfc_array m p) vs (be_bytes 4 (length vs) @ w) (\<lambda>_. vs)"
    using assms(3) w len by (simp add: carries_def rfc_array_def xdr_put_def enat_room_diff)
  then show ?thesis by blast
qed

lemma carries_rfc_bool: "is_bool b \<Longrightarrow> carries rfc_bool b (be_bytes 4 (unat b)) (\<lambda>_. b)"
  unfolding rfc_bool_def by (rule carries_num) (auto simp: is_bool_def)

lemma carries_null: "carries (rfc_pointer p) None (be_bytes 4 0) (\<lambda>_. None)"
  using carries_rfc_bool [of 0] by (simp add: carries_def rfc_pointer_def is_bool_def)

lemma carries_pointer:
  assumes "carries p e w (\<lambda>_. e)"
  shows "carries (rfc_pointer p) (Some e) (be_bytes 4 1 @ w) (\<lambda>_. Some e)"
proof -
  have b: "carries rfc_bool 1 (be_bytes 4 1) (\<lambda>_. 1)"
    using carries_rfc_bool [of 1] by (simp add: is_bool_def)
  have dec: "rfc_bool (XDR_DECODE (be_bytes 4 1 @ rest)) v = Some (XDR_DECODE rest, 1)" for rest v
    using carries_decode [OF b] by simp
  have "rfc_pointer p (XDR_ENCODE out room) (Some e) =
      (if enat (length (be_bytes 4 1 @ w)) \<le> room
       then Some (XDR_ENCODE (out @ be_bytes 4 1 @ w)
         (room - enat (length (be_bytes 4 1 @ w))), Some e) else None)" for out room
    using carries_encode [OF b, of room out] carries_no_room [OF b, of room out]
      carries_encode [OF assms] carries_no_room [OF assms]
    by (cases "enat 4 \<le> room")
      (auto simp: rfc_pointer_def enat_room [of 4] enat_room_diff)
  then show ?thesis
    using carries_decode [OF assms] by (simp add: carries_def rfc_pointer_def dec [simplified])
qed

lemma rfc_put_each:
  "list_all is_bool bs \<Longrightarrow> put_each rfc4506 (XDR_ENCODE out room) bs =
     rfc_put_bools (XDR_ENCODE out room) bs"
proof (induction bs arbitrary: out room)
  case Nil
  then show ?case by (simp add: rfc_put_bools_def xdr_put_def zero_enat_def [symmetric])
next
  case (Cons b bs)
  then have b: "carries rfc_bool b (be_bytes 4 (unat b)) (\<lambda>_. b)" by (simp add: carries_rfc_bool)
  show ?case
    using Cons carries_encode [OF b, of room out] carries_no_room [OF b, of room out]
    by (cases "enat 4 \<le> room")
      (auto simp: rfc_put_bools_def xdr_put_def enat_room [of 4] enat_room_diff)
qed

lemma rfc_get_bools_wire:
  "rfc_get_bools (XDR_DECODE (concat (map (\<lambda>b. be_bytes 4 (unat b)) bs) @ rest)) (length bs) =
     Some (XDR_DECODE rest, bs)"
  using unat_u32_bound by (induction bs) simp_all

lemma frees_rfc [simp]:
  "frees (rfc_num n f g)" "frees (rfc_opaque n)" "frees (rfc_bytes n)" "frees (rfc_string n)"
  by (simp_all add: frees_def rfc_num_def rfc_opaque_def rfc_bytes_def rfc_string_def)

interpretation rfc: xdr_library rfc4506
proof
  show "transmits (xp_u_quad_t rfc4506) (\<lambda>_. True) whole"
    "transmits (xp_quad_t rfc4506) (\<lambda>_. True) whole"
    using unat_u64_bound by (auto simp: transmits_def intro!: exI carries_num)
  show "transmits (xp_u_long rfc4506) fits32 whole"
    by (auto simp: transmits_def fits32_def intro!: exI carries_num)
  show "transmits (xp_int rfc4506) (\<lambda>_. True) whole" "transmits (xp_enum rfc4506) (\<lambda>_. True) whole"
    using unat_u32_bound by (auto simp: transmits_def intro!: exI carries_num)
  show "transmits (xp_bool rfc4506) is_bool whole"
    using carries_rfc_bool by (auto simp: transmits_def)
  show "transmits (xp_string rfc4506 m) (wf_name m) whole" if "m \<le> XDR_NOBOUND" for m
    using carries_string that by (auto simp: transmits_def)
  show "transmits (xp_opaque rfc4506 n) (\<lambda>bs. length bs = n) whole" for n
    using carries_opaque by (auto simp: transmits_def)
  show "transmits (xp_bytes rfc4506 m) (\<lambda>bs. length bs \<le> m) whole" if "m \<le> XDR_NOBOUND" for m
    using carries_bytes that by (auto simp: transmits_def)
  show "xp_bytes rfc4506 m (XDR_ENCODE out room) bs = None" if "m < length bs" for m out room bs
    using that by (simp add: rfc_bytes_def)
  show "xp_bytes rfc4506 m (XDR_DECODE (w @ rest)) obj = None"
    if "n \<le> XDR_NOBOUND" "carries (xp_bytes rfc4506 n) bs w (\<lambda>_. bs)" "m < length bs"
    for n bs w m rest obj
  proof -
    have "length bs \<le> n \<and> w = rfc_bytes_wire bs"
      using that(2) by (intro bytes_wire_unique) simp
    then show ?thesis using that(1,3) by (simp add: rfc_bytes_decode)
  qed
  show "transmits (xp_array rfc4506 m q) (\<lambda>vs. length vs \<le> m) whole"
    if "m \<le> XDR_NOBOUND" "transmits q (\<lambda>_. True) whole" for m q
    using carries_array that by (auto simp: transmits_def)
  show "\<exists>w. \<forall>p. carries (xp_pointer rfc4506 p) None w (\<lambda>_. None)"
    using carries_null by auto
  show "\<exists>t. t \<noteq> [] \<and> (\<forall>p e w. carries p e w (\<lambda>_. e) \<longrightarrow>
      carries (xp_pointer rfc4506 p) (Some e) (t @ w) (\<lambda>_. Some e))"
    using carries_pointer length_be_bytes [of 4 1]
    by (intro exI [of _ "be_bytes 4 1"]) (auto simp del: length_be_bytes)
  show "put_each rfc4506 (XDR_ENCODE out room) fs = Some xdrs"
    if "xp_put_bools rfc4506 (XDR_ENCODE out room) fs = Some xdrs" "list_all is_bool fs"
    for out room fs xdrs
    using that by (simp add: rfc_put_each)
  show "xp_get_bools rfc4506 (XDR_DECODE (w @ rest)) (length fs) \<in> {None, Some (XDR_DECODE rest, fs)}"
    if "put_each rfc4506 (XDR_ENCODE [] \<infinity>) fs = Some (XDR_ENCODE w r)" "list_all is_bool fs"
    for fs w r rest
    using that rfc_get_bools_wire [of fs rest] by (simp add: rfc_put_each rfc_put_bools_def xdr_put_def)
qed simp_all

end
