(* ===== verification/Nfs_Example.thy ===== *)
theory Nfs_Example
  imports Nfs_Client Xdr_Rfc4506
begin

text \<open>
  A small file tree on which the properties of the NFS server are evaluated: the directory
  \<open>/\<close> with the file \<open>/f\<close> that holds two bytes.
\<close>

definition demo_time :: timespec where "demo_time = \<lparr>tv_sec = 7, tv_nsec = 0\<rparr>"

definition demo_stat :: "u32 \<Rightarrow> u64 \<Rightarrow> posix_stat" where
  "demo_stat m n = \<lparr>s_dev = 1, s_ino = 2, s_mode = m, s_nlink = 1, s_uid = 0, s_gid = 0,
     s_rdev = 0, s_size = n, s_atim = demo_time, s_mtim = demo_time, s_ctim = demo_time\<rparr>"

definition demo_data :: "byte list" where "demo_data = [104, 105]"

definition demo_env :: nfs_env where
  "demo_env = \<lparr>
     os_stat = (\<lambda>p. if p = [47, 102] then Some (demo_stat 0x81A4 2)
       else if p = [47] then Some (demo_stat 0x41ED 4096) else None),
     os_dir = (\<lambda>p. if p = [47] then Some [\<lparr>d_ino = 2, d_off = 1, d_name = [102]\<rparr>] else None),
     os_open = (\<lambda>p. if p = [47, 102] then 3 else -1),
     os_lseek = (\<lambda>fd off. off),
     os_pread = (\<lambda>fd n off. Some (take n (drop (nat off) demo_data))),
     os_malloc = (\<lambda>_ _. True),
     os_sockopt = Some 1,
     os_tail = [0],
     os_stale = (\<lambda>n. n)\<rparr>"

lemma wf_demo_stat: "wf_stat (demo_stat m n)"
  by (simp add: wf_stat_def demo_stat_def demo_time_def wf_timespec_def fits32_def)

lemma wf_demo_env: "wf_env demo_env"
  by (auto simp: wf_env_def demo_env_def wf_demo_stat wf_name_def XDR_NOBOUND_def demo_data_def
      split: if_splits)

lemma demo_serves: "serves_file demo_env [47, 102] demo_data"
  unfolding serves_file_def
proof (intro conjI allI impI)
  fix n off :: nat
  show "\<exists>bs rest. os_pread demo_env (os_open demo_env [47, 102]) n (int off) = Some bs \<and>
      length bs \<le> n \<and> drop off demo_data = bs @ rest \<and> (bs = [] \<longleftrightarrow> n = 0 \<or> length demo_data \<le> off)"
    by (intro exI [of _ "take n (drop off demo_data)"] exI [of _ "drop n (drop off demo_data)"])
      (simp add: demo_env_def del: drop_drop)
qed (auto simp: demo_env_def)

end
