(* ===== verification/Nfs_Properties.thy ===== *)
theory Nfs_Properties
  imports Nfs_Walk Nfs_Example
begin

text \<open>
  Properties of the NFS server, each with its evaluation on the tree of \<open>Nfs_Example\<close> with the
  encoding of RFC 4506.
\<close>

text \<open>
  C25. The dispatch of requests on the wire implements the service of the procedures: a
  well-formed call that a client encodes is answered, if there is room for it, by bytes that
  decode to the result of the procedure, and the static results afterwards are those of the
  procedure. The library that encodes the primitive types is assumed to behave as documented.
\<close>

theorem nfs_program_refines:
  assumes "xdr_library X" and "wf_call c" and "results_ok s" and "wf_env env"
    and "nfs_service env c s = Inr t" and "sendable c t"
  shows "\<exists>body out. call_body X c = Some body \<and>
    nfs_program_3 X env room (call_proc c) body s = Inr (answer_in room out, True, t) \<and>
    read_reply X c out = Some (call_result c t)"
  by (rule xdr_library.program_refines_service [OF assms])

definition demo_fh :: nfs_fh3 where "demo_fh = \<lparr>fh_data = [47, 102]\<rparr>"

definition demo_getattr :: nfs_call where
  "demo_getattr = Getattr \<lparr>GETATTR3args.object = demo_fh\<rparr>"

lemma demo_path [simp]: "terminated_path demo_fh = Inr [47, 102]"
  by (simp add: terminated_path_def demo_fh_def)

lemma wf_demo_fh [simp]: "wf_fh demo_fh"
  by (simp add: wf_fh_def demo_fh_def NFS3_FHSIZE_def)

lemma demo_getattr_served:
  "nfs_service demo_env demo_getattr initial_results = Inr (initial_results\<lparr>getattr_result :=
     \<lparr>GETATTR3res.status = NFS3_OK,
      resok = \<lparr>GETATTR3resok.obj_attributes = attributes_of (demo_stat 0x81A4 2)\<rparr>\<rparr>\<rparr>)"
  by (simp add: demo_getattr_def nfsproc3_getattr_3_svc_def fill_attributes_def demo_env_def)

theorem nfs_program_refines_witness:
  "\<exists>body out t. call_body rfc4506 demo_getattr = Some body \<and>
    nfs_program_3 rfc4506 demo_env \<infinity> (call_proc demo_getattr) body initial_results =
      Inr (answer_in \<infinity> out, True, t) \<and>
    read_reply rfc4506 demo_getattr out = Some (call_result demo_getattr t)"
  using nfs_program_refines [OF rfc.xdr_library_axioms _ results_ok_initial wf_demo_env
      demo_getattr_served, of \<infinity>]
  by (auto simp: demo_getattr_def)





text \<open>
  A client that issues READ requests from offset 0 on, of any positive size, until the
  reply reports the end of the file, receives exactly the contents of the file, also when the
  server returns less than was asked for. One request more than the file has bytes is enough.
\<close>

theorem nfs_read_whole_file:
  assumes "xdr_library X" and "serves_file env path c" and "terminated_path h = Inr path"
    and "wf_fh h" and "wf_env env" and "results_ok s" and "fits32 n" and "0 < n"
    and "length c < 2 ^ 63"
  shows "fetch_file X env h n (Suc (length c)) 0 s = Some c"
  using xdr_library.fetch_file_from [OF assms(1-5) assms(7-9) assms(6), of 0 "Suc (length c)"]
  by (simp del: fetch_file.simps)

theorem nfs_read_whole_file_witness:
  "fetch_file rfc4506 demo_env demo_fh 1 (Suc (length demo_data)) 0 initial_results = Some demo_data"
  using nfs_read_whole_file [OF rfc.xdr_library_axioms demo_serves demo_path wf_demo_fh wf_demo_env
      results_ok_initial, of 1]
  by (simp add: demo_data_def del: fetch_file.simps)

text \<open>
  C27. From the mount to the contents of a file, over the wire: a client that mounts a directory,
  looks a name up in it and reads the file at the handle it was given, receives exactly the
  contents, for every size of its READ requests.
\<close>

theorem nfs_mount_and_read:
  assumes "xdr_library X" and "wf_env env" and "results_ok s" and "serves_file env (path_in d n) c"
    and "d \<noteq> []" and "0 \<notin> set d" and "length d \<le> NFS3_FHSIZE" and "wf_name XDR_NOBOUND n"
    and "os_stat env (path_in d n) = Some st" and "length (path_in d n) \<le> NFS3_FHSIZE"
    and "fits32 k" and "0 < k" and "length c < 2 ^ 63"
  shows "client_fetch X env d n k (Suc (length c)) s = Some c"
  using xdr_library.client_fetch_file [OF assms] .

theorem nfs_mount_and_read_witness:
  "client_fetch rfc4506 demo_env [47] [102] 1 3 initial_results = Some demo_data"
proof -
  have p: "path_in [47] [102] = [47, 102]" by (simp add: path_in_def)
  have st: "os_stat demo_env (path_in [47] [102]) = Some (demo_stat 0x81A4 2)"
    by (simp add: demo_env_def path_in_def)
  have len: "length [47 :: byte] \<le> NFS3_FHSIZE" "length (path_in [47] [102]) \<le> NFS3_FHSIZE"
    "wf_name XDR_NOBOUND [102]" "length demo_data < 2 ^ 63" "Suc (length demo_data) = 3"
    by (simp_all add: p NFS3_FHSIZE_def wf_name_def XDR_NOBOUND_def demo_data_def)
  from nfs_mount_and_read [OF rfc.xdr_library_axioms wf_demo_env results_ok_initial
      demo_serves [folded p] _ _ len(1,3) st len(2) _ _ len(4), of 1, unfolded len(5)]
  show ?thesis by simp
qed

text \<open>
  C28. LOOKUP, request to reply: the path is the one of the directory, a slash unless it ends
  with one, and the name. If there is such a file the reply carries the path as its handle and the
  attributes of the file, if there is none it is NFS3ERR_NOENT without attributes, and if the
  path is longer than a handle can be the client receives a system error.
\<close>

theorem nfs_lookup_reply:
  assumes "xdr_library X" and "wf_env env" and "results_ok s" and "\<forall>k n. os_malloc env k n"
    and "d \<noteq> []" and "0 \<notin> set d" and "length d \<le> NFS3_FHSIZE" and "wf_name XDR_NOBOUND n"
  shows "\<exists>body out t. call_body X (Lookup (lookup_args d n)) = Some body \<and>
    (case os_stat env (path_in d n) of
       Some st \<Rightarrow>
         if length (path_in d n) \<le> NFS3_FHSIZE
         then nfs_program_3 X env \<infinity> NFSPROC3_LOOKUP body s = Inr (Sendreply out, True, t) \<and>
           (\<exists>r. read_reply X (Lookup (lookup_args d n)) out = Some (Lookup_reply r) \<and>
             LOOKUP3res.status r = NFS3_OK \<and>
             fh_data (LOOKUP3resok.object (LOOKUP3res.resok r)) = path_in d n \<and>
             LOOKUP3resok.obj_attributes (LOOKUP3res.resok r) =
               \<lparr>attributes_follow = 1, attributes = attributes_of st\<rparr>)
         else nfs_program_3 X env \<infinity> NFSPROC3_LOOKUP body s = Inr (Svcerr_systemerr, True, t)
     | None \<Rightarrow>
         nfs_program_3 X env \<infinity> NFSPROC3_LOOKUP body s = Inr (Sendreply out, True, t) \<and>
         (\<exists>r. read_reply X (Lookup (lookup_args d n)) out = Some (Lookup_reply r) \<and>
           LOOKUP3res.status r = NFS3ERR_NOENT \<and>
           attributes_follow (LOOKUP3resfail.dir_attributes (LOOKUP3res.resfail r)) = 0))"
proof (cases "os_stat env (path_in d n)")
  case None
  from xdr_library.lookup_reply_missing [OF assms None] None show ?thesis by auto
next
  case (Some st)
  show ?thesis
  proof (cases "length (path_in d n) \<le> NFS3_FHSIZE")
    case True
    from xdr_library.lookup_reply_found [OF assms Some True] Some True show ?thesis by auto
  next
    case False
    from xdr_library.lookup_reply_long [OF assms Some False] Some False show ?thesis by auto
  qed
qed

theorem nfs_lookup_reply_witness:
  "\<exists>body out t r. call_body rfc4506 (Lookup (lookup_args [47] [102])) = Some body \<and>
    nfs_program_3 rfc4506 demo_env \<infinity> NFSPROC3_LOOKUP body initial_results =
      Inr (Sendreply out, True, t) \<and>
    read_reply rfc4506 (Lookup (lookup_args [47] [102])) out = Some (Lookup_reply r) \<and>
    fh_data (LOOKUP3resok.object (LOOKUP3res.resok r)) = [47, 102]"
proof -
  have "os_stat demo_env (path_in [47] [102]) = Some (demo_stat 0x81A4 2)"
    "length (path_in [47] [102]) \<le> NFS3_FHSIZE" "path_in [47] [102] = [47, 102]"
    by (simp_all add: demo_env_def path_in_def NFS3_FHSIZE_def)
  then show ?thesis
    using nfs_lookup_reply [OF rfc.xdr_library_axioms wf_demo_env results_ok_initial,
        of "[47]" "[102]"]
    by (auto simp: wf_name_def XDR_NOBOUND_def NFS3_FHSIZE_def demo_env_def)
qed




text \<open>
  C30. A request that the server does not understand changes nothing and is answered by the
  error that says so: a procedure number the program does not have, and arguments whose file
  handle is longer than 64 bytes, for every procedure.
\<close>

theorem nfs_rejects:
  assumes "xdr_library X" and "carries (xp_bytes X XDR_NOBOUND) bs w (\<lambda>_. bs)"
    and "NFS3_FHSIZE < length bs"
  shows "(p \<notin> {0, 1, 3, 4, 6, 16, 19, 20} \<longrightarrow>
      nfs_program_3 X env room p body s = Inr (Svcerr_noproc, True, s)) \<and>
    (p \<in> {1, 3, 4, 6, 16, 19, 20} \<longrightarrow>
      nfs_program_3 X env room p (w @ rest) s = Inr (Svcerr_decode, True, s)) \<and>
    (2 \<le> p \<longrightarrow> mount_3 X room p body s = Inr (Svcerr_noproc, True, s))"
proof (intro conjI impI)
  assume "p \<in> {1, 3, 4, 6, 16, 19, 20}"
  then show "nfs_program_3 X env room p (w @ rest) s = Inr (Svcerr_decode, True, s)"
    using xdr_library.long_handle_refused [OF assms]
    by (intro xdr_library.undecodable_handle [OF assms(1)])
      (simp_all only: NFSPROC3_GETATTR_def NFSPROC3_LOOKUP_def NFSPROC3_ACCESS_def
        NFSPROC3_READ_def NFSPROC3_READDIR_def NFSPROC3_FSINFO_def NFSPROC3_PATHCONF_def)
qed (simp_all add: nfs_program_3_def mount_3_def proc_numbers MOUNTPROC3_MNT_def)

theorem nfs_rejects_witness:
  "nfs_program_3 rfc4506 demo_env \<infinity> 2 [] initial_results = Inr (Svcerr_noproc, True, initial_results) \<and>
   nfs_program_3 rfc4506 demo_env \<infinity> 1 (rfc_bytes_wire (replicate 65 47) @ []) initial_results =
     Inr (Svcerr_decode, True, initial_results)"
proof -
  have "carries (xp_bytes rfc4506 XDR_NOBOUND) (replicate 65 47) (rfc_bytes_wire (replicate 65 47))
      (\<lambda>_. replicate 65 47)"
    using carries_bytes [of "replicate 65 47" XDR_NOBOUND] by (simp add: XDR_NOBOUND_def)
  note rejects = nfs_rejects [OF rfc.xdr_library_axioms this]
  show ?thesis
    using rejects [of 2 demo_env \<infinity> "[]" initial_results]
      rejects [of 1 demo_env \<infinity> "[]" initial_results "[]"]
    by (simp add: NFS3_FHSIZE_def)
qed

text \<open>
  C31. GETATTR of a path that does not exist is answered with NFS3_OK and the attributes of the
  file for which the last successful GETATTR asked.
\<close>

theorem nfs_getattr_stale:
  assumes "xdr_library X" and "wf_env env" and "results_ok s" and "wf_fh h"
    and "terminated_path h = Inr path" and "os_stat env path = None"
  shows "\<exists>body out t. call_body X (Getattr \<lparr>GETATTR3args.object = h\<rparr>) = Some body \<and>
    nfs_program_3 X env \<infinity> NFSPROC3_GETATTR body s = Inr (Sendreply out, True, t) \<and>
    read_reply X (Getattr \<lparr>GETATTR3args.object = h\<rparr>) out = Some (Getattr_reply
      \<lparr>GETATTR3res.status = NFS3_OK, resok = GETATTR3res.resok (getattr_result s)\<rparr>)"
proof -
  let ?c = "Getattr \<lparr>GETATTR3args.object = h\<rparr>"
  let ?t = "s\<lparr>getattr_result :=
    \<lparr>GETATTR3res.status = NFS3_OK, resok = GETATTR3res.resok (getattr_result s)\<rparr>\<rparr>"
  have "wf_call ?c" using assms(4) by simp
  moreover have "nfs_service env ?c s = Inr ?t"
    using assms(5,6) by (simp add: nfsproc3_getattr_3_svc_def fill_attributes_def)
  ultimately show ?thesis
    using xdr_library.program_refines_service [OF assms(1) _ assms(3,2), of ?c ?t \<infinity>]
    by (auto simp: answer_in_def merge_getattr_def)
qed

theorem nfs_getattr_stale_witness:
  "\<exists>body out t. call_body rfc4506 (Getattr \<lparr>GETATTR3args.object = \<lparr>fh_data = [47, 120]\<rparr>\<rparr>) = Some body \<and>
    nfs_program_3 rfc4506 demo_env \<infinity> NFSPROC3_GETATTR body initial_results = Inr (Sendreply out, True, t) \<and>
    read_reply rfc4506 (Getattr \<lparr>GETATTR3args.object = \<lparr>fh_data = [47, 120]\<rparr>\<rparr>) out =
      Some (Getattr_reply \<lparr>GETATTR3res.status = NFS3_OK,
        resok = GETATTR3res.resok (getattr_result initial_results)\<rparr>)"
  by (rule nfs_getattr_stale [OF rfc.xdr_library_axioms wf_demo_env results_ok_initial, where path = "[47, 120]"])
    (simp_all add: wf_fh_def NFS3_FHSIZE_def terminated_path_def demo_env_def)

text \<open>
  C32. The generated routines are inverse to each other: the arguments of every procedure, and
  what follows them in the stream, are read back as they were written, into whatever memory.
\<close>

theorem nfs_arguments_roundtrip:
  assumes "xdr_library X" and "wf_call c"
  shows "\<exists>body. call_body X c = Some body \<and>
    (case c of
       Getattr a \<Rightarrow> \<forall>rest obj. xdr_GETATTR3args X (XDR_DECODE (body @ rest)) obj = Some (XDR_DECODE rest, a)
     | Lookup a \<Rightarrow> \<forall>rest obj. xdr_LOOKUP3args X (XDR_DECODE (body @ rest)) obj = Some (XDR_DECODE rest, a)
     | Access a \<Rightarrow> \<forall>rest obj. xdr_ACCESS3args X (XDR_DECODE (body @ rest)) obj = Some (XDR_DECODE rest, a)
     | Read a \<Rightarrow> \<forall>rest obj. xdr_READ3args X (XDR_DECODE (body @ rest)) obj = Some (XDR_DECODE rest, a)
     | Readdir a \<Rightarrow> \<forall>rest obj. xdr_READDIR3args X (XDR_DECODE (body @ rest)) obj = Some (XDR_DECODE rest, a)
     | Fsinfo a \<Rightarrow> \<forall>rest obj. xdr_FSINFO3args X (XDR_DECODE (body @ rest)) obj = Some (XDR_DECODE rest, a)
     | Pathconf a \<Rightarrow> \<forall>rest obj. xdr_PATHCONF3args X (XDR_DECODE (body @ rest)) obj = Some (XDR_DECODE rest, a))"
  using assms(2)
  by (cases c) (simp_all add: transmits_sendreply [OF xdr_library.xdr_args(1) [OF assms(1)]]
      transmits_sendreply [OF xdr_library.xdr_args(2) [OF assms(1)]]
      transmits_sendreply [OF xdr_library.xdr_args(3) [OF assms(1)]]
      transmits_sendreply [OF xdr_library.xdr_ACCESS3args [OF assms(1)]]
      transmits_sendreply [OF xdr_library.xdr_READDIR3args [OF assms(1)]]
      transmits_sendreply [OF xdr_library.xdr_LOOKUP3args [OF assms(1)]]
      transmits_sendreply [OF xdr_library.xdr_READ3args [OF assms(1)]])

theorem nfs_arguments_roundtrip_witness:
  "\<exists>body. call_body rfc4506 (Read (read_args demo_fh 5 7)) = Some body \<and>
    xdr_READ3args rfc4506 (XDR_DECODE (body @ [1])) (read_args zero_fh 0 0) =
      Some (XDR_DECODE [1], read_args demo_fh 5 7)"
  using nfs_arguments_roundtrip [OF rfc.xdr_library_axioms, of "Read (read_args demo_fh 5 7)"]
  by (auto simp: wf_read_args_def read_args_def fits32_def)

text \<open>
  C33. The layout of a Unix file handle: with at most 31 path bytes \<open>fh_encode\<close> fills its
  buffer of 64 bytes with the fields at fixed places, from which they can be read back. With
  more, up to the 43 bytes the structure allows, it writes beyond the buffer.
\<close>

theorem fh_encode_bounds:
  assumes "length buffer = FH_MAXBUF" and "length (fh_inos fh) = FH_MAXLEN"
    and "unat (fh_len fh) \<le> FH_MAXLEN"
  shows "(unat (fh_len fh) \<le> 31 \<longrightarrow> (\<exists>buf. fh_encode fh buffer = Inr (fh_length fh, buf) \<and>
      length buf = FH_MAXBUF \<and> unat (fh_length fh) = unat (fh_len fh) + 33 \<and>
      un_le64 (slice 0 8 buf) = fh_dev fh \<and> un_le64 (slice 8 8 buf) = fh_ino fh \<and>
      un_le64 (slice 16 8 buf) = fh_gen fh \<and> un_le64 (slice 24 8 buf) = fh_pwhash fh \<and>
      buf ! 32 = fh_len fh \<and> slice 33 (unat (fh_len fh)) buf = take (unat (fh_len fh)) (fh_inos fh))) \<and>
    (31 < unat (fh_len fh) \<longrightarrow> fh_encode fh buffer = Inl Out_of_bounds)"
proof (intro conjI impI)
  assume "unat (fh_len fh) \<le> 31"
  with assms have len: "unat (fh_len fh) + 33 \<le> length buffer" "unat (fh_len fh) \<le> length (fh_inos fh)"
    by (simp_all add: FH_MAXBUF_def FH_MAXLEN_def FH_MINLEN_def)
  have "slice 33 n (fh_header fh @ take n xs @ ys) = take n xs" if "n \<le> length xs"
    for n and xs ys :: "byte list"
    using that by (simp add: slice_def)
  with len assms(1) show "\<exists>buf. fh_encode fh buffer = Inr (fh_length fh, buf) \<and>
      length buf = FH_MAXBUF \<and> unat (fh_length fh) = unat (fh_len fh) + 33 \<and>
      un_le64 (slice 0 8 buf) = fh_dev fh \<and> un_le64 (slice 8 8 buf) = fh_ino fh \<and>
      un_le64 (slice 16 8 buf) = fh_gen fh \<and> un_le64 (slice 24 8 buf) = fh_pwhash fh \<and>
      buf ! 32 = fh_len fh \<and> slice 33 (unat (fh_len fh)) buf = take (unat (fh_len fh)) (fh_inos fh)"
    by (simp add: fh_encode_fits fh_fields unat_fh_length)
next
  assume "31 < unat (fh_len fh)"
  with assms show "fh_encode fh buffer = Inl Out_of_bounds"
    by (intro fh_encode_overflows) (simp_all add: FH_MAXBUF_def FH_MAXLEN_def FH_MINLEN_def)
qed

theorem fh_encode_bounds_witness:
  "fh_encode \<lparr>fh_dev = 1, fh_ino = 2, fh_gen = 3, fh_pwhash = 4, fh_len = 40, fh_inos = replicate 43 0\<rparr>
     (replicate 64 0) = Inl Out_of_bounds"
  using fh_encode_bounds [of "replicate 64 0"
      "\<lparr>fh_dev = 1, fh_ino = 2, fh_gen = 3, fh_pwhash = 4, fh_len = 40, fh_inos = replicate 43 0\<rparr>"]
  by (simp add: FH_MAXBUF_def FH_MAXLEN_def FH_MINLEN_def)

end
