(* ===== verification/Ftp_Server.thy ===== *)
theory Ftp_Server
  imports Posix_Types
begin

text \<open>
  The FTP server (\<open>src/FTP/ftp_server.c\<close>): the replies, the listing of a directory, the
  transfer of files and the loop over the commands of a control connection. What the operating
  system answers during a command is the record \<open>ftp_env\<close>; what the server does is the list of
  its events.
\<close>

section \<open>Strings\<close>

definition ascii :: "string \<Rightarrow> cstring" where
  "ascii s = map of_char s"

abbreviation crlf :: cstring where "crlf \<equiv> [13, 10]"

text \<open>The digits of \<open>%d\<close>, \<open>%lu\<close> and \<open>%lld\<close>.\<close>

fun dec_digits :: "nat \<Rightarrow> cstring" where
  "dec_digits n =
     (if n < 10 then [48 + of_nat n] else dec_digits (n div 10) @ [48 + of_nat (n mod 10)])"

declare dec_digits.simps [simp del]

definition show_int :: "int \<Rightarrow> cstring" where
  "show_int i = (if i < 0 then 45 # dec_digits (nat (- i)) else dec_digits (nat i))"

text \<open>\<open>snprintf\<close> into a buffer of \<open>n\<close> bytes keeps the last one for the NUL.\<close>

definition snprintf :: "nat \<Rightarrow> cstring \<Rightarrow> cstring" where
  "snprintf n s = take (n - 1) s"

definition isspace :: "byte \<Rightarrow> bool" where
  "isspace b \<longleftrightarrow> b = 32 \<or> (9 \<le> b \<and> b \<le> 13)"

text \<open>
  \<open>sscanf(buffer, "CMD %s", arg)\<close> behind a command of \<open>n\<close> letters that has been recognised:
  skip white space, copy the word after it. Without a word the array is left as it was, and a
  word that does not fit it with its NUL is written past its end.
\<close>

definition scan_word :: "nat \<Rightarrow> nat \<Rightarrow> cstring \<Rightarrow> cstring \<Rightarrow> cstring res" where
  "scan_word n cap line old =
     (let word = takeWhile (\<lambda>b. \<not> isspace b) (dropWhile isspace (drop n line))
      in if word = [] then Inr old
         else if length word < cap then Inr word else Inl Out_of_bounds)"

section \<open>Constants, environment and events\<close>

definition BUFFER_SIZE :: nat where "BUFFER_SIZE = 1024"
definition LIST_BUFFER_SIZE :: nat where "LIST_BUFFER_SIZE = 8192"

text \<open>The size of the arrays for names and for file arguments.\<close>

definition NAME_SIZE :: nat where "NAME_SIZE = 100"

text \<open>
  \<open>e_chunks\<close> are the results of \<open>recv\<close> on the data connection before the one that ends it,
  \<open>e_file\<close> the contents of a file that can be opened, \<open>e_dir\<close> the names that \<open>readdir\<close> returns
  for the working directory, \<open>e_time\<close> the modification time as \<open>strftime\<close> prints it.
\<close>

record ftp_env =
  e_getcwd :: cstring
  e_chdir :: "cstring \<Rightarrow> bool"
  e_mkdir :: "cstring \<Rightarrow> bool"
  e_rmdir :: "cstring \<Rightarrow> bool"
  e_socket :: int
  e_bind :: bool
  e_listen :: bool
  e_getsockname :: bool
  e_port :: u16
  e_ip :: cstring
  e_accept :: "int \<Rightarrow> int"
  e_creates :: "cstring \<Rightarrow> bool"
  e_chunks :: "byte list list"
  e_file :: "cstring \<Rightarrow> byte list option"
  e_dir :: "cstring list option"
  e_stat :: "cstring \<Rightarrow> posix_stat option"
  e_time :: "u64 \<Rightarrow> cstring"

datatype ftp_event =
    Send int "byte list"
  | Close int
  | Change_dir cstring
  | Make_dir cstring
  | Remove_dir cstring
  | Write_file cstring "byte list"

section \<open>Directory listings\<close>

definition mode_char :: "u32 \<Rightarrow> u32 \<Rightarrow> byte \<Rightarrow> byte" where
  "mode_char mode flag c = (if mode AND flag \<noteq> 0 then c else 45)"

definition mode_string :: "u32 \<Rightarrow> cstring" where
  "mode_string mode =
     [if mode_is_dir mode then 100 else 45,
      mode_char mode 0x100 114, mode_char mode 0x080 119, mode_char mode 0x040 120,
      mode_char mode 0x020 114, mode_char mode 0x010 119, mode_char mode 0x008 120,
      mode_char mode 0x004 114, mode_char mode 0x002 119, mode_char mode 0x001 120]"

definition get_file_line :: "ftp_env \<Rightarrow> cstring \<Rightarrow> posix_stat \<Rightarrow> cstring" where
  "get_file_line env filename file_stat =
     snprintf 256
       (mode_string (s_mode file_stat) @ [32] @
        dec_digits (unat (s_nlink file_stat)) @ [32] @
        show_int (sint (s_uid file_stat)) @ [32] @
        show_int (sint (s_size file_stat)) @ [32] @
        e_time env (tv_sec (s_mtim file_stat)) @ [32] @
        filename @ [10])"

text \<open>The loop of \<open>get_listing\<close>; \<open>strcat\<close> writes the line and its NUL behind what \<open>info\<close> holds.\<close>

fun listing_loop :: "ftp_env \<Rightarrow> cstring \<Rightarrow> cstring list \<Rightarrow> cstring res" where
  "listing_loop env info [] = Inr info"
| "listing_loop env info (d_name # rest) =
     (case e_stat env (snprintf 256 (ascii ''./'' @ d_name)) of
        None \<Rightarrow> listing_loop env info rest
      | Some file_stat \<Rightarrow>
          (let line = get_file_line env d_name file_stat
           in if length info + length line < LIST_BUFFER_SIZE
              then listing_loop env (info @ line) rest
              else Inl Out_of_bounds))"

text \<open>\<open>None\<close> is the string literal that is returned when the directory cannot be opened.\<close>

definition get_listing :: "ftp_env \<Rightarrow> cstring option res" where
  "get_listing env =
     (case e_dir env of
        None \<Rightarrow> Inr None
      | Some names \<Rightarrow> bind_res (listing_loop env [] names) (\<lambda>info. Inr (Some info)))"

section \<open>Calls\<close>

definition send_response :: "int \<Rightarrow> cstring \<Rightarrow> ftp_event" where
  "send_response socket response = Send socket response"

text \<open>\<open>mkdir\<close>, \<open>rmdir\<close> and \<open>chdir\<close>: the event and the result of the call.\<close>

definition create_directory :: "ftp_env \<Rightarrow> cstring \<Rightarrow> int \<times> ftp_event list" where
  "create_directory env path = (if e_mkdir env path then (0, [Make_dir path]) else (-1, []))"

definition remove_directory :: "ftp_env \<Rightarrow> cstring \<Rightarrow> int \<times> ftp_event list" where
  "remove_directory env path = (if e_rmdir env path then (0, [Remove_dir path]) else (-1, []))"

definition change_directory :: "ftp_env \<Rightarrow> cstring \<Rightarrow> int \<times> ftp_event list" where
  "change_directory env new_path =
     (if e_chdir env new_path then (0, [Change_dir new_path]) else (-1, []))"

definition get_server_ip_address :: "ftp_env \<Rightarrow> cstring" where
  "get_server_ip_address env = e_ip env"

definition get_data_port_high :: "ftp_env \<Rightarrow> nat" where
  "get_data_port_high env = unat (e_port env) div 256"

definition get_data_port_low :: "ftp_env \<Rightarrow> nat" where
  "get_data_port_low env = unat (e_port env) mod 256"

text \<open>The socket, the port it listens on, and the events.\<close>

definition open_passive_data_socket :: "ftp_env \<Rightarrow> int \<times> nat \<times> ftp_event list" where
  "open_passive_data_socket env =
     (let data_socket = e_socket env
      in if data_socket = -1 then (-1, 0, [])
         else if \<not> e_bind env then (-1, 0, [Close data_socket])
         else if \<not> e_listen env then (-1, 0, [Close data_socket])
         else if \<not> e_getsockname env then (-1, 0, [Close data_socket])
         else (data_socket, unat (e_port env), []))"

definition accept_passive_connection :: "ftp_env \<Rightarrow> int \<Rightarrow> int" where
  "accept_passive_connection env passive_socket = e_accept env passive_socket"

text \<open>Each chunk is written behind the ones before it.\<close>

definition receive_file :: "ftp_env \<Rightarrow> cstring \<Rightarrow> ftp_event list" where
  "receive_file env file_path =
     (if e_creates env file_path then [Write_file file_path (concat (e_chunks env))] else [])"

text \<open>\<open>fread\<close> returns full buffers until the rest of the file is shorter than one.\<close>

function send_loop :: "int \<Rightarrow> byte list \<Rightarrow> ftp_event list" where
  "send_loop data_socket rest =
     (if rest = [] then []
      else Send data_socket (take BUFFER_SIZE rest) # send_loop data_socket (drop BUFFER_SIZE rest))"
  by pat_completeness auto
termination
  by (relation "measure (\<lambda>(_, rest). length rest)") (auto simp: BUFFER_SIZE_def)

declare send_loop.simps [simp del]

definition send_file :: "ftp_env \<Rightarrow> int \<Rightarrow> cstring \<Rightarrow> ftp_event list" where
  "send_file env data_socket file_path =
     (case e_file env file_path of None \<Rightarrow> [] | Some c \<Rightarrow> send_loop data_socket c)"

section \<open>Commands\<close>

text \<open>
  A session keeps the passive socket (-1 before there is one) and the names that were given.
  A command returns the session after it and its events; \<open>client_socket\<close> is the control
  connection, \<open>line\<close> the received string.
\<close>

record ftp_session =
  data_socket :: int
  username :: cstring
  password :: cstring

definition reply :: "int \<Rightarrow> string \<Rightarrow> ftp_event" where
  "reply client_socket s = send_response client_socket (ascii s @ crlf)"

definition cmd_PORT :: "int \<Rightarrow> ftp_event list" where
  "cmd_PORT client_socket = [reply client_socket
     ''502 This server does not support active mode. Consider using passive mode instead.'']"

definition no_data_connection :: "int \<Rightarrow> ftp_event" where
  "no_data_connection client_socket = reply client_socket ''425 Can't open data connection.''"

definition cmd_PASV :: "int \<Rightarrow> ftp_env \<Rightarrow> ftp_session \<Rightarrow> ftp_session \<times> ftp_event list" where
  "cmd_PASV client_socket env s =
     (let (sock, port, evs) = open_passive_data_socket env;
          server_ip = map (\<lambda>b. if b = 46 then 44 else b) (get_server_ip_address env);
          response = snprintf BUFFER_SIZE
            (ascii ''227 Entering Passive Mode ('' @ server_ip @ [44] @
             dec_digits (get_data_port_high env) @ [44] @ dec_digits (get_data_port_low env) @
             ascii '').'' @ crlf)
      in (s\<lparr>data_socket := sock\<rparr>,
          evs @ [if sock \<noteq> -1 then send_response client_socket response
                 else no_data_connection client_socket]))"

definition cmd_EPSV :: "int \<Rightarrow> ftp_env \<Rightarrow> ftp_session \<Rightarrow> ftp_session \<times> ftp_event list" where
  "cmd_EPSV client_socket env s =
     (let (sock, port, evs) = open_passive_data_socket env
      in (s\<lparr>data_socket := sock\<rparr>,
          evs @ [if sock \<noteq> -1
                 then send_response client_socket
                   (snprintf BUFFER_SIZE (ascii ''229 Entering Extended Passive Mode (|||'' @
                      dec_digits port @ ascii ''|).'' @ crlf))
                 else no_data_connection client_socket]))"

text \<open>
  The sockets of a transfer are closed after it; the session keeps the number of the passive
  socket.
\<close>

definition close_data :: "int \<Rightarrow> ftp_session \<Rightarrow> ftp_event list" where
  "close_data accepted s = [Close accepted, Close (data_socket s)]"

definition cmd_STOR :: "int \<Rightarrow> ftp_env \<Rightarrow> cstring \<Rightarrow> ftp_session \<Rightarrow> ftp_event list res" where
  "cmd_STOR client_socket env line s =
     (let accepted = accept_passive_connection env (data_socket s)
      in bind_res (scan_word 4 NAME_SIZE line []) (\<lambda>filename.
         Inr (if accepted \<noteq> -1
              then [reply client_socket ''150 Opening data connection for STOR.''] @
                receive_file env filename @
                [reply client_socket ''226 File transfer complete.''] @ close_data accepted s
              else [no_data_connection client_socket])))"

definition cmd_RETR :: "int \<Rightarrow> ftp_env \<Rightarrow> cstring \<Rightarrow> ftp_session \<Rightarrow> ftp_event list res" where
  "cmd_RETR client_socket env line s =
     (let accepted = accept_passive_connection env (data_socket s)
      in bind_res (scan_word 4 NAME_SIZE line []) (\<lambda>filename.
         Inr (if accepted \<noteq> -1
              then [reply client_socket ''150 Opening data connection for RETR.''] @
                send_file env accepted filename @
                [reply client_socket ''226 File transfer complete.''] @ close_data accepted s
              else [no_data_connection client_socket])))"

text \<open>
  The bound of the \<open>snprintf\<close> into \<open>listing\<close> is the size of \<open>response\<close>; the literal that
  stands for a directory that cannot be opened is freed.
\<close>

definition cmd_LIST :: "int \<Rightarrow> ftp_env \<Rightarrow> ftp_session \<Rightarrow> ftp_event list res" where
  "cmd_LIST client_socket env s =
     (let accepted = accept_passive_connection env (data_socket s)
      in if accepted \<noteq> -1 then
           bind_res (get_listing env) (\<lambda>ls_result.
             (case ls_result of
                None \<Rightarrow> Inl Bad_free
              | Some info \<Rightarrow>
                  Inr ([reply client_socket ''150 Opening data connection for directory listing.''] @
                    [send_response accepted (snprintf BUFFER_SIZE (info @ crlf))] @
                    [reply client_socket ''226 Directory listing sent.''] @ close_data accepted s)))
         else Inr [no_data_connection client_socket])"

text \<open>The sixth byte of the buffer, which is NUL behind the end of the line.\<close>

definition cmd_TYPE :: "int \<Rightarrow> byte list \<Rightarrow> ftp_event list" where
  "cmd_TYPE client_socket buffer =
     (let transfer_mode = buffer ! 5
      in [reply client_socket
           (if transfer_mode = 65 then ''200 Switching to ASCII mode.''
            else if transfer_mode = 73 then ''200 Switching to Binary mode.''
            else ''500 Unknown transfer mode.'')])"

definition cmd_USER :: "int \<Rightarrow> cstring \<Rightarrow> ftp_session \<Rightarrow> (ftp_session \<times> ftp_event list) res" where
  "cmd_USER client_socket line s =
     bind_res (scan_word 4 NAME_SIZE line (username s)) (\<lambda>u.
       Inr (s\<lparr>username := u\<rparr>,
         [send_response client_socket (ascii ''331 User name okay, need password'' @ [10])]))"

definition cmd_PASS :: "int \<Rightarrow> cstring \<Rightarrow> ftp_session \<Rightarrow> (ftp_session \<times> ftp_event list) res" where
  "cmd_PASS client_socket line s =
     bind_res (scan_word 4 NAME_SIZE line (password s)) (\<lambda>p.
       Inr (s\<lparr>password := p\<rparr>,
         [send_response client_socket (ascii ''230 User logged in'' @ [10])]))"

definition change_and_reply :: "int \<Rightarrow> ftp_env \<Rightarrow> cstring \<Rightarrow> ftp_event list" where
  "change_and_reply client_socket env new_dir =
     (let (r, evs) = change_directory env new_dir
      in evs @ [reply client_socket
           (if r = 0 then ''250 Directory changed'' else ''550 Failed to change directory'')])"

definition cmd_CWD :: "int \<Rightarrow> ftp_env \<Rightarrow> cstring \<Rightarrow> ftp_event list res" where
  "cmd_CWD client_socket env line =
     bind_res (scan_word 3 NAME_SIZE line []) (\<lambda>new_dir. Inr (change_and_reply client_socket env new_dir))"

definition cmd_CDUP :: "int \<Rightarrow> ftp_env \<Rightarrow> ftp_event list" where
  "cmd_CDUP client_socket env = change_and_reply client_socket env (ascii ''..'')"

definition cmd_RMD :: "int \<Rightarrow> ftp_env \<Rightarrow> cstring \<Rightarrow> ftp_event list res" where
  "cmd_RMD client_socket env line =
     bind_res (scan_word 3 NAME_SIZE line []) (\<lambda>dir_name.
       let current_directory = e_getcwd env;
           (r, evs) = change_directory env current_directory
       in if r = 0 then
            (let (r, evs') = remove_directory env (current_directory @ [47] @ dir_name)
             in Inr (evs @ evs' @ [reply client_socket
                  (if r = 0 then ''250 Directory deleted'' else ''550 Failed to delete directory'')]))
          else Inr [reply client_socket ''550 Failed to delete directory''])"

definition cmd_MKD :: "int \<Rightarrow> ftp_env \<Rightarrow> cstring \<Rightarrow> ftp_event list res" where
  "cmd_MKD client_socket env line =
     bind_res (scan_word 3 NAME_SIZE line []) (\<lambda>dir_name.
       let current_directory = e_getcwd env;
           (r, evs) = change_directory env current_directory
       in if r = 0 then
            (let (r, evs') = create_directory env (current_directory @ [47] @ dir_name)
             in Inr (evs @ evs' @ [reply client_socket
                  (if r = 0 then ''257 Directory created'' else ''550 Failed to create directory'')]))
          else Inr [reply client_socket ''550 Failed to create directory''])"

definition cmd_PWD :: "int \<Rightarrow> ftp_env \<Rightarrow> ftp_event list" where
  "cmd_PWD client_socket env =
     [send_response client_socket (snprintf BUFFER_SIZE
        (ascii ''257 '' @ [34] @ e_getcwd env @ [34] @ ascii '' is the current directory'' @ crlf))]"

section \<open>The command loop\<close>

definition strncmp_eq :: "cstring \<Rightarrow> string \<Rightarrow> bool" where
  "strncmp_eq line cmd \<longleftrightarrow> take (length cmd) line = ascii cmd"

text \<open>
  One turn of the loop for a received buffer of \<open>BUFFER_SIZE\<close> bytes: whether the loop goes on,
  the session and the events.
\<close>

definition ftp_command ::
    "int \<Rightarrow> ftp_env \<Rightarrow> byte list \<Rightarrow> ftp_session \<Rightarrow> (bool \<times> ftp_session \<times> ftp_event list) res" where
  "ftp_command client_socket env buffer s =
     (if 0 \<notin> set buffer then Inl Out_of_bounds
      else
        (let line = takeWhile (\<lambda>b. b \<noteq> 0) buffer;
             same = (\<lambda>r. bind_res r (\<lambda>evs. Inr (True, s, evs)));
             next = (\<lambda>r. bind_res r (\<lambda>(s, evs). Inr (True, s, evs)))
         in if line = [] then Inr (False, s, [])
            else if strncmp_eq line ''PORT'' then Inr (True, s, cmd_PORT client_socket)
            else if strncmp_eq line ''PASV'' then next (Inr (cmd_PASV client_socket env s))
            else if strncmp_eq line ''STOR'' then same (cmd_STOR client_socket env line s)
            else if strncmp_eq line ''RETR'' then same (cmd_RETR client_socket env line s)
            else if strncmp_eq line ''EPSV'' then next (Inr (cmd_EPSV client_socket env s))
            else if strncmp_eq line ''LIST'' then same (cmd_LIST client_socket env s)
            else if strncmp_eq line ''TYPE'' then Inr (True, s, cmd_TYPE client_socket buffer)
            else if strncmp_eq line ''USER'' then next (cmd_USER client_socket line s)
            else if strncmp_eq line ''PASS'' then next (cmd_PASS client_socket line s)
            else if strncmp_eq line ''CWD'' then same (cmd_CWD client_socket env line)
            else if strncmp_eq line ''CDUP'' then Inr (True, s, cmd_CDUP client_socket env)
            else if strncmp_eq line ''RMD'' then same (cmd_RMD client_socket env line)
            else if strncmp_eq line ''MKD'' then same (cmd_MKD client_socket env line)
            else if strncmp_eq line ''PWD'' then Inr (True, s, cmd_PWD client_socket env)
            else if strncmp_eq line ''QUIT'' then Inr (False, s, [reply client_socket ''221 Goodbye!''])
            else Inr (True, s, [reply client_socket ''500 Unknown command''])))"

text \<open>
  What \<open>recv\<close> returns on the control connection, \<open>None\<close> for an error, and the answers of the
  system until the next one.
\<close>

type_synonym ftp_input = "byte list option \<times> ftp_env"

fun command_loop ::
    "int \<Rightarrow> ftp_input list \<Rightarrow> ftp_session \<Rightarrow> (bool \<times> ftp_session \<times> ftp_event list) res" where
  "command_loop client_socket [] s = Inr (True, s, [])"
| "command_loop client_socket ((None, env) # rest) s = Inr (False, s, [])"
| "command_loop client_socket ((Some bs, env) # rest) s =
     bind_res (ftp_command client_socket env (bs @ replicate (BUFFER_SIZE - length bs) 0) s)
       (\<lambda>(go, s, evs).
         if go then bind_res (command_loop client_socket rest s) (\<lambda>(go, s, evs'). Inr (go, s, evs @ evs'))
         else Inr (False, s, evs))"

definition new_session :: ftp_session where
  "new_session = \<lparr>data_socket = -1, username = [], password = []\<rparr>"

definition handle_ftp_commands ::
    "int \<Rightarrow> ftp_input list \<Rightarrow> (bool \<times> ftp_session \<times> ftp_event list) res" where
  "handle_ftp_commands client_socket inputs =
     bind_res (command_loop client_socket inputs new_session) (\<lambda>(go, s, evs).
       Inr (go, s, reply client_socket ''220 Welcome to FTP server'' # evs))"

text \<open>
  The accept loop of \<open>main\<close>: the connections one after the other, each closed when its loop
  has ended. A connection whose inputs end before its loop does keeps the server waiting.
\<close>

fun accept_loop :: "(int \<times> ftp_input list) list \<Rightarrow> ftp_event list res" where
  "accept_loop [] = Inr []"
| "accept_loop ((client_socket, inputs) # rest) =
     (if client_socket = -1 then accept_loop rest
      else bind_res (handle_ftp_commands client_socket inputs) (\<lambda>(go, s, evs).
        if go then Inr evs
        else bind_res (accept_loop rest) (\<lambda>evs'. Inr (evs @ [Close client_socket] @ evs'))))"

end
