(* ===== verification/Ftp_Correct.thy ===== *)
theory Ftp_Correct
  imports Ftp_Server
begin

text \<open>
  Lemmas on the FTP server: what it sends on a connection, printed numbers and scanned words,
  transfers and listings.
\<close>

section \<open>Sent bytes\<close>

text \<open>The messages sent on a socket, the code of a reply, and the bytes of a data connection.\<close>

fun sent_on :: "int \<Rightarrow> ftp_event list \<Rightarrow> byte list list" where
  "sent_on fd [] = []"
| "sent_on fd (Send fd' bs # evs) = (if fd' = fd then bs # sent_on fd evs else sent_on fd evs)"
| "sent_on fd (_ # evs) = sent_on fd evs"

definition reply_codes :: "int \<Rightarrow> ftp_event list \<Rightarrow> cstring list" where
  "reply_codes fd evs = map (take 3) (sent_on fd evs)"

lemma sent_on_append [simp]: "sent_on fd (xs @ ys) = sent_on fd xs @ sent_on fd ys"
  by (induction fd xs rule: sent_on.induct) simp_all

lemma sent_on_send_loop:
  "sent_on fd (send_loop fd' c) = (if fd = fd' then sent_on fd (send_loop fd c) else [])"
proof (induction fd' c rule: send_loop.induct)
  case (1 fd' c)
  then show ?case by (subst (1 2) send_loop.simps) auto
qed

lemma concat_send_loop: "concat (sent_on fd (send_loop fd c)) = c"
proof (induction fd c rule: send_loop.induct)
  case (1 fd c)
  then show ?case by (subst send_loop.simps) auto
qed

lemma send_loop_bounded: "bs \<in> set (sent_on fd (send_loop fd c)) \<Longrightarrow> 0 < length bs \<and> length bs \<le> BUFFER_SIZE"
proof (induction fd c rule: send_loop.induct)
  case (1 fd c)
  from 1(2) show ?case
    by (subst (asm) send_loop.simps) (use 1(1) in \<open>auto simp: BUFFER_SIZE_def split: if_splits\<close>)
qed

section \<open>Printed numbers\<close>

definition undec :: "cstring \<Rightarrow> nat" where
  "undec s = foldl (\<lambda>a b. 10 * a + unat (b - 48)) 0 s"

lemma digit_value: "n < 10 \<Longrightarrow> unat ((48 + of_nat n :: byte) - 48) = n"
  by (simp add: unat_byte_of_nat)

lemma undec_dec_digits: "undec (dec_digits n) = n"
proof (induction n rule: dec_digits.induct)
  case (1 n)
  then show ?case
    by (subst dec_digits.simps) (simp add: undec_def digit_value [simplified])
qed

lemma dec_digits_are_digits: "b \<in> set (dec_digits n) \<Longrightarrow> 48 \<le> b \<and> b \<le> 57"
proof (induction n rule: dec_digits.induct)
  case (1 n)
  have "48 \<le> (48 + of_nat k :: byte) \<and> (48 + of_nat k :: byte) \<le> 57" if "k < 10" for k
  proof -
    have "k \<in> {0, 1, 2, 3, 4, 5, 6, 7, 8, 9}" using that by auto
    then show ?thesis by auto
  qed
  with 1 show ?case
    by (subst (asm) dec_digits.simps) (auto split: if_splits)
qed

lemma dec_digits_length:
  "length (dec_digits n) = (if n < 10 then 1 else Suc (length (dec_digits (n div 10))))"
  by (subst dec_digits.simps) simp

lemma dec_digits_short:
  assumes "n < 1000"
  shows "length (dec_digits n) \<le> 3"
proof -
  have "n div 10 div 10 < 10" using assms by linarith
  then have "length (dec_digits (n div 10 div 10)) = 1"
    using dec_digits_length [of "n div 10 div 10"] by simp
  then show ?thesis
    using dec_digits_length [of n] dec_digits_length [of "n div 10"] by (auto split: if_splits)
qed

section \<open>Scanned words\<close>

text \<open>A word has no white space and no NUL in it.\<close>

definition is_word :: "cstring \<Rightarrow> bool" where
  "is_word w \<longleftrightarrow> w \<noteq> [] \<and> 0 \<notin> set w \<and> (\<forall>b \<in> set w. \<not> isspace b)"

lemma scan_word_argument:
  assumes "is_word w" and "length cmd = n"
  shows "scan_word n cap (cmd @ [32] @ w @ crlf) old =
    (if length w < cap then Inr w else Inl Out_of_bounds)"
proof -
  have "takeWhile (\<lambda>b. \<not> isspace b) (w @ crlf) = w"
    using assms(1) by (subst takeWhile_append2) (auto simp: is_word_def isspace_def)
  moreover have "dropWhile isspace (w @ crlf) = w @ crlf"
    using assms(1) by (cases w) (auto simp: is_word_def)
  ultimately show ?thesis
    using assms by (simp add: scan_word_def is_word_def isspace_def)
qed

section \<open>Received commands\<close>

text \<open>The buffer after a line of fewer than \<open>BUFFER_SIZE\<close> bytes has been received into it.\<close>

definition received :: "cstring \<Rightarrow> byte list" where
  "received line = line @ replicate (BUFFER_SIZE - length line) 0"

lemma received_line:
  assumes "0 \<notin> set line" and "length line < BUFFER_SIZE"
  shows "0 \<in> set (received line)" "takeWhile (\<lambda>b. b \<noteq> 0) (received line) = line"
proof -
  show "0 \<in> set (received line)" using assms(2) by (simp add: received_def)
  show "takeWhile (\<lambda>b. b \<noteq> 0) (received line) = line"
    unfolding received_def by (subst takeWhile_append2) (use assms(1) in \<open>auto simp: takeWhile_replicate\<close>)
qed

lemma ascii_commands [simp]:
  "ascii ''PORT'' = [80, 79, 82, 84]" "ascii ''PASV'' = [80, 65, 83, 86]"
  "ascii ''STOR'' = [83, 84, 79, 82]" "ascii ''RETR'' = [82, 69, 84, 82]"
  "ascii ''EPSV'' = [69, 80, 83, 86]" "ascii ''LIST'' = [76, 73, 83, 84]"
  "ascii ''TYPE'' = [84, 89, 80, 69]" "ascii ''USER'' = [85, 83, 69, 82]"
  "ascii ''PASS'' = [80, 65, 83, 83]" "ascii ''CWD'' = [67, 87, 68]"
  "ascii ''CDUP'' = [67, 68, 85, 80]" "ascii ''RMD'' = [82, 77, 68]"
  "ascii ''MKD'' = [77, 75, 68]" "ascii ''PWD'' = [80, 87, 68]" "ascii ''QUIT'' = [81, 85, 73, 84]"
  by (simp_all add: ascii_def)

lemma command_STOR:
  assumes "0 \<notin> set line" and "length line < BUFFER_SIZE" and "strncmp_eq line ''STOR''"
  shows "ftp_command c env (received line) s =
    bind_res (cmd_STOR c env line s) (\<lambda>evs. Inr (True, s, evs))"
  using assms(3) received_line [OF assms(1,2)]
  by (auto simp: ftp_command_def Let_def strncmp_eq_def)

lemma command_RETR:
  assumes "0 \<notin> set line" and "length line < BUFFER_SIZE" and "strncmp_eq line ''RETR''"
  shows "ftp_command c env (received line) s =
    bind_res (cmd_RETR c env line s) (\<lambda>evs. Inr (True, s, evs))"
  using assms(3) received_line [OF assms(1,2)]
  by (auto simp: ftp_command_def Let_def strncmp_eq_def)

lemma command_LIST:
  assumes "0 \<notin> set line" and "length line < BUFFER_SIZE" and "strncmp_eq line ''LIST''"
  shows "ftp_command c env (received line) s =
    bind_res (cmd_LIST c env s) (\<lambda>evs. Inr (True, s, evs))"
  using assms(3) received_line [OF assms(1,2)]
  by (auto simp: ftp_command_def Let_def strncmp_eq_def)

lemma command_PASV:
  assumes "0 \<notin> set line" and "length line < BUFFER_SIZE" and "strncmp_eq line ''PASV''"
  shows "ftp_command c env (received line) s =
    Inr (True, fst (cmd_PASV c env s), snd (cmd_PASV c env s))"
  using assms(3) received_line [OF assms(1,2)]
  by (auto simp: ftp_command_def Let_def strncmp_eq_def case_prod_beta)

section \<open>Transfers\<close>

definition command_line :: "string \<Rightarrow> cstring \<Rightarrow> cstring" where
  "command_line cmd arg = ascii cmd @ [32] @ arg @ crlf"

text \<open>The files that a client finds after some events.\<close>

fun files_after :: "ftp_event list \<Rightarrow> (cstring \<Rightarrow> byte list option) \<Rightarrow> cstring \<Rightarrow> byte list option" where
  "files_after [] files = files"
| "files_after (Write_file f c # evs) files = files_after evs (files(f := Some c))"
| "files_after (_ # evs) files = files_after evs files"

lemma reply_simps [simp]:
  "sent_on fd [reply c s] = (if c = fd then [ascii s @ crlf] else [])"
  "sent_on fd (reply c s # evs) = (if c = fd then (ascii s @ crlf) # sent_on fd evs else sent_on fd evs)"
  "files_after (reply c s # evs) files = files_after evs files"
  by (simp_all add: reply_def send_response_def)

lemma files_after_append [simp]:
  "files_after (xs @ ys) files = files_after ys (files_after xs files)"
proof (induction xs arbitrary: files)
  case (Cons e xs)
  then show ?case by (cases e) (simp_all add: fun_upd_def)
qed simp

lemma sent_on_close_data [simp]: "sent_on fd (close_data a s) = []"
  by (simp add: close_data_def)

lemma files_after_close_data [simp]: "files_after (close_data a s) files = files"
  by (simp add: close_data_def)

lemma stor_events:
  assumes "is_word f" and "length f < NAME_SIZE" and "e_accept env (data_socket s) \<noteq> -1"
  shows "cmd_STOR c env (command_line ''STOR'' f) s =
    Inr ([reply c ''150 Opening data connection for STOR.''] @ receive_file env f @
      [reply c ''226 File transfer complete.''] @ close_data (e_accept env (data_socket s)) s)"
  using assms scan_word_argument [of f "[83, 84, 79, 82]" 4 NAME_SIZE "[]"]
  by (simp add: cmd_STOR_def command_line_def accept_passive_connection_def Let_def)

lemma retr_events:
  assumes "is_word f" and "length f < NAME_SIZE" and "e_accept env (data_socket s) \<noteq> -1"
  shows "cmd_RETR c env (command_line ''RETR'' f) s =
    Inr ([reply c ''150 Opening data connection for RETR.''] @
      send_file env (e_accept env (data_socket s)) f @
      [reply c ''226 File transfer complete.''] @ close_data (e_accept env (data_socket s)) s)"
  using assms scan_word_argument [of f "[82, 69, 84, 82]" 4 NAME_SIZE "[]"]
  by (simp add: cmd_RETR_def command_line_def accept_passive_connection_def Let_def)

lemma command_line_fits:
  assumes "is_word f" and "length f < NAME_SIZE" and "cmd \<in> {''STOR'', ''RETR''}"
  shows "0 \<notin> set (command_line cmd f)" "length (command_line cmd f) < BUFFER_SIZE"
    "strncmp_eq (command_line cmd f) cmd"
  using assms by (auto simp: command_line_def is_word_def NAME_SIZE_def BUFFER_SIZE_def strncmp_eq_def)

section \<open>Listings\<close>

text \<open>The lines of a listing: one for each name whose attributes can be read.\<close>

definition listing_lines :: "ftp_env \<Rightarrow> cstring list \<Rightarrow> cstring list" where
  "listing_lines env names = List.map_filter (\<lambda>n.
     map_option (get_file_line env n) (e_stat env (snprintf 256 (ascii ''./'' @ n)))) names"

lemma listing_loop_lines:
  "length info < LIST_BUFFER_SIZE \<Longrightarrow> listing_loop env info names =
    (if length info + length (concat (listing_lines env names)) < LIST_BUFFER_SIZE
     then Inr (info @ concat (listing_lines env names)) else Inl Out_of_bounds)"
proof (induction names arbitrary: info)
  case (Cons n names)
  then show ?case
    by (auto simp: listing_lines_def map_filter_simps Let_def split: option.split)
qed (simp add: listing_lines_def map_filter_simps)

section \<open>Replies\<close>

text \<open>
  The replies of a turn: one final reply, or the preliminary reply of a transfer followed by
  its final one.
\<close>

definition final_codes :: "cstring set" where
  "final_codes = set (map ascii [''200'', ''221'', ''227'', ''229'', ''230'', ''250'', ''257'',
     ''331'', ''425'', ''500'', ''502'', ''550''])"

definition proper_replies :: "cstring list \<Rightarrow> bool" where
  "proper_replies cs \<longleftrightarrow> (\<exists>x \<in> final_codes. cs = [x]) \<or> cs = [ascii ''150'', ascii ''226'']"

lemma code_of_reply [simp]:
  "reply_codes fd [reply c s] = (if c = fd then [take 3 (ascii s @ crlf)] else [])"
  "reply_codes fd (reply c s # evs) =
     (if c = fd then take 3 (ascii s @ crlf) # reply_codes fd evs else reply_codes fd evs)"
  "reply_codes fd [] = []" "reply_codes fd (close_data a t) = []"
  "reply_codes fd (xs @ ys) = reply_codes fd xs @ reply_codes fd ys"
  "reply_codes fd (Send fd' bs # evs) =
     (if fd' = fd then take 3 bs # reply_codes fd evs else reply_codes fd evs)"
  by (simp_all add: reply_codes_def)

lemma reply_codes_other:
  "a \<noteq> fd \<Longrightarrow> reply_codes fd (send_file env a f) = []"
  "reply_codes fd (receive_file env f) = []"
  "reply_codes fd (snd (snd (open_passive_data_socket env))) = []"
  "reply_codes fd (snd (change_directory env p)) = []"
  "reply_codes fd (snd (create_directory env p)) = []"
  "reply_codes fd (snd (remove_directory env p)) = []"
  using sent_on_send_loop [of fd a]
  by (auto simp: reply_codes_def send_file_def receive_file_def open_passive_data_socket_def Let_def
      change_directory_def create_directory_def remove_directory_def split: option.split)

lemma take_ascii [simp]: "take n (ascii s) = ascii (take n s)" "length (ascii s) = length s"
  by (simp_all add: ascii_def take_map)

lemma proper_final: "ascii x \<in> final_codes \<Longrightarrow> proper_replies [ascii x]"
  by (simp add: proper_replies_def)

lemma proper_transfer: "proper_replies [ascii ''150'', ascii ''226'']"
  by (simp add: proper_replies_def)

lemma proper_transfers:
  assumes "e_accept env (data_socket s) \<noteq> c"
  shows "cmd_STOR c env line s = Inr evs \<Longrightarrow> proper_replies (reply_codes c evs)"
    "cmd_RETR c env line s = Inr evs \<Longrightarrow> proper_replies (reply_codes c evs)"
    "cmd_LIST c env s = Inr evs \<Longrightarrow> proper_replies (reply_codes c evs)"
  using assms reply_codes_other(1) [OF assms]
  by (auto simp: cmd_STOR_def cmd_RETR_def cmd_LIST_def bind_res_eq_Inr Let_def proper_transfer
      reply_codes_other no_data_connection_def proper_final final_codes_def send_response_def
      accept_passive_connection_def split: if_splits option.splits)

lemma proper_session:
  "cmd_USER c line s = Inr (t, evs) \<Longrightarrow> proper_replies (reply_codes c evs)"
  "cmd_PASS c line s = Inr (t, evs) \<Longrightarrow> proper_replies (reply_codes c evs)"
  "proper_replies (reply_codes c (snd (cmd_PASV c env s)))"
  "proper_replies (reply_codes c (snd (cmd_EPSV c env s)))"
  by (auto simp: cmd_USER_def cmd_PASS_def cmd_PASV_def cmd_EPSV_def bind_res_eq_Inr case_prod_beta
      Let_def reply_codes_other no_data_connection_def final_codes_def send_response_def
      snprintf_def BUFFER_SIZE_def proper_final)

lemma proper_directories:
  "cmd_CWD c env line = Inr evs \<Longrightarrow> proper_replies (reply_codes c evs)"
  "cmd_RMD c env line = Inr evs \<Longrightarrow> proper_replies (reply_codes c evs)"
  "cmd_MKD c env line = Inr evs \<Longrightarrow> proper_replies (reply_codes c evs)"
  "proper_replies (reply_codes c (cmd_CDUP c env))"
  "proper_replies (reply_codes c (cmd_PWD c env))"
  by (auto simp: cmd_CWD_def cmd_RMD_def cmd_MKD_def cmd_CDUP_def cmd_PWD_def change_and_reply_def
      bind_res_eq_Inr case_prod_beta Let_def reply_codes_other final_codes_def send_response_def
      snprintf_def BUFFER_SIZE_def proper_final split: if_splits)

lemma proper_constant:
  "proper_replies (reply_codes c (cmd_PORT c))" "proper_replies (reply_codes c (cmd_TYPE c buffer))"
  by (simp_all add: cmd_PORT_def cmd_TYPE_def Let_def final_codes_def proper_final)

lemma command_proper:
  assumes "ftp_command c env buffer s = Inr (go, t, evs)" and "e_accept env (data_socket s) \<noteq> c"
    and "takeWhile (\<lambda>b. b \<noteq> 0) buffer \<noteq> []"
  shows "proper_replies (reply_codes c evs)"
proof -
  have "proper_replies (reply_codes c [reply c ''221 Goodbye!''])"
    "proper_replies (reply_codes c [reply c ''500 Unknown command''])"
    by (simp_all add: final_codes_def proper_final)
  moreover have "cmd_PASV c env s = (t, evs) \<Longrightarrow> proper_replies (reply_codes c evs)"
    "cmd_EPSV c env s = (t, evs) \<Longrightarrow> proper_replies (reply_codes c evs)"
    using proper_session(3,4) [of c env s] by simp_all
  ultimately show ?thesis
    using assms(1,3) proper_transfers [OF assms(2)] proper_session(1,2) proper_directories
      proper_constant
    by (auto simp: ftp_command_def Let_def bind_res_eq_Inr case_prod_beta simp del: code_of_reply
        split: if_splits)
qed

text \<open>The empty line ends the loop without a reply.\<close>

lemma command_empty:
  assumes "ftp_command c env buffer s = Inr (go, t, evs)" and "takeWhile (\<lambda>b. b \<noteq> 0) buffer = []"
  shows "\<not> go \<and> evs = []"
  using assms by (auto simp: ftp_command_def Let_def split: if_splits)

lemma loop_proper:
  "command_loop c inputs s = Inr (go, t, evs) \<Longrightarrow>
   \<forall>x \<in> set inputs. \<forall>d. e_accept (snd x) d \<noteq> c \<Longrightarrow>
   \<exists>groups. reply_codes c evs = concat groups \<and> (\<forall>g \<in> set groups. proper_replies g) \<and>
     length groups \<le> length inputs"
proof (induction c inputs s arbitrary: go t evs rule: command_loop.induct)
  case (3 c bs env rest s)
  from 3(2) obtain go1 s1 evs1 where cmd:
    "ftp_command c env (bs @ replicate (BUFFER_SIZE - length bs) 0) s = Inr (go1, s1, evs1)"
    by (auto simp: bind_res_eq_Inr)
  obtain g where g: "reply_codes c evs1 = concat g" "\<forall>x \<in> set g. proper_replies x" "length g \<le> 1"
    "go1 \<Longrightarrow> length g = 1"
  proof (cases "takeWhile (\<lambda>b. b \<noteq> 0) (bs @ replicate (BUFFER_SIZE - length bs) 0) = []")
    case True
    from command_empty [OF cmd this] show thesis by (intro that [of "[]"]) simp_all
  next
    case False
    from 3(3) have "e_accept env (data_socket s) \<noteq> c" by simp
    from command_proper [OF cmd this False] show thesis
      by (intro that [of "[reply_codes c evs1]"]) simp_all
  qed
  show ?case
  proof (cases go1)
    case True
    with 3(2) cmd obtain go2 t2 evs2 where rest: "command_loop c rest s1 = Inr (go2, t2, evs2)"
      and evs: "evs = evs1 @ evs2" by (auto simp: bind_res_eq_Inr)
    from 3(3) have "\<forall>x \<in> set rest. \<forall>d. e_accept (snd x) d \<noteq> c" by simp
    from 3(1) [OF cmd refl refl True rest this] obtain gs where
      "reply_codes c evs2 = concat gs" "\<forall>x \<in> set gs. proper_replies x" "length gs \<le> length rest"
      by blast
    with g evs show ?thesis by (intro exI [of _ "g @ gs"]) auto
  next
    case False
    with 3(2) cmd g show ?thesis by (intro exI [of _ g]) (auto simp: le_SucI)
  qed
qed (auto intro: exI [of _ "[]"])

end
