(* ===== verification/Ftp_Main.thy ===== *)
theory Ftp_Main
  imports Ftp_Correct
begin

text \<open>
  The FTP server from its start (\<open>src/FTP/ftp_server.c\<close>, lines 15 to 30 and 229 to 273): the
  listening socket, the connections that are served one after the other, and the handler that
  ends the server on a signal.
\<close>

section \<open>Start and signal handler\<close>

definition PORT :: nat where "PORT = 21"

definition EXIT_FAILURE :: int where "EXIT_FAILURE = 1"

text \<open>The answers of \<open>socket\<close>, of \<open>bind\<close> to a port and of \<open>listen\<close> with a backlog.\<close>

record ftp_boot =
  b_socket :: int
  b_bind :: "nat \<Rightarrow> bool"
  b_listen :: "nat \<Rightarrow> bool"

type_synonym ftp_connection = "int \<times> ftp_input list"

text \<open>The status with which \<open>main\<close> exits, if it does, and the events until then.\<close>

definition ftp_main :: "ftp_boot \<Rightarrow> ftp_connection list \<Rightarrow> (int option \<times> ftp_event list) res" where
  "ftp_main boot conns =
     (if b_socket boot = -1 then Inr (Some EXIT_FAILURE, [])
      else if \<not> b_bind boot PORT then Inr (Some EXIT_FAILURE, [])
      else if \<not> b_listen boot 10 then Inr (Some EXIT_FAILURE, [])
      else bind_res (accept_loop conns) (\<lambda>evs. Inr (None, evs)))"

text \<open>
  The global sockets; that of the client is 0 at first and then what the last \<open>accept\<close> returned.
\<close>

record ftp_globals =
  server_socket :: int
  client_socket :: int

definition globals_after :: "ftp_boot \<Rightarrow> ftp_connection list \<Rightarrow> ftp_globals" where
  "globals_after boot conns =
     \<lparr>server_socket = b_socket boot, client_socket = last (0 # map fst conns)\<rparr>"

definition signal_callback_handler :: "int \<Rightarrow> ftp_globals \<Rightarrow> int \<times> ftp_event list" where
  "signal_callback_handler signum g = (signum, [Close (server_socket g), Close (client_socket g)])"

section \<open>Connections\<close>

definition served :: "ftp_connection list \<Rightarrow> ftp_connection list" where
  "served conns = filter (\<lambda>x. fst x \<noteq> -1) conns"

text \<open>The events of a connection: those of its session, and its end unless it still waits.\<close>

definition connection_events :: "ftp_connection \<Rightarrow> bool \<Rightarrow> ftp_event list \<Rightarrow> bool" where
  "connection_events x closed g \<longleftrightarrow>
     (\<exists>s evs. handle_ftp_commands (fst x) (snd x) = Inr (\<not> closed, s, evs) \<and>
        g = (if closed then evs @ [Close (fst x)] else evs))"

text \<open>All connections but the last of these groups are closed; if others follow, the last still waits.\<close>

inductive serves :: "ftp_connection list \<Rightarrow> ftp_event list list \<Rightarrow> bool" where
  idle: "serves [] []"
| waiting: "connection_events x False g \<Longrightarrow> serves (x # xs) [g]"
| closed: "connection_events x True g \<Longrightarrow> serves xs gs \<Longrightarrow> serves (x # xs) (g # gs)"

lemma accept_loop_serves:
  "accept_loop conns = Inr evs \<Longrightarrow> \<exists>gs. serves (served conns) gs \<and> evs = concat gs"
proof (induction conns arbitrary: evs rule: accept_loop.induct)
  case 1
  then show ?case by (auto simp: served_def intro: serves.idle)
next
  case (2 c inputs rest)
  show ?case
  proof (cases "c = -1")
    case True
    then show ?thesis using 2 by (simp add: served_def)
  next
    case False
    then obtain go s evs1 where h: "handle_ftp_commands c inputs = Inr (go, s, evs1)"
      and more: "(if go then Inr evs1
        else bind_res (accept_loop rest) (\<lambda>evs'. Inr (evs1 @ [Close c] @ evs'))) = Inr evs"
      using 2(3) by (auto simp: bind_res_eq_Inr)
    have sv: "served ((c, inputs) # rest) = (c, inputs) # served rest" using False by (simp add: served_def)
    show ?thesis
    proof (cases go)
      case True
      then have "connection_events (c, inputs) False evs" using h more by (auto simp: connection_events_def)
      from serves.waiting [OF this] show ?thesis unfolding sv by (intro exI [of _ "[evs]"]) simp
    next
      case go: False
      then obtain evs2 where evs2: "accept_loop rest = Inr evs2" "evs = (evs1 @ [Close c]) @ evs2"
        using more by (auto simp: bind_res_eq_Inr)
      obtain gs where "serves (served rest) gs" "evs2 = concat gs"
        using 2(2) [OF False h refl refl go evs2(1)] by blast
      moreover have "connection_events (c, inputs) True (evs1 @ [Close c])"
        using h go by (auto simp: connection_events_def)
      ultimately show ?thesis
        using evs2(2) serves.closed unfolding sv by (intro exI [of _ "(evs1 @ [Close c]) # gs"]) simp
    qed
  qed
qed

lemma serves_groups:
  "serves xs gs \<Longrightarrow> length gs \<le> length xs \<and>
    (\<forall>i < length gs. \<exists>closed. connection_events (xs ! i) closed (gs ! i) \<and> (Suc i < length gs \<longrightarrow> closed))"
proof (induction rule: serves.induct)
  case (closed x g xs gs)
  then show ?case by (auto simp: less_Suc_eq_0_disj)
qed auto

text \<open>A session ends when \<open>recv\<close> fails.\<close>

lemma loop_ends:
  "command_loop c inputs s = Inr (go, t, evs) \<Longrightarrow> None \<in> set (map fst inputs) \<Longrightarrow> \<not> go"
proof (induction c inputs s arbitrary: go t evs rule: command_loop.induct)
  case (3 c bs env rest s)
  then obtain go1 s1 evs1 where cmd:
    "ftp_command c env (bs @ replicate (BUFFER_SIZE - length bs) 0) s = Inr (go1, s1, evs1)"
    by (auto simp: bind_res_eq_Inr)
  show ?case
  proof (cases go1)
    case True
    then obtain go2 t2 evs2 where "command_loop c rest s1 = Inr (go2, t2, evs2)" "go = go2"
      using 3(2) cmd by (auto simp: bind_res_eq_Inr)
    then show ?thesis using 3(1) [OF cmd refl refl True, of go2 t2 evs2] 3(3) by simp
  qed (use 3(2) cmd in auto)
qed auto

lemma session_ends:
  "handle_ftp_commands c inputs = Inr (go, s, evs) \<Longrightarrow> None \<in> set (map fst inputs) \<Longrightarrow> \<not> go"
  using loop_ends [of c inputs new_session go s] by (auto simp: handle_ftp_commands_def bind_res_eq_Inr)

lemma serves_all:
  "serves xs gs \<Longrightarrow> \<forall>x \<in> set xs. None \<in> set (map fst (snd x)) \<Longrightarrow>
   length gs = length xs \<and> (\<forall>i < length gs. connection_events (xs ! i) True (gs ! i))"
proof (induction rule: serves.induct)
  case (waiting x g xs)
  then have "None \<in> set (map fst (snd x))" by simp
  then show ?case using waiting(1) session_ends unfolding connection_events_def by blast
next
  case (closed x g xs gs)
  then show ?case by (auto simp: less_Suc_eq_0_disj)
qed simp

text \<open>The replies of a session with at most \<open>n\<close> commands.\<close>

definition session_replies :: "int \<Rightarrow> nat \<Rightarrow> ftp_event list \<Rightarrow> bool" where
  "session_replies c n evs \<longleftrightarrow>
     (\<exists>groups. reply_codes c evs = ascii ''220'' # concat groups \<and> length groups \<le> n \<and>
        (\<forall>g \<in> set groups. proper_replies g))"

lemma session_proper:
  assumes "handle_ftp_commands c inputs = Inr (go, s, evs)"
    and "\<forall>x \<in> set inputs. \<forall>d. e_accept (snd x) d \<noteq> c"
  shows "session_replies c (length inputs) evs"
proof -
  from assms(1) obtain evs1 where loop: "command_loop c inputs new_session = Inr (go, s, evs1)"
    and evs: "evs = reply c ''220 Welcome to FTP server'' # evs1"
    by (auto simp: handle_ftp_commands_def bind_res_eq_Inr)
  from loop_proper [OF loop assms(2)] evs show ?thesis by (auto simp: session_replies_def)
qed

lemma connection_proper:
  assumes "connection_events x closed g" and "\<forall>y \<in> set (snd x). \<forall>d. e_accept (snd y) d \<noteq> fst x"
  shows "session_replies (fst x) (length (snd x)) g"
  using assms session_proper [OF _ assms(2)]
  by (auto simp: connection_events_def session_replies_def reply_codes_def)

section \<open>Passive sockets\<close>

lemma command_QUIT:
  "ftp_command c env (received (ascii ''QUIT'')) s = Inr (False, s, [reply c ''221 Goodbye!''])"
proof -
  have "0 \<notin> set (ascii ''QUIT'')" "length (ascii ''QUIT'') < BUFFER_SIZE" by (simp_all add: BUFFER_SIZE_def)
  from received_line [OF this] show ?thesis by (simp add: ftp_command_def strncmp_eq_def)
qed

definition passive_ok :: "ftp_env \<Rightarrow> bool" where
  "passive_ok env \<longleftrightarrow> e_socket env \<noteq> -1 \<and> e_bind env \<and> e_listen env \<and> e_getsockname env"

lemma pasv_opens:
  assumes "passive_ok env"
  shows "\<exists>r. ftp_command c env (received (ascii ''PASV'')) s =
    Inr (True, s\<lparr>data_socket := e_socket env\<rparr>, [Send c r])"
proof -
  have "0 \<notin> set (ascii ''PASV'')" "length (ascii ''PASV'') < BUFFER_SIZE" "strncmp_eq (ascii ''PASV'') ''PASV''"
    by (simp_all add: BUFFER_SIZE_def strncmp_eq_def)
  from command_PASV [OF this] show ?thesis
    using assms
    by (auto simp: cmd_PASV_def open_passive_data_socket_def passive_ok_def send_response_def Let_def)
qed

text \<open>A session of one \<open>PASV\<close> after the other.\<close>

lemma loop_pasv:
  "\<forall>env \<in> set envs. passive_ok env \<Longrightarrow>
   \<exists>s' evs. command_loop c (map (\<lambda>env. (Some (ascii ''PASV''), env)) envs @ rest) s =
     bind_res (command_loop c rest s') (\<lambda>(go, t, evs'). Inr (go, t, evs @ evs')) \<and>
     (\<forall>e \<in> set evs. \<exists>r. e = Send c r) \<and> length evs = length envs \<and>
     data_socket s' = last (data_socket s # map e_socket envs)"
proof (induction envs arbitrary: s)
  case Nil
  have "bind_res r (\<lambda>(go, t, evs'). Inr (go, t, [] @ evs')) = r" for r :: "(bool \<times> ftp_session \<times> ftp_event list) res"
    by (cases r) auto
  then show ?case by (intro exI [of _ s] exI [of _ "[]"]) simp
next
  case (Cons env envs)
  let ?s = "s\<lparr>data_socket := e_socket env\<rparr>"
  obtain r where r: "ftp_command c env (received (ascii ''PASV'')) s = Inr (True, ?s, [Send c r])"
    using pasv_opens Cons(2) by fastforce
  obtain s' evs where IH: "command_loop c (map (\<lambda>env. (Some (ascii ''PASV''), env)) envs @ rest) ?s =
        bind_res (command_loop c rest s') (\<lambda>(go, t, evs'). Inr (go, t, evs @ evs'))"
      "\<forall>e \<in> set evs. \<exists>r. e = Send c r" "length evs = length envs"
      "data_socket s' = last (data_socket ?s # map e_socket envs)"
    using Cons(1) [of ?s] Cons(2) by auto
  show ?case
    using r IH by (intro exI [of _ s'] exI [of _ "Send c r # evs"])
      (cases "command_loop c rest s'"; auto simp: received_def)
qed

end
