(* ===== verification/Ftp_Properties.thy ===== *)
theory Ftp_Properties
  imports Ftp_Main
begin

text \<open>Properties of the FTP server, each with its evaluation at a concrete command.\<close>

definition demo_ftp :: ftp_env where
  "demo_ftp = \<lparr>e_getcwd = ascii ''/srv'', e_chdir = (\<lambda>_. True), e_mkdir = (\<lambda>_. True),
     e_rmdir = (\<lambda>_. False), e_socket = 7, e_bind = True, e_listen = True, e_getsockname = True,
     e_port = 50005, e_ip = ascii ''10.0.0.1'', e_accept = (\<lambda>_. 9), e_creates = (\<lambda>_. True),
     e_chunks = [[1, 2], [3]], e_file = (\<lambda>_. None), e_dir = Some [], e_stat = (\<lambda>_. None),
     e_time = (\<lambda>_. [])\<rparr>"


definition demo_session :: "ftp_input list" where
  "demo_session = [(Some (ascii ''PWD''), demo_ftp), (None, demo_ftp)]"

lemma demo_pwd:
  "ftp_command 4 demo_ftp (received (ascii ''PWD'')) new_session = Inr (True, new_session, cmd_PWD 4 demo_ftp)"
proof -
  have "0 \<notin> set (ascii ''PWD'')" "length (ascii ''PWD'') < BUFFER_SIZE" by (simp_all add: BUFFER_SIZE_def)
  from received_line [OF this] show ?thesis by (simp add: ftp_command_def strncmp_eq_def)
qed

lemma demo_session_run:
  "handle_ftp_commands 4 demo_session =
     Inr (False, new_session, reply 4 ''220 Welcome to FTP server'' # cmd_PWD 4 demo_ftp)"
  using demo_pwd by (simp add: handle_ftp_commands_def demo_session_def received_def)


text \<open>
  C36. What is stored is what is retrieved: a STOR of a file followed by a RETR of the same name
  by a client that finds the files as the first command has left them. The bytes sent on the data
  connection are those received on the one before, in pieces of at most 1024 bytes, and both
  data connections and their passive sockets are closed.
\<close>

theorem ftp_store_then_retrieve:
  assumes "is_word f" and "length f < NAME_SIZE" and "e_creates env f"
    and "e_accept env (data_socket s) \<noteq> -1" and "e_accept env2 (data_socket s2) \<noteq> -1"
    and "e_accept env2 (data_socket s2) \<noteq> c2"
    and "ftp_command c env (received (command_line ''STOR'' f)) s = Inr (go, t, evs)"
    and "e_file env2 = files_after evs files"
  shows "\<exists>evs2 data. ftp_command c2 env2 (received (command_line ''RETR'' f)) s2 = Inr (True, s2, evs2) \<and>
    data = sent_on (e_accept env2 (data_socket s2)) evs2 \<and> concat data = concat (e_chunks env) \<and>
    (\<forall>bs \<in> set data. length bs \<le> BUFFER_SIZE) \<and>
    {Close (e_accept env (data_socket s)), Close (data_socket s)} \<subseteq> set evs \<and>
    {Close (e_accept env2 (data_socket s2)), Close (data_socket s2)} \<subseteq> set evs2"
proof -
  let ?a = "e_accept env2 (data_socket s2)"
  have "e_file env2 f = Some (concat (e_chunks env))"
    and closed: "{Close (e_accept env (data_socket s)), Close (data_socket s)} \<subseteq> set evs"
    using assms(7,8) command_STOR [OF command_line_fits [OF assms(1,2)]] stor_events [OF assms(1,2,4)] assms(3)
    by (auto simp: receive_file_def close_data_def)
  then have "send_file env2 ?a f = send_loop ?a (concat (e_chunks env))"
    by (simp add: send_file_def)
  then show ?thesis
    using command_RETR [OF command_line_fits [OF assms(1,2)]] retr_events [OF assms(1,2,5)]
      closed assms(6) send_loop_bounded concat_send_loop
    by (auto simp: close_data_def)
qed

lemma demo_stor:
  "ftp_command 4 demo_ftp (received (command_line ''STOR'' [97])) new_session =
     Inr (True, new_session, [reply 4 ''150 Opening data connection for STOR.'',
       Write_file [97] [1, 2, 3], reply 4 ''226 File transfer complete.'', Close 9, Close (-1)])"
proof -
  have f: "is_word [97]" "length [97 :: byte] < NAME_SIZE"
    by (simp_all add: is_word_def isspace_def NAME_SIZE_def)
  show ?thesis
    using command_STOR [OF command_line_fits [OF f]] stor_events [OF f, of demo_ftp new_session]
    by (simp add: demo_ftp_def receive_file_def close_data_def new_session_def)
qed

theorem ftp_store_then_retrieve_witness:
  "\<exists>evs2. ftp_command 5 (demo_ftp\<lparr>e_file := (\<lambda>_. None)([97] \<mapsto> [1, 2, 3])\<rparr>)
      (received (command_line ''RETR'' [97])) new_session = Inr (True, new_session, evs2) \<and>
    concat (sent_on 9 evs2) = [1, 2, 3]"
proof -
  have "is_word [97]" "length [97 :: byte] < NAME_SIZE"
    by (simp_all add: is_word_def isspace_def NAME_SIZE_def)
  from ftp_store_then_retrieve [OF this _ _ _ _ demo_stor, of
      "demo_ftp\<lparr>e_file := (\<lambda>_. None)([97] \<mapsto> [1, 2, 3])\<rparr>" new_session 5 "\<lambda>_. None"]
  show ?thesis by (auto simp: demo_ftp_def)
qed

text \<open>
  C37. LIST sends, between its two replies, the lines of the files of the working directory in
  the order of the directory, cut to 1023 bytes with the line break that ends them. When the lines
  together do not fit the 8192 bytes of the listing they are written past its end, and when the
  directory cannot be opened a string literal is freed.
\<close>

theorem ftp_list_reply:
  assumes "e_accept env (data_socket s) = a" and "a \<noteq> -1" and "a \<noteq> c"
  shows "case e_dir env of
      None \<Rightarrow> ftp_command c env (received (ascii ''LIST'' @ crlf)) s = Inl Bad_free
    | Some names \<Rightarrow>
        (let lines = concat (listing_lines env names)
         in if length lines < LIST_BUFFER_SIZE
            then \<exists>evs. ftp_command c env (received (ascii ''LIST'' @ crlf)) s = Inr (True, s, evs) \<and>
              sent_on a evs = [take 1023 (lines @ crlf)] \<and>
              reply_codes c evs = [ascii ''150'', ascii ''226'']
            else ftp_command c env (received (ascii ''LIST'' @ crlf)) s = Inl Out_of_bounds)"
proof -
  have "0 \<notin> set (ascii ''LIST'' @ crlf)" "length (ascii ''LIST'' @ crlf) < BUFFER_SIZE"
    "strncmp_eq (ascii ''LIST'' @ crlf) ''LIST''"
    by (simp_all add: BUFFER_SIZE_def strncmp_eq_def)
  note cmd = command_LIST [OF this]
  show ?thesis
    unfolding cmd using assms
    by (auto simp: cmd_LIST_def accept_passive_connection_def get_listing_def listing_loop_lines
        LIST_BUFFER_SIZE_def Let_def send_response_def snprintf_def BUFFER_SIZE_def split: option.split)
qed

definition demo_list :: ftp_env where
  "demo_list = demo_ftp\<lparr>e_dir := Some [[97]],
     e_stat := (\<lambda>_. Some \<lparr>s_dev = 0, s_ino = 0, s_mode = 0x81A4, s_nlink = 1, s_uid = 0, s_gid = 0,
       s_rdev = 0, s_size = 12, s_atim = \<lparr>tv_sec = 0, tv_nsec = 0\<rparr>,
       s_mtim = \<lparr>tv_sec = 0, tv_nsec = 0\<rparr>, s_ctim = \<lparr>tv_sec = 0, tv_nsec = 0\<rparr>\<rparr>)\<rparr>"

lemma demo_lines:
  "concat (listing_lines demo_list [[97]]) = ascii ''-rw-r--r-- 1 0 12  a'' @ [10]"
  by (simp add: listing_lines_def map_filter_simps demo_list_def demo_ftp_def get_file_line_def
      mode_string_def mode_char_def mode_is_dir_def snprintf_def show_int_def dec_digits.simps ascii_def)

theorem ftp_list_reply_witness:
  "\<exists>evs. ftp_command 4 demo_list (received (ascii ''LIST'' @ crlf)) new_session =
      Inr (True, new_session, evs) \<and>
    sent_on 9 evs = [ascii ''-rw-r--r-- 1 0 12  a'' @ [10] @ crlf]"
  using ftp_list_reply [of demo_list new_session 9 4] demo_lines
  by (auto simp: demo_list_def demo_ftp_def LIST_BUFFER_SIZE_def Let_def)



text \<open>
  C39. The reply to PASV announces the port of the passive socket: the two numbers at its end,
  printed in decimal, are the port divided by 256 and the remainder, from which a client
  computes the port. When no socket can be opened the reply is 425, and a socket that was created
  is closed.
\<close>

theorem ftp_passive_port:
  assumes "length (e_ip env) < 16"
  shows "\<exists>high low. undec high * 256 + undec low = unat (e_port env) \<and>
    cmd_PASV c env s =
      (if e_socket env = -1 then (s\<lparr>data_socket := -1\<rparr>, [no_data_connection c])
       else if e_bind env \<and> e_listen env \<and> e_getsockname env
       then (s\<lparr>data_socket := e_socket env\<rparr>,
         [Send c (ascii ''227 Entering Passive Mode ('' @
           map (\<lambda>b. if b = 46 then 44 else b) (e_ip env) @ [44] @ high @ [44] @ low @ ascii '').'' @ crlf)])
       else (s\<lparr>data_socket := -1\<rparr>, [Close (e_socket env), no_data_connection c]))"
proof -
  let ?high = "dec_digits (unat (e_port env) div 256)" and ?low = "dec_digits (unat (e_port env) mod 256)"
  have "length ?high \<le> 3" "length ?low \<le> 3"
    using unat_u16_bound [of "e_port env"] by (auto intro!: dec_digits_short)
  with assms show ?thesis
    by (intro exI [of _ ?high] exI [of _ ?low])
      (simp add: undec_dec_digits cmd_PASV_def open_passive_data_socket_def get_server_ip_address_def
        get_data_port_high_def get_data_port_low_def Let_def send_response_def snprintf_def
        BUFFER_SIZE_def)
qed

theorem ftp_passive_port_witness:
  "\<exists>high low. undec high * 256 + undec low = 50005 \<and>
    cmd_PASV 4 demo_ftp new_session = (new_session\<lparr>data_socket := 7\<rparr>,
      [Send 4 (ascii ''227 Entering Passive Mode (10,0,0,1,'' @ high @ [44] @ low @ ascii '').'' @ crlf)])"
  using ftp_passive_port [of demo_ftp 4 new_session] by (simp add: demo_ftp_def ascii_def)

section \<open>The server\<close>

text \<open>
  C35. The whole server: it exits with a failure if one of the calls that make the listening socket
  fails, and otherwise serves the accepted connections one after the other. Each is greeted and
  its commands are answered; it is closed before the next one is served; and if every session
  ends, all connections are served and closed.
\<close>

theorem ftp_server_connections:
  assumes "ftp_main boot conns = Inr (status, evs)"
    and "\<forall>x \<in> set conns. \<forall>y \<in> set (snd x). \<forall>d. e_accept (snd y) d \<noteq> fst x"
  shows "if b_socket boot = -1 \<or> \<not> b_bind boot PORT \<or> \<not> b_listen boot 10
    then status = Some EXIT_FAILURE \<and> evs = []
    else status = None \<and> (\<exists>groups. evs = concat groups \<and> length groups \<le> length (served conns) \<and>
      (\<forall>i < length groups. session_replies (fst (served conns ! i)) (length (snd (served conns ! i))) (groups ! i) \<and>
        (Suc i < length groups \<longrightarrow> last (groups ! i) = Close (fst (served conns ! i)))) \<and>
      ((\<forall>x \<in> set conns. None \<in> set (map fst (snd x))) \<longrightarrow> length groups = length (served conns) \<and>
        (\<forall>i < length groups. last (groups ! i) = Close (fst (served conns ! i)))))"
proof (cases "b_socket boot = -1 \<or> \<not> b_bind boot PORT \<or> \<not> b_listen boot 10")
  case True
  then show ?thesis using assms(1) by (auto simp: ftp_main_def split: if_splits)
next
  case False
  then have "status = None" "accept_loop conns = Inr evs"
    using assms(1) by (auto simp: ftp_main_def bind_res_eq_Inr)
  moreover from accept_loop_serves [OF this(2)]
  obtain gs where gs: "serves (served conns) gs" "evs = concat gs" by blast
  note sg = serves_groups [OF gs(1)]
  have last: "connection_events x True g \<Longrightarrow> last g = Close (fst x)" for x g
    by (auto simp: connection_events_def)
  have proper: "connection_events x closed g \<Longrightarrow> x \<in> set (served conns) \<Longrightarrow>
      session_replies (fst x) (length (snd x)) g" for x closed g
    using connection_proper [of x closed g] assms(2) by (auto simp: served_def)
  have "session_replies (fst (served conns ! i)) (length (snd (served conns ! i))) (gs ! i) \<and>
      (Suc i < length gs \<longrightarrow> last (gs ! i) = Close (fst (served conns ! i)))" if i: "i < length gs" for i
  proof -
    obtain closed where c: "connection_events (served conns ! i) closed (gs ! i)" "Suc i < length gs \<longrightarrow> closed"
      using sg i by blast
    have "served conns ! i \<in> set (served conns)" using sg i by (intro nth_mem) simp
    then show ?thesis using proper [OF c(1)] last [of "served conns ! i" "gs ! i"] c by auto
  qed
  moreover have "length gs = length (served conns) \<and> (\<forall>i < length gs. last (gs ! i) = Close (fst (served conns ! i)))"
    if ends: "\<forall>x \<in> set conns. None \<in> set (map fst (snd x))"
  proof -
    have "\<forall>x \<in> set (served conns). None \<in> set (map fst (snd x))" using ends by (simp add: served_def)
    from serves_all [OF gs(1) this] show ?thesis using last by blast
  qed
  ultimately show ?thesis using False sg gs(2) by auto
qed

definition demo_boot :: ftp_boot where
  "demo_boot = \<lparr>b_socket = 3, b_bind = (\<lambda>port. port = 21), b_listen = (\<lambda>_. True)\<rparr>"

theorem ftp_server_connections_witness:
  "\<exists>groups. reply 4 ''220 Welcome to FTP server'' # cmd_PWD 4 demo_ftp @ [Close 4] = concat groups \<and>
    length groups = 1 \<and> session_replies 4 2 (hd groups) \<and> last (hd groups) = Close 4"
proof -
  have run: "ftp_main demo_boot [(-1, demo_session), (4, demo_session)] =
      Inr (None, reply 4 ''220 Welcome to FTP server'' # cmd_PWD 4 demo_ftp @ [Close 4])"
    using demo_session_run by (simp add: ftp_main_def demo_boot_def PORT_def)
  have other: "\<forall>x \<in> set [(-1, demo_session), (4, demo_session)]. \<forall>y \<in> set (snd x). \<forall>d. e_accept (snd y) d \<noteq> fst x"
    by (simp add: demo_session_def demo_ftp_def)
  have sv: "served [(-1, demo_session), (4, demo_session)] = [(4, demo_session)]" by (simp add: served_def)
  have boot: "\<not> (b_socket demo_boot = -1 \<or> \<not> b_bind demo_boot PORT \<or> \<not> b_listen demo_boot 10)"
    by (simp add: demo_boot_def PORT_def)
  have ends: "\<forall>x \<in> set [(-1 :: int, demo_session), (4, demo_session)]. None \<in> set (map fst (snd x))"
    by (simp add: demo_session_def)
  obtain groups where g: "reply 4 ''220 Welcome to FTP server'' # cmd_PWD 4 demo_ftp @ [Close 4] = concat groups"
      "length groups = length [(4 :: int, demo_session)]"
      "\<forall>i < length groups. session_replies (fst ([(4, demo_session)] ! i)) (length (snd ([(4 :: int, demo_session)] ! i))) (groups ! i)"
      "\<forall>i < length groups. last (groups ! i) = Close (fst ([(4, demo_session)] ! i))"
    using ftp_server_connections [OF run other, unfolded sv if_not_P [OF boot]] ends by blast
  then have "length groups = 1" "hd groups = groups ! 0" "length demo_session = 2"
    by (cases groups; simp add: demo_session_def)+
  then show ?thesis using g by (intro exI [of _ groups]) simp
qed

text \<open>
  C40. Passive sockets that are lost: a client that sends \<open>PASV\<close> any number of times and then
  \<open>QUIT\<close> leaves as many listening sockets behind, for no descriptor is closed.
\<close>

theorem ftp_passive_sockets_lost:
  assumes "\<forall>env \<in> set envs. passive_ok env"
  shows "\<exists>s evs. handle_ftp_commands c
      (map (\<lambda>env. (Some (ascii ''PASV''), env)) envs @ [(Some (ascii ''QUIT''), env)]) = Inr (False, s, evs) \<and>
    length evs = length envs + 2 \<and> data_socket s = last (-1 # map e_socket envs) \<and>
    (\<forall>d. Close d \<notin> set evs)"
proof -
  obtain s evs where l: "command_loop c (map (\<lambda>env. (Some (ascii ''PASV''), env)) envs @
        [(Some (ascii ''QUIT''), env)]) new_session =
      bind_res (command_loop c [(Some (ascii ''QUIT''), env)] s) (\<lambda>(go, t, evs'). Inr (go, t, evs @ evs'))"
      "\<forall>e \<in> set evs. \<exists>r. e = Send c r" "length evs = length envs"
      "data_socket s = last (data_socket new_session # map e_socket envs)"
    using loop_pasv [OF assms] by blast
  have "command_loop c [(Some (ascii ''QUIT''), env)] s = Inr (False, s, [reply c ''221 Goodbye!''])"
    using command_QUIT [of c env s] by (simp add: received_def)
  then show ?thesis
    using l by (auto simp: handle_ftp_commands_def new_session_def reply_def send_response_def)
qed

theorem ftp_passive_sockets_lost_witness:
  "\<exists>s evs. handle_ftp_commands 4 [(Some (ascii ''PASV''), demo_ftp), (Some (ascii ''PASV''), demo_ftp),
      (Some (ascii ''QUIT''), demo_ftp)] = Inr (False, s, evs) \<and> length evs = 4 \<and> (\<forall>d. Close d \<notin> set evs)"
proof -
  have "\<forall>env \<in> set [demo_ftp, demo_ftp]. passive_ok env" by (simp add: passive_ok_def demo_ftp_def)
  from ftp_passive_sockets_lost [OF this, of 4 demo_ftp] show ?thesis by (auto simp del: ascii_commands)
qed

end
