(* ===== verification/Spec2Isabelle.thy ===== *)
theory Spec2Isabelle
  imports Fat_Properties Fat_Tree_Properties Nfs_Properties Ftp_Properties
begin

text \<open>
  A verification development for a repository with three programs: a FAT-like file system over
  FUSE (\<open>src/FAT/fat.c\<close>), an NFS version 3 server (\<open>src/NFS\<close>) and an FTP server (\<open>src/FTP\<close>).

  \<^bold>\<open>Conventions.\<close> C functions are functions from their arguments and the state to a result
  \<open>'a res\<close>: \<open>Inl\<close> a fault (a failed \<open>assert\<close>, an access outside an object, a division by zero, a
  loop that never ends), \<open>Inr\<close> the values the function returns and stores. \<open>unsigned int\<close> is
  \<open>32 word\<close>, a cluster or buffer a list of bytes, a path the bytes of the string before its
  terminator. Reads and writes of memory go through \<open>peek\<close> and \<open>poke\<close>, which check bounds.

  \<^bold>\<open>The file system.\<close> The state is the record \<open>fs\<close>: the superblock, the table in memory, the
  bytes of the disk file, and what the code takes from its environment (the bytes behind a heap
  buffer, the clock).

  \<^item> \<open>Fat_Disk\<close> (lines 29 to 164, 634 to 649): the superblock, whole-cluster reads and writes, the
    superblock's image. \<open>geometry\<close> says what the code relies on of the superblock, \<open>synced\<close> that
    disk and memory agree. The clusters satisfy the laws of the locale \<open>block_store\<close>.
  \<^item> \<open>Fat_Table\<close> (166 to 217): the table and the loops over it. \<open>chain s c cs\<close> says that the links
    from \<open>c\<close> visit the clusters \<open>cs\<close>. Loops have as fuel one more than the bytes of the table;
    C21 shows that a loop uses it up only if it never ends.
  \<^item> \<open>Fat_Alloc\<close> (219 to 292): the free list. \<open>alloc_inv s fl cls\<close>: the free list is \<open>fl\<close>, the
    allocated chains are \<open>cls\<close>, all are disjoint, disk and memory agree. The locale \<open>allocator\<close> is
    the contract its clients see; \<open>alloc_step\<close> is the relation of all its operations.
  \<^item> \<open>Fat_Dir\<close>, \<open>Fat_Dir_Correct\<close> (62 to 70, 294 to 435, 519 to 546): directories as slots of
    clusters. \<open>dir_lookup\<close> is the abstract map from names to entries; the lemmas show what every
    operation does to it. \<open>dir_ok\<close> says that all names are terminated and no entry crosses the
    end of a cluster, which the code does not prevent by itself.
  \<^item> \<open>Fat_Path\<close>, \<open>Fat_Create\<close> (79 to 105, 437 to 517): splitting and resolving paths, adding
    entries at a path. \<open>resolves\<close> is the relation between names and directories.
  \<^item> \<open>Fat_File\<close>, \<open>Fat_Write\<close> (548 to 632, 852 to 890): contents of files. \<open>file_bytes\<close> is the
    abstract contents of a chain; a write is a \<open>splice\<close> of it.
  \<^item> \<open>Fat_Mount\<close> (651 to 710): formatting and mounting.
  \<^item> \<open>Fat_Ops\<close>, \<open>Fat_Ops_Correct\<close> (720 to 996): the handlers.
  \<^item> \<open>Fat_Example\<close>: states the program reaches from its start, at which the properties are
    instantiated; \<open>Fat_Properties\<close> and this theory: the properties C14 to C24.

  \<^bold>\<open>The file system as a tree.\<close> What the operations promise together is stated without clusters:
  a \<open>tree\<close> maps paths to folders and to files with their bytes.

  \<^item> \<open>Fat_Spec\<close>: trees, the operations \<open>fs_op\<close> with the handlers that execute them (\<open>fat_exec\<close>), and
    \<open>fs_spec T op r T'\<close>, the specification of each operation with its return value.
  \<^item> \<open>Fat_Tree\<close>: a \<open>layout\<close> gives every object of the tree its clusters. \<open>tree_inv s fl L\<close> is the
    invariant of the whole disk: the chains of \<open>L\<close> and the free list \<open>fl\<close> share all data clusters
    between them, and every folder holds exactly the entries of its children. \<open>tree_of\<close> is the
    abstraction, \<open>represents\<close> the relation between states and trees; \<open>tree_update\<close> is the one lemma
    through which every operation restores the invariant.
  \<^item> \<open>Fat_Refine\<close>: every handler refines its specification. \<open>op_ok\<close> lists the limits within which
    it does: names of 1 to 21 bytes that are neither a dot nor two dots and are new in their folder,
    at most \<open>max_children\<close> = 100 names in a folder of one cluster (behind that the code writes past
    its buffer, C13), files that exist, non-empty writes below 4 GB, and not exactly one cluster too
    few, which is a fault (C20). \<open>demand\<close> is the number of clusters an operation needs.
  \<^item> \<open>Runs_Traces\<close>: runs with visible and silent steps, and the locale \<open>simulation\<close>, the interface
    between a program and its specification under which traces of the one are traces of the other.
    It is interpreted twice, for the handlers and for whole sessions.
  \<^item> \<open>Fat_Runs\<close>: \<open>fs_run\<close>, the runs with their traces, through operations, changes of clock and heap,
    and restarts; \<open>spec_run\<close>, the traces of the specification. \<open>Fat_Queries\<close>: what \<open>getattr\<close>,
    \<open>access\<close>, \<open>open\<close>, \<open>readdir\<close>, \<open>read\<close> and \<open>statfs\<close> answer, from the tree.
  \<^item> \<open>Fat_Fuse\<close> (998 to 1017): the table of handlers as the function that serves a request, and
    listings that are interrupted and resumed.
  \<^item> \<open>Fat_Main\<close> (712 to 718, 1019 to 1028): \<open>main\<close> as the choice of the disk file among the files of
    the system, \<open>fat_destroy\<close> as what remains of the state, and \<open>sessions\<close>, the runs of the program
    from \<open>main\<close> to \<open>fat_destroy\<close>, one after the other.
  \<^item> \<open>Fat_Limits\<close>: no folder holds more than \<open>max_children\<close> names, and a run that creates that many,
    after which the next creation writes past the buffer; so the limit of \<open>op_ok\<close> is exact.
    \<open>Fat_Tree_Properties\<close>: the properties C1 to C13.

  \<^bold>\<open>The NFS server.\<close> The state is the record \<open>nfs_state\<close>: the static results of the procedures. What
  the operating system answers during a request is the record \<open>nfs_env\<close>, a parameter.

  \<^item> \<open>Nfs_Types\<close> (\<open>nfs.h\<close>): constants, enumerations, structures.
  \<^item> \<open>Xdr_Stream\<close>: streams and the compositions of routines that encode, decode or free according to
    the stream. \<open>transmits\<close> is their contract: what is written is read back, bytes that do not fit
    are refused.
  \<^item> \<open>Nfs_Xdr\<close> (\<open>nfs_xdr.c\<close>): one definition per generated routine, over the primitive routines of the
    RPC library, which are the parameter \<open>X\<close>. \<open>xdr_entry3\<close> calls itself once per entry of a list;
    its bound is the length of the list, or the number of bytes left when a list is decoded.
  \<^item> \<open>Nfs_Xdr_Correct\<close>: the locale \<open>xdr_library\<close> states what the library documents; inside it every
    routine is shown to transmit every message whose numbers fit their encoding. \<open>Xdr_Rfc4506\<close> is a
    library with these laws, the encoding of RFC 4506.
  \<^item> \<open>Nfs_Tools\<close> (\<open>tools.c\<close>, \<open>tools.h\<close>, \<open>read.c\<close>): attributes, directory entries, handles, reading.
    \<open>Posix_Types\<close> holds the attributes of \<open>stat\<close>.
  \<^item> \<open>Nfs_Server\<close> (\<open>nfs_server.c\<close>): the procedures. \<open>Nfs_Svc\<close> (\<open>nfs_svc.c\<close>): the dispatch of requests,
    the registration of the programs by \<open>nfs_main\<close>, and \<open>svc_run\<close>, the runs of the server.
  \<^item> \<open>Nfs_Svc_Correct\<close>: \<open>results_ok\<close>, the invariant of the static results over all runs, and that the
    dispatch on the wire refines \<open>nfs_service\<close>, the procedures without the wire. \<open>Nfs_Client\<close>: a client
    that reads a file to its end (one request more than the file has bytes is enough) and LOOKUP
    from request to reply. \<open>Nfs_Walk\<close>: a client from MNT over LOOKUP to the contents of a file.
    \<open>Nfs_Example\<close>, \<open>Nfs_Properties\<close>: the properties C25 to C33.

  \<^bold>\<open>The FTP server.\<close> The state of a session is the record \<open>ftp_session\<close>, the answers of the system
  during a command are the record \<open>ftp_env\<close>, and a command returns the list of its events.

  \<^item> \<open>Ftp_Server\<close> (\<open>ftp_server.c\<close>): strings, listings, transfers, one definition per command, the command
    loop and the accept loop. \<open>Ftp_Correct\<close>: lemmas on replies, printed numbers, scanned words,
    transfers and listings. \<open>Ftp_Main\<close>: \<open>main\<close> with the listening socket, the connections it serves,
    and the handler of the signal that ends it. \<open>Ftp_Properties\<close>: the properties C34 to C40.

  \<^bold>\<open>Assumptions.\<close> The disk file is a regular file whose reads and writes do not fail for reasons
  of the device; \<open>malloc\<close> and \<open>calloc\<close> succeed; paths are shorter than 4 GB; calls are not
  concurrent. Bytes read behind a cluster buffer are those of \<open>heap_tail\<close>; writes there are faults.

  The NFS server is built for a platform where \<open>unsigned long\<close> has 64 bits, and the one byte it writes
  behind a handle is taken to belong to nobody. Replies of the FTP server are taken to be sent whole.

  \<^bold>\<open>Not modelled.\<close> Memory that is freed at the end of a session or never released; the options of
  \<open>fuse_main\<close>; the nanoseconds of a modification time, which the code leaves uninitialised; messages
  on the terminal; the prototypes of \<open>nfs.h\<close>, the copies of them for older compilers, and
  \<open>nfs.x\<close>, from which the modelled files are generated. The tree is shown for folders of one
  cluster; the code has steps for larger ones (they are covered by the lemmas on directories), but
  by C13 no run gets there without writing past a buffer, as long as the cluster size is no
  multiple of 40.
\<close>

declare One_nat_def [simp del] upt_rec_numeral [simp del]

section \<open>File contents\<close>

text \<open>
  C14. Writing to an existing file, anywhere and past its end: the call returns the number of
  bytes; exactly the clusters that were missing move from the free list to the end of the
  file's chain; the bytes at the offset are replaced and the rest of the contents, zeros
  included, stays; the directory entry gets the larger size; no other name of the directory
  and no other cluster changes; the invariants hold again.
\<close>

theorem fat_write_correct:
  fixes sz offset :: u64
  assumes inv: "alloc_inv s fl (fs # ps # cls)" and dir: "dir_ok s ps" "unique_names s ps"
    and par: "resolves s (root_cluster_start (superblock s)) nms (hd ps)" and nm: "component nm" "nm \<noteq> []"
    and ent: "dir_lookup s ps nm = Some e"
    and isfile: "de_type e = DIR_ENTRY_TYPE_FILE" "de_first_cluster e = hd fs"
    and size: "0 < unat (low32 sz)" "unat (low32 sz) \<le> length buf"
      "unat (low32 offset) + unat (low32 sz) < 2 ^ 32"
    and n: "n = unat (low32 offset) + unat (low32 sz)"
    and g: "g = clusters_for s n - length fs"
    and room: "g \<le> length fl"
  shows "\<exists>t. fat_write (path_of (nms @ [nm])) buf sz offset s = Inr (sint (low32 sz), t) \<and>
    alloc_inv t (drop g fl) ((fs @ take g fl) # ps # cls) \<and>
    file_bytes t (fs @ take g fl) = splice (file_bytes s fs @ replicate (g * sb_bpc s) 0)
      (unat (low32 offset)) (take (unat (low32 sz)) buf) \<and>
    dir_lookup t ps nm = Some (sized s e n) \<and>
    (\<forall>nm'. nm' \<noteq> nm \<longrightarrow> dir_lookup t ps nm' = dir_lookup s ps nm') \<and>
    dir_ok t ps \<and> unique_names t ps \<and> same_layout s t \<and>
    (\<forall>d. data_cluster s d \<longrightarrow> d \<notin> set (fs @ ps @ fl) \<longrightarrow> cluster_data t d = cluster_data s d)"
  unfolding fat_write_locates [OF inv dir(1) par nm(1) ent] n g
  using room unfolding n g by (rule update_file_ok [OF inv dir ent nm(2) isfile size])

theorem fat_write_correct_witness:
  "\<exists>t. fat_write (path_of [name_a]) [1, 2, 3] 3 0 disk_a = Inr (3, t) \<and>
    file_bytes t [5] = splice (replicate 4096 0) 0 [1, 2, 3]"
proof -
  have g: "0 = clusters_for disk_a 3 - length [5 :: u32]"
    by (simp add: clusters_for_def disk_a_facts(6))
  have res: "resolves disk_a (root_cluster_start (superblock disk_a)) [] (hd [4])"
    by (simp add: disk_a_facts(7) resolves_root)
  have ent: "dir_lookup disk_a [4] name_a = Some entry_a" by (simp add: disk_a_facts(4) entry_a_def)
  have p: "0 < unat (low32 3)" "unat (low32 3) \<le> length [1, 2, 3 :: byte]"
    "unat (low32 0) + unat (low32 3) < 2 ^ 32" "3 = unat (low32 0) + unat (low32 3)"
    "0 \<le> length (tl all_free)" "de_first_cluster entry_a = hd [5]"
    by simp_all
  from fat_write_correct [OF disk_a_facts(1-3) res name_a(2,3) ent entry_a_simps(1) p(6,1,2,3,4) g p(5)]
  obtain t where "fat_write (path_of ([] @ [name_a])) [1, 2, 3] 3 0 disk_a = Inr (sint (low32 3), t)"
      "file_bytes t ([5] @ take 0 (tl all_free)) =
        splice (file_bytes disk_a [5] @ replicate (0 * sb_bpc disk_a) 0) (unat (low32 0))
          (take (unat (low32 3)) [1, 2, 3])"
    by (elim exE conjE) (rule that)
  then show ?thesis by (simp add: disk_a_file)
qed

text \<open>
  Reading back what was written at the start of a cluster gives the same bytes, and both
  calls return their number.
\<close>

theorem write_then_read:
  fixes sz offset :: u64
  assumes inv: "alloc_inv s fl (fs # ps # cls)" and dir: "dir_ok s ps" "unique_names s ps"
    and par: "resolves s (root_cluster_start (superblock s)) nms (hd ps)" and nm: "component nm" "nm \<noteq> []"
    and ent: "dir_lookup s ps nm = Some e"
    and isfile: "de_type e = DIR_ENTRY_TYPE_FILE" "de_first_cluster e = hd fs"
      "unat (de_size e) \<le> length fs * sb_bpc s"
    and size: "0 < unat sz" "unat sz < 2 ^ 31" "unat sz \<le> length buf" "unat offset + unat sz < 2 ^ 32"
    and aligned: "unat offset mod sb_bpc s = 0"
    and room: "clusters_for s (unat offset + unat sz) - length fs \<le> length fl"
    and written: "fat_write (path_of (nms @ [nm])) buf sz offset s = Inr (r, t)"
    and par': "resolves t (root_cluster_start (superblock t)) nms (hd ps)"
  shows "r = int (unat sz) \<and>
    fat_read (path_of (nms @ [nm])) sz offset t = Inr (int (unat sz), take (unat sz) buf)"
proof -
  have lo: "unat (low32 sz) = unat sz" "unat (low32 offset) = unat offset"
    using size by (simp_all add: unat_low32)
  define g where "g = clusters_for s (unat offset + unat sz) - length fs"
  let ?F = "fs @ take g fl"
  obtain u where u: "fat_write (path_of (nms @ [nm])) buf sz offset s = Inr (sint (low32 sz), u)"
      "alloc_inv u (drop g fl) (?F # ps # cls)"
      "file_bytes u ?F = splice (file_bytes s fs @ replicate (g * sb_bpc s) 0)
        (unat offset) (take (unat sz) buf)"
      "dir_lookup u ps nm = Some (sized s e (unat offset + unat sz))" "dir_ok u ps" "same_layout s u"
    using update_file_ok [OF inv dir ent nm(2) isfile(1,2), of sz buf offset] size room
    unfolding fat_write_locates [OF inv dir(1) par nm(1) ent] lo g_def by auto
  have rt: "r = sint (low32 sz)" "t = u" using written u(1) by simp_all
  have r: "sint (low32 sz) = int (unat sz)" using size(2) lo(1) by (simp add: sint_u32)
  note i = alloc_invD [OF u(2)]
  have b: "sb_bpc u = sb_bpc s" using same_layoutD(1) [OF u(6)] by simp
  have F: "chain u (hd fs) ?F" "fs \<noteq> []" using i(5) [of ?F] alloc_invD(4) [OF inv, of fs] by auto
  have "0 < sb_bpc s" using geometryD(2) [OF alloc_invD(1) [OF inv]] by simp
  then have fits: "unat offset + unat sz \<le> length ?F * sb_bpc s"
    using g_def room [folded g_def] by (rule clusters_for_fits)
  let ?e = "sized s e (unat offset + unat sz)"
  have e: "unat offset + unat sz \<le> unat (de_size ?e)" "unat (de_size ?e) \<le> length ?F * sb_bpc u"
    "de_first_cluster ?e = hd fs"
    using size(4) fits isfile(2,3) b
    by (auto simp: sized_simps add_mult_distrib)
  have ps: "chain u (hd ps) ps" "ps \<noteq> []" using i(4,5) by auto
  have m: "min (unat (de_size ?e) - unat offset) (unat sz) = unat sz" using e(1) by simp
  have "fat_read (path_of (nms @ [nm])) sz offset u =
      Inr (sint (of_nat (unat sz) :: u32), read_result u ?F (unat offset) (unat sz))"
    using fat_read_ok [OF i(1) ps u(5) par' [unfolded rt(2)] nm u(4) _ e(2) size(1), of offset]
      e(1,3) F(1) size unfolding m by simp
  moreover have "sint (of_nat (unat sz) :: u32) = int (unat sz)"
    using size(2) by (simp add: sint_u32 unat_of_nat del: of_nat_unat)
  moreover have "read_result u ?F (unat offset) (unat sz) = take (unat sz) buf"
  proof -
    have "length (file_bytes s fs @ replicate (g * sb_bpc s) 0) = length ?F * sb_bpc s"
      using length_file_bytes [OF alloc_invD(1) [OF inv] alloc_invD(5) [OF inv, of fs]] room
      by (simp add: g_def add_mult_distrib)
    then have "slice (unat offset) (unat sz) (file_bytes u ?F) = take (unat sz) buf"
      using slice_splice_same [of "unat offset" "take (unat sz) buf"
          "file_bytes s fs @ replicate (g * sb_bpc s) 0"] u(3) fits size(3) by simp
    then show ?thesis using aligned b by (simp add: read_result_aligned)
  qed
  ultimately show ?thesis using rt r by simp
qed

theorem write_then_read_witness:
  "fat_read (path_of [name_a]) 3 0 disk_data = Inr (3, [1, 2, 3])"
proof -
  have res: "resolves disk_a (root_cluster_start (superblock disk_a)) [] (hd [4])"
    "resolves disk_data (root_cluster_start (superblock disk_data)) [] (hd [4])"
    by (simp_all add: disk_a_facts(7) disk_data_facts(8) resolves_root)
  have ent: "dir_lookup disk_a [4] name_a = Some entry_a" by (simp add: disk_a_facts(4) entry_a_def)
  have p: "de_first_cluster entry_a = hd [5]" "unat (de_size entry_a) \<le> length [5 :: u32] * sb_bpc disk_a"
    "0 < unat (3 :: u64)" "unat (3 :: u64) < 2 ^ 31" "unat (3 :: u64) \<le> length [1, 2, 3 :: byte]"
    "unat (0 :: u64) + unat (3 :: u64) < 2 ^ 32" "unat (0 :: u64) mod sb_bpc disk_a = 0"
    "clusters_for disk_a (unat (0 :: u64) + unat (3 :: u64)) - length [5 :: u32] \<le> length (tl all_free)"
    by (simp_all add: clusters_for_def disk_a_facts(6))
  from write_then_read [OF disk_a_facts(1-3) res(1) name_a(2,3) ent entry_a_simps(1) p
      disk_data_facts(1) res(2)]
  show ?thesis by simp
qed

text \<open>
  A read that starts at the beginning of a cluster returns the bytes of the file from the
  offset on, cut at the end of the file.
\<close>

theorem fat_read_aligned:
  fixes sz offset :: u64
  assumes "geometry s" and "chain s (hd ps) ps" and "ps \<noteq> []" and "dir_ok s ps"
    and "resolves s (root_cluster_start (superblock s)) nms (hd ps)" and "component nm" and "nm \<noteq> []"
    and "dir_lookup s ps nm = Some e" and "chain s (de_first_cluster e) cs"
    and "unat (de_size e) \<le> length cs * sb_bpc s"
    and "0 < unat sz" and "unat sz < 2 ^ 31" and "unat offset < unat (de_size e)"
    and "unat offset mod sb_bpc s = 0"
    and "n = min (unat (de_size e) - unat offset) (unat sz)"
  shows "fat_read (path_of (nms @ [nm])) sz offset s =
    Inr (int n, slice (unat offset) n (file_bytes s cs))"
proof -
  have "unat (of_nat n :: u32) = n" "n < 2 ^ 31"
    using assms(12,15) by (simp_all add: unat_of_nat)
  then have "sint (of_nat n :: u32) = int n" using sint_u32 [of "of_nat n"] by simp
  then show ?thesis
    using fat_read_ok [OF assms(1-11) _ assms(13)] assms(12,15) read_result_aligned [OF assms(14)] by simp
qed

theorem fat_read_aligned_witness:
  "fat_read (path_of [name_a]) 10 0 disk_data = Inr (3, [1, 2, 3])"
proof -
  note i = alloc_invD [OF disk_data_facts(2)]
  have c: "chain disk_data (hd [4]) [4]" "chain disk_data 5 [5]"
    using i(5) [of "[4]"] i(5) [of "[5]"] by simp_all
  have res: "resolves disk_data (root_cluster_start (superblock disk_data)) [] (hd [4])"
    by (simp add: disk_data_facts(8) resolves_root)
  have "fat_read (path_of ([] @ [name_a])) 10 0 disk_data =
      Inr (int 3, slice (unat (0 :: u64)) 3 (file_bytes disk_data [5]))"
    by (rule fat_read_aligned [OF i(1) c(1) _ disk_data_facts(3) res name_a(2,3) disk_data_facts(5)])
      (simp_all add: c(2) disk_data_facts(7))
  then show ?thesis by (simp add: disk_data_facts(6) slice_def)
qed

section \<open>Creating and removing\<close>

text \<open>
  C15. Making a directory: a cluster moves from the free list to the new directory, which holds
  the entries for itself and its parent and is empty; the parent gets the new name and keeps
  all others; all other clusters stay; the invariants hold again.
\<close>

theorem fat_mkdir_correct:
  assumes inv: "alloc_inv s fl (cs # cls)" and fl: "fl \<noteq> []" "root_cluster_start (superblock s) \<notin> set fl"
    and par: "resolves s (root_cluster_start (superblock s)) nms (hd cs)"
    and nm: "name_ok nm" "component nm"
    and slot: "first_at s cs slot_free j k" "40 * k + 40 \<le> sb_bpc s"
    and dir: "dir_ok s cs" "unique_names s cs" and new: "dir_lookup s cs nm = None"
  shows "\<exists>t. fat_mkdir (path_of (nms @ [nm])) s = Inr (0, t) \<and>
    alloc_inv t (tl fl) ([hd fl] # cs # cls) \<and>
    dir_lookup t cs nm = Some (new_dir_entry s nm (hd fl) DIR_ENTRY_TYPE_SUBDIR) \<and>
    (\<forall>nm'. nm' \<noteq> nm \<longrightarrow> nm' \<noteq> [] \<longrightarrow> dir_lookup t cs nm' = dir_lookup s cs nm') \<and>
    dir_ok t cs \<and> unique_names t cs \<and>
    dir_lookup t [hd fl] dot = Some (new_dir_entry s dot (hd fl) DIR_ENTRY_TYPE_SUBDIR) \<and>
    dir_lookup t [hd fl] dotdot = Some (new_dir_entry s dotdot (hd cs) DIR_ENTRY_TYPE_SUBDIR) \<and>
    dir_empty t [hd fl] \<and> dir_ok t [hd fl] \<and>
    (\<forall>d. data_cluster s d \<longrightarrow> d \<noteq> cs ! j \<longrightarrow> d \<noteq> hd fl \<longrightarrow> cluster_data t d = cluster_data s d)"
  unfolding create_ok(1) [OF inv fl par nm slot]
  using entry_added_inv [OF inv fl(1) slot, where nm = nm and ty = DIR_ENTRY_TYPE_SUBDIR]
    entry_added_parent [OF inv fl(1) slot dir(1) nm(1) new, where ty = DIR_ENTRY_TYPE_SUBDIR] dir(2)
  by (intro exI conjI) (rule refl, simp_all)

theorem fat_mkdir_correct_witness:
  "\<exists>t. fat_mkdir (path_of [name_a]) new_disk = Inr (0, t) \<and> alloc_inv t (tl all_free) [[5], [4]] \<and>
    dir_empty t [5]"
proof -
  have res: "resolves new_disk (root_cluster_start (superblock new_disk)) [] (hd [4])"
    and fl: "root_cluster_start (superblock new_disk) \<notin> set all_free"
    by (simp_all add: new_disk_facts(3) resolves_root)
  from fat_mkdir_correct [OF new_disk_facts(2) all_free_simps(2) fl res name_a(1,2) new_disk_slot
      new_disk_fits new_disk_facts(5,6) new_disk_absent [OF name_a(4,5,3)]]
  show ?thesis by auto
qed

text \<open>
  Creating a file: the new name maps to an empty regular file whose one cluster is zeroed
  and comes from the free list; everything else stays.
\<close>

theorem fat_create_correct:
  assumes inv: "alloc_inv s fl (cs # cls)" and fl: "fl \<noteq> []" "root_cluster_start (superblock s) \<notin> set fl"
    and par: "resolves s (root_cluster_start (superblock s)) nms (hd cs)"
    and nm: "name_ok nm" "component nm"
    and slot: "first_at s cs slot_free j k" "40 * k + 40 \<le> sb_bpc s"
    and dir: "dir_ok s cs" "unique_names s cs" and new: "dir_lookup s cs nm = None"
    and mode: "S_ISREG (or mode S_IFREG)"
  shows "\<exists>t. fat_create (path_of (nms @ [nm])) mode s = Inr (0, t) \<and>
    alloc_inv t (tl fl) ([hd fl] # cs # cls) \<and>
    dir_lookup t cs nm = Some (new_dir_entry s nm (hd fl) DIR_ENTRY_TYPE_FILE) \<and>
    (\<forall>nm'. nm' \<noteq> nm \<longrightarrow> nm' \<noteq> [] \<longrightarrow> dir_lookup t cs nm' = dir_lookup s cs nm') \<and>
    dir_ok t cs \<and> unique_names t cs \<and> cluster_data t (hd fl) = get_new_cluster s \<and>
    (\<forall>d. data_cluster s d \<longrightarrow> d \<noteq> cs ! j \<longrightarrow> d \<noteq> hd fl \<longrightarrow> cluster_data t d = cluster_data s d)"
  unfolding fat_create_def create_ok(2) [OF inv fl par nm slot mode] bind_res_Inr split_conv
  using entry_added_inv(1-3) [OF inv fl(1) slot, where nm = nm and ty = DIR_ENTRY_TYPE_FILE]
    entry_added_parent [OF inv fl(1) slot dir(1) nm(1) new, where ty = DIR_ENTRY_TYPE_FILE] dir(2)
  by (intro exI conjI) (rule refl, simp_all add: DIR_ENTRY_TYPE_FILE_def DIR_ENTRY_TYPE_SUBDIR_def)

theorem fat_create_correct_witness:
  "\<exists>t. fat_create (path_of [name_a]) 0 new_disk = Inr (0, t) \<and> alloc_inv t (tl all_free) [[5], [4]]"
proof -
  have res: "resolves new_disk (root_cluster_start (superblock new_disk)) [] (hd [4])"
    and fl: "root_cluster_start (superblock new_disk) \<notin> set all_free"
    and mode: "S_ISREG (or 0 S_IFREG)"
    by (simp_all add: new_disk_facts(3) resolves_root S_ISREG_def S_IFREG_def S_IFMT_def)
  from fat_create_correct [OF new_disk_facts(2) all_free_simps(2) fl res name_a(1,2) new_disk_slot
      new_disk_fits new_disk_facts(5,6) new_disk_absent [OF name_a(4,5,3)] mode]
  show ?thesis by auto
qed

text \<open>
  Removing a file: its clusters go to the front of the free list, its name is gone, every
  other name and every cluster outside the directory stays; the invariants hold again.
\<close>

theorem fat_unlink_correct:
  assumes "alloc_inv s fl (cs # ps # cls)" and "dir_ok s ps" and "unique_names s ps"
    and "resolves s (root_cluster_start (superblock s)) nms (hd ps)" and "component nm" and "nm \<noteq> []"
    and "dir_lookup s ps nm = Some e" and "de_type e = DIR_ENTRY_TYPE_FILE"
    and "de_first_cluster e = hd cs"
  shows "\<exists>t. fat_unlink (path_of (nms @ [nm])) s = Inr (0, t) \<and>
    alloc_inv t (cs @ fl) (ps # cls) \<and> dir_lookup t ps nm = None \<and>
    (\<forall>nm'. nm' \<noteq> nm \<longrightarrow> nm' \<noteq> [] \<longrightarrow> dir_lookup t ps nm' = dir_lookup s ps nm') \<and>
    dir_ok t ps \<and> unique_names t ps \<and> same_layout s t \<and>
    (\<forall>d. data_cluster s d \<longrightarrow> d \<notin> set ps \<longrightarrow> cluster_data t d = cluster_data s d)"
  using assms by (rule fat_unlink_ok)

theorem fat_unlink_correct_witness:
  "\<exists>t. fat_unlink (path_of [name_a]) disk_a = Inr (0, t) \<and> alloc_inv t (5 # tl all_free) [[4]] \<and>
    dir_lookup t [4] name_a = None"
proof -
  have res: "resolves disk_a (root_cluster_start (superblock disk_a)) [] (hd [4])"
    by (simp add: disk_a_facts(7) resolves_root)
  have ent: "dir_lookup disk_a [4] name_a = Some entry_a" "de_first_cluster entry_a = hd [5]"
    by (simp_all add: disk_a_facts(4) entry_a_def new_dir_entry_def)
  from fat_unlink_correct [OF disk_a_facts(1-3) res name_a(2,3) ent(1) entry_a_simps(1) ent(2)]
  show ?thesis by auto
qed

text \<open>
  Removing a directory: an empty one is removed like a file, a non-empty one is refused and
  nothing changes.
\<close>

theorem fat_rmdir_correct:
  assumes inv: "alloc_inv s fl (cs # ps # cls)" and dir: "dir_ok s ps" "unique_names s ps"
    and par: "resolves s (root_cluster_start (superblock s)) nms (hd ps)" and nm: "component nm" "nm \<noteq> []"
    and ent: "dir_lookup s ps nm = Some e" "de_type e = DIR_ENTRY_TYPE_SUBDIR" "de_first_cluster e = hd cs"
  shows "if dir_empty s cs
    then \<exists>t. fat_rmdir (path_of (nms @ [nm])) s = Inr (0, t) \<and>
      alloc_inv t (cs @ fl) (ps # cls) \<and> dir_lookup t ps nm = None \<and>
      (\<forall>nm'. nm' \<noteq> nm \<longrightarrow> nm' \<noteq> [] \<longrightarrow> dir_lookup t ps nm' = dir_lookup s ps nm') \<and>
      dir_ok t ps \<and> unique_names t ps \<and> same_layout s t \<and>
      (\<forall>d. data_cluster s d \<longrightarrow> d \<notin> set ps \<longrightarrow> cluster_data t d = cluster_data s d)
    else fat_rmdir (path_of (nms @ [nm])) s = Inr (- ENOTEMPTY, s)"
  using fat_rmdir_ok [OF inv dir par nm ent] by simp

theorem fat_rmdir_correct_witness:
  "\<exists>t. fat_rmdir (path_of [name_a]) disk_d = Inr (0, t) \<and> alloc_inv t (5 # tl all_free) [[4]] \<and>
    dir_lookup t [4] name_a = None"
proof -
  have res: "resolves disk_d (root_cluster_start (superblock disk_d)) [] (hd [4])"
    by (simp add: disk_d_facts(10) resolves_root)
  have ent: "de_type (new_dir_entry new_disk name_a 5 DIR_ENTRY_TYPE_SUBDIR) = DIR_ENTRY_TYPE_SUBDIR"
    "de_first_cluster (new_dir_entry new_disk name_a 5 DIR_ENTRY_TYPE_SUBDIR) = hd [5]"
    by (simp_all add: new_dir_entry_def)
  from fat_rmdir_correct [OF disk_d_facts(1-3) res name_a(2,3) disk_d_facts(4) ent] disk_d_facts(7)
  show ?thesis by auto
qed

text \<open>
  C16. Shrinking a file: the clusters behind the one with the new last byte go to the free list,
  the clusters that stay keep their bytes, and the entry gets the new size.
\<close>

theorem fat_truncate_correct:
  fixes sz :: u64
  assumes "alloc_inv s fl ((xs @ ys) # ps # cls)" and "dir_ok s ps" and "unique_names s ps"
    and "resolves s (root_cluster_start (superblock s)) nms (hd ps)" and "component nm" and "nm \<noteq> []"
    and "dir_lookup s ps nm = Some e" and "de_first_cluster e = hd xs"
    and "unat sz < unat (de_size e)" and "length xs = Suc (unat sz div sb_bpc s)"
  shows "\<exists>t. fat_truncate (path_of (nms @ [nm])) sz s = Inr (0, t) \<and>
    alloc_inv t (ys @ fl) (xs # ps # cls) \<and> file_bytes t xs = file_bytes s xs \<and>
    dir_lookup t ps nm = Some (e\<lparr>de_size := low32 sz\<rparr>) \<and>
    (\<forall>nm'. nm' \<noteq> nm \<longrightarrow> dir_lookup t ps nm' = dir_lookup s ps nm') \<and> dir_ok t ps \<and> unique_names t ps \<and>
    same_layout s t \<and>
    (\<forall>b. data_cluster s b \<longrightarrow> b \<notin> set ps \<longrightarrow> cluster_data t b = cluster_data s b)"
  using assms by (rule fat_truncate_shrink_ok)

theorem fat_truncate_correct_witness:
  "\<exists>t. fat_truncate (path_of [name_a]) 1 disk_data = Inr (0, t) \<and>
    file_bytes t [5] = [1, 2, 3] @ replicate 4093 0"
proof -
  have res: "resolves disk_data (root_cluster_start (superblock disk_data)) [] (hd [4])"
    by (simp add: disk_data_facts(8) resolves_root)
  have inv: "alloc_inv disk_data (tl all_free) [[5] @ [], [4]]" using disk_data_facts(2) by simp
  have p: "de_first_cluster (entry_a\<lparr>de_size := 3, de_time := 1000\<rparr>) = hd [5]"
    "unat (1 :: u64) < unat (de_size (entry_a\<lparr>de_size := 3, de_time := 1000\<rparr>))"
    "length [5 :: u32] = Suc (unat (1 :: u64) div sb_bpc disk_data)"
    by (simp_all add: disk_data_facts(7))
  from fat_truncate_correct [OF inv disk_data_facts(3,4) res name_a(2,3) disk_data_facts(5) p]
  show ?thesis by (auto simp: disk_data_facts(6))
qed

section \<open>Formatting and mounting\<close>

text \<open>
  C17. The first start, with no disk file: the disk is formatted without a failed assertion; all
  clusters behind the root directory are free, disk and memory agree, and the root directory
  holds the entries for itself and is empty.
\<close>

theorem format_correct:
  assumes "length (sb_pad s) = 488"
  shows "\<exists>t. fat_init None s = Inr t \<and> alloc_inv t all_free [[4]] \<and>
    superblock t = default_superblock \<and>
    dir_ok t [4] \<and> unique_names t [4] \<and> dir_empty t [4] \<and>
    dir_lookup t [4] dot = Some (new_dir_entry s dot 4 DIR_ENTRY_TYPE_SUBDIR) \<and>
    dir_lookup t [4] dotdot = Some (new_dir_entry s dotdot 4 DIR_ENTRY_TYPE_SUBDIR)"
  using fat_init_new [OF assms] by blast

theorem format_correct_witness:
  "\<exists>t. fat_init None boot_state = Inr t \<and> alloc_inv t all_free [[4]]"
  using format_correct [of boot_state] by (auto simp: boot_state_def)

text \<open>
  A later start: mounting the disk of any state that satisfies the invariants gives back
  that state, so every change that went through the operations above is there after a restart.
\<close>

theorem remount_restores:
  assumes "alloc_inv s fl cls" and "length (sb_pad t) = 488"
  shows "fat_init (Some (disk s)) t = Inr (s\<lparr>heap_tail := heap_tail t, clock := clock t\<rparr>)"
  using fat_init_again [OF alloc_invD(1,2) [OF assms(1)] assms(2)] .

theorem remount_restores_witness:
  "fat_init (Some (disk disk_data)) boot_state =
   Inr (disk_data\<lparr>heap_tail := heap_tail boot_state, clock := clock boot_state\<rparr>)"
  by (rule remount_restores [OF disk_data_facts(2)]) (simp add: boot_state_def)

section \<open>Errors and limits\<close>

text \<open>
  A write that needs more clusters than there are free returns the error and changes
  nothing; if exactly one is missing, it runs into the access of 
\<close>

theorem fat_write_no_space:
  fixes sz offset :: u64
  assumes inv: "alloc_inv s fl (fs # ps # cls)" and dir: "dir_ok s ps"
    and par: "resolves s (root_cluster_start (superblock s)) nms (hd ps)" and nm: "component nm"
    and ent: "dir_lookup s ps nm = Some e"
    and isfile: "de_type e = DIR_ENTRY_TYPE_FILE" "de_first_cluster e = hd fs"
    and size: "0 < unat (low32 sz)" "unat (low32 offset) + unat (low32 sz) < 2 ^ 32"
    and g: "g = clusters_for s (unat (low32 offset) + unat (low32 sz)) - length fs"
    and full: "length fl < g"
  shows "fat_write (path_of (nms @ [nm])) buf sz offset s =
    (if g = length fl + 1 then Inl Out_of_bounds else Inr (- ENOMEM, s))"
  unfolding fat_write_locates [OF inv dir par nm ent] g
  using full unfolding g by (rule update_file_full [OF inv isfile size])

theorem fat_write_no_space_witness:
  "fat_write (path_of [name_a]) [] 10485760 0 disk_a = Inr (- ENOMEM, disk_a)"
proof -
  have res: "resolves disk_a (root_cluster_start (superblock disk_a)) [] (hd [4])"
    by (simp add: disk_a_facts(7) resolves_root)
  have ent: "dir_lookup disk_a [4] name_a = Some entry_a" "de_first_cluster entry_a = hd [5]"
    by (simp_all add: disk_a_facts(4) entry_a_def new_dir_entry_def)
  have lo: "low32 10485760 = 10485760" by (simp add: low32_def)
  have p: "0 < unat (low32 10485760)" "unat (low32 0) + unat (low32 10485760) < 2 ^ 32"
    "2559 = clusters_for disk_a (unat (low32 0) + unat (low32 10485760)) - length [5 :: u32]"
    "length (tl all_free) < 2559"
    by (simp_all add: lo clusters_for_def disk_a_facts(6))
  from fat_write_no_space [OF disk_a_facts(1,2) res name_a(2) ent(1) entry_a_simps(1) ent(2) p]
  show ?thesis by simp
qed

text \<open>
  A read inside the first cluster of a file returns the first bytes of the file, not those
  at the offset.
\<close>

theorem fat_read_ignores_offset:
  fixes sz offset :: u64
  assumes "geometry s" and "chain s (hd ps) ps" and "ps \<noteq> []" and "dir_ok s ps"
    and "resolves s (root_cluster_start (superblock s)) nms (hd ps)" and "component nm" and "nm \<noteq> []"
    and "dir_lookup s ps nm = Some e" and "chain s (de_first_cluster e) cs"
    and "unat (de_size e) \<le> length cs * sb_bpc s"
    and "0 < unat sz" and "unat sz < 2 ^ 31" and "unat offset + unat sz \<le> unat (de_size e)"
    and "unat offset + unat sz \<le> sb_bpc s"
  shows "fat_read (path_of (nms @ [nm])) sz offset s =
    Inr (int (unat sz), slice 0 (unat sz) (file_bytes s cs))"
proof -
  have m: "min (unat (de_size e) - unat offset) (unat sz) = unat sz" using assms(13) by simp
  have "unat (of_nat (unat sz) :: u32) = unat sz" using assms(12) by (simp only: unat_of_nat) simp
  then have "sint (of_nat (unat sz) :: u32) = int (unat sz)"
    using sint_u32 [of "of_nat (unat sz)"] assms(12) by simp
  then show ?thesis
    using fat_read_ok [OF assms(1-11), of offset] assms(11-13)
      read_result_first_cluster [OF assms(14,11)] unfolding m by simp
qed

theorem fat_read_ignores_offset_witness:
  "fat_read (path_of [name_a]) 1 2 disk_data = Inr (1, [1])"
proof -
  note i = alloc_invD [OF disk_data_facts(2)]
  have c: "chain disk_data (hd [4]) [4]" "chain disk_data 5 [5]"
    using i(5) [of "[4]"] i(5) [of "[5]"] by simp_all
  have res: "resolves disk_data (root_cluster_start (superblock disk_data)) [] (hd [4])"
    by (simp add: disk_data_facts(8) resolves_root)
  have "fat_read (path_of ([] @ [name_a])) 1 2 disk_data =
      Inr (int (unat (1 :: u64)), slice 0 (unat (1 :: u64)) (file_bytes disk_data [5]))"
    by (rule fat_read_ignores_offset [OF i(1) c(1) _ disk_data_facts(3) res name_a(2,3) disk_data_facts(5)])
      (simp_all add: c(2) disk_data_facts(7))
  then show ?thesis by (simp add: disk_data_facts(6) slice_def One_nat_def)
qed

text \<open>
  C23. With no free cluster left, making a directory is refused, but creating a file reports
  success although nothing was created.
\<close>

theorem create_without_space:
  assumes "alloc_inv s [] cls"
  shows "fat_mkdir path s = Inr (- ENOMEM, s) \<and> fat_create path mode s = Inr (0, s)"
  using create_full [OF assms] by simp

theorem create_without_space_witness:
  "\<exists>t. alloc_inv t [] [all_free, [4]] \<and> fat_mkdir (path_of [name_a]) t = Inr (- ENOMEM, t) \<and>
    fat_create (path_of [name_a]) 0 t = Inr (0, t)"
proof -
  have "alloc_inv (popped new_disk all_free 2555) [] [all_free, [4]]"
    using alloc_inv_pop [OF new_disk_facts(2), of 2555] by simp
  then show ?thesis using create_without_space by blast
qed

text \<open>
  C24. A file name of more than 21 bytes: the call reports success, the directory is unchanged,
  and the cluster taken for the file belongs to nothing any more.
\<close>

theorem long_name_leaks_cluster:
  assumes "alloc_inv s fl (cs # cls)" and "fl \<noteq> []" and "root_cluster_start (superblock s) \<notin> set fl"
    and "resolves s (root_cluster_start (superblock s)) nms (hd cs)"
    and "DIR_ENTRY_MAX_NAME_LEN < length nm" and "component nm" and "S_ISREG mode"
  shows "\<exists>t. fat_mknod (path_of (nms @ [nm])) mode s = Inr (0, t) \<and>
    alloc_inv t (tl fl) ([hd fl] # cs # cls) \<and> dir_slots t cs = dir_slots s cs"
proof -
  note i = alloc_invD [OF assms(1)]
  have len: "0 < (1 :: nat)" "1 \<le> length fl" using assms(2) by (cases fl; auto)+
  have "\<forall>c \<in> set cs. data_cluster s c" "set cs \<inter> set fl = {}"
    using i(5,6) [of cs] by (auto simp: chain_def)
  then show ?thesis
    using mknod_long_name [OF assms] alloc_inv_pop [OF assms(1) len]
      popped_dir_frame(1) [OF i(1,3) assms(2)]
    by (simp add: take_1 [OF assms(2)] drop_1_tl)
qed

theorem long_name_leaks_cluster_witness:
  "\<exists>t. fat_mknod (path_of [replicate 22 97]) S_IFREG new_disk = Inr (0, t) \<and>
    alloc_inv t (tl all_free) [[5], [4]] \<and> dir_slots t [4] = dir_slots new_disk [4]"
proof -
  have p: "root_cluster_start (superblock new_disk) \<notin> set all_free"
    "resolves new_disk (root_cluster_start (superblock new_disk)) [] (hd [4])"
    "DIR_ENTRY_MAX_NAME_LEN < length (replicate 22 (97 :: byte))" "component (replicate 22 97)"
    "S_ISREG S_IFREG"
    by (simp_all add: new_disk_facts(3) resolves_root DIR_ENTRY_MAX_NAME_LEN_def component_def
        slash_def S_ISREG_def S_IFREG_def S_IFMT_def)
  from long_name_leaks_cluster [OF new_disk_facts(2) all_free_simps(2) p] show ?thesis by simp
qed

section \<open>Queries\<close>

text \<open>
  The statistics of the file system report the blocks behind the table and the length of
  the free list.
\<close>

theorem fat_statfs_correct:
  assumes "geometry s" and "free_list s fl"
  shows "fat_statfs s = Inr (0,
    \<lparr>f_blocks = int (sb_count s) - int (sb_fatlen s) - 1, f_bsize = int (sb_bpc s),
     f_bfree = int (length fl), f_bavail = int (length fl), f_ffree = int (length fl),
     f_favail = int (length fl), f_namemax = 21\<rparr>)"
  using assms by (rule fat_statfs_ok)

theorem fat_statfs_correct_witness:
  "fat_statfs new_disk = Inr (0, \<lparr>f_blocks = 2556, f_bsize = 4096, f_bfree = 2555, f_bavail = 2555,
     f_ffree = 2555, f_favail = 2555, f_namemax = 21\<rparr>)"
  using fat_statfs_correct [OF new_disk_geometry(1,3)] by (simp add: new_disk_facts(3))

text \<open>
  The attributes of a path: those in the directory entry of a file, and the error when the
  name is not in the directory; access and open agree with it.
\<close>

theorem fat_getattr_correct:
  assumes "geometry s" and "resolves s (root_cluster_start (superblock s)) nms (hd ps)"
    and "chain s (hd ps) ps" and "ps \<noteq> []" and "component nm" and "name_ok nm"
  shows "case dir_lookup s ps nm of
      None \<Rightarrow> fat_getattr (path_of (nms @ [nm])) stbuf s = Inr (- ENOENT, stbuf) \<and>
        fat_access (path_of (nms @ [nm])) s = Inr (- ENOENT) \<and>
        fat_open (path_of (nms @ [nm])) s = Inr (- ENOENT)
    | Some e \<Rightarrow> (de_type e = DIR_ENTRY_TYPE_FILE \<longrightarrow> fat_getattr (path_of (nms @ [nm])) stbuf s =
          Inr (0, \<lparr>st_mode = or (or (or S_IRWXU S_IRWXG) S_IRWXO) S_IFREG, st_nlink = 2,
            st_ino = int (unat (de_first_cluster e)), st_size = int (unat (de_size e)),
            st_mtime = sint (de_time e)\<rparr>)) \<and>
        fat_access (path_of (nms @ [nm])) s = Inr 0 \<and> fat_open (path_of (nms @ [nm])) s = Inr 0"
  using fat_getattr_file [OF assms] fat_getattr_absent [OF assms] fat_access_ok [OF assms]
  by (cases "dir_lookup s ps nm") (simp_all del: path_of_append)

theorem fat_getattr_correct_witness:
  "fat_access (path_of [name_a]) disk_a = Inr 0 \<and>
   (\<exists>st. fat_getattr (path_of [name_a]) zero_stat disk_a = Inr (0, st) \<and> st_size st = 0 \<and> st_ino st = 5)"
proof -
  note i = alloc_invD [OF disk_a_facts(1)]
  have p: "resolves disk_a (root_cluster_start (superblock disk_a)) [] (hd [4])"
    "chain disk_a (hd [4]) [4]"
    using i(5) [of "[4]"] by (simp_all add: disk_a_facts(7) resolves_root)
  have ent: "dir_lookup disk_a [4] name_a = Some entry_a" by (simp add: disk_a_facts(4) entry_a_def)
  from fat_getattr_correct [OF i(1) p _ name_a(2,1), of zero_stat] show ?thesis by (simp add: ent)
qed

end
